(* ===== verification/Prelude.thy ===== *)
theory Prelude
  imports Main "HOL-Library.Word"
begin

text \<open>
  What every component shares: the type of results, the machine integers, the collections of
  rewrite rules the component proofs use, and the generic lemmas on lists, options and words.

  A C++ function that may throw returns \<open>exn + 'a\<close>: \<open>Inr\<close> is the returned value, \<open>Inl (Exn m)\<close>
  an exception whose \<open>what()\<close> is \<open>m\<close>, \<open>Inl (Assert m)\<close> a failed \<open>BOOST_ASSERT\<close> and
  \<open>Inl (UB m)\<close> undefined behaviour of the C++ code (a dereferenced dangling pointer, an invalidated
  iterator, a conversion out of range), so that a theorem which says that an operation returns
  \<open>Inr\<close> says in particular that it is free of undefined behaviour.
\<close>

section \<open>Results, machine integers\<close>

datatype exn = Exn string | Assert string | UB string

type_synonym 'a res = "exn + 'a"

type_synonym usize = "64 word"
type_synonym byte = "8 word"

definition rbind :: "'a res \<Rightarrow> ('a \<Rightarrow> 'b res) \<Rightarrow> 'b res" where
  "rbind r f = (case r of Inl e \<Rightarrow> Inl e | Inr x \<Rightarrow> f x)"

lemma rbind_simps [simp]:
  "rbind (Inl e) f = Inl e"
  "rbind (Inr x) f = f x"
  by (simp_all add: rbind_def)

lemma rbind_eq_Inr: "rbind r f = Inr y \<longleftrightarrow> (\<exists>x. r = Inr x \<and> f x = Inr y)"
  by (cases r) auto

named_theorems nx_defs \<open>definitions of the model that component proofs unfold\<close>
named_theorems nx_frame \<open>fields an operation leaves unchanged\<close>

section \<open>Words as counters\<close>

text \<open>The counters of the code are \<open>std::atomic_size_t\<close>: they wrap around at \<open>2 ^ 64\<close>.\<close>

lemma of_nat_Suc_minus_1 [simp]: "(of_nat (Suc n) :: 'a::len word) - 1 = of_nat n"
  by simp

lemma of_nat_eq_0_iff_small:
  assumes "n < 2 ^ 64"
  shows "(of_nat n :: usize) = 0 \<longleftrightarrow> n = 0"
proof -
  have "(of_nat n :: usize) = 0 \<longleftrightarrow> (2::nat) ^ LENGTH(64) dvd n"
    by (rule word_of_nat_eq_0_iff)
  then show ?thesis
    using assms nat_dvd_not_less [of n "2 ^ 64"] by auto
qed

lemma uint_of_int_small: "0 \<le> x \<Longrightarrow> x < 2 ^ 64 \<Longrightarrow> uint (of_int x :: usize) = x"
  by (simp add: uint_word_of_int)

lemma unat_of_nat_small: "n < 2 ^ 64 \<Longrightarrow> unat (of_nat n :: usize) = n"
  by (simp add: unat_of_nat)

lemma sint_of_nat_small: "n < 2 ^ 63 \<Longrightarrow> sint (of_nat n :: usize) = int n"
  by (simp add: signed_of_nat signed_take_bit_int_eq_self)

lemma uint_of_nat_small: "n < 2 ^ 64 \<Longrightarrow> uint (of_nat n :: usize) = int n"
  using unat_of_nat_small [of n] by (simp only: uint_nat)

end
