(* ===== verification/JsValues.thy ===== *)
theory JsValues
  imports Complex_Main Prelude
begin

text \<open>
  JavaScript values as the bindings see them (\<open>src/value.cpp\<close>, \<open>src/object.cpp\<close>,
  \<open>include/object.h\<close>, \<open>src/util.cpp\<close>, \<open>include/util.h\<close>), the protocol of a native function
  (the returned value and the exception slot), and the protect counts that keep values alive.

  The engine is outside \<open>src/\<close>: its conversions and property lookups are the fields of the
  parameter \<open>engine\<close>.
\<close>

section \<open>Values\<close>

datatype jsnum = NaN | PosInf | NegInf | Fin rat

datatype jsval =
    Undefined
  | Null
  | Boolean bool
  | Number jsnum
  | String string
  | Object nat
  | Array "jsval list"
  | Buffer "byte list"
  | View "byte list" nat nat
  | ErrorObj string

datatype jstype = kUndefined | kNull | kBoolean | kNumber | kString | kObject

fun JSValueGetType :: "jsval \<Rightarrow> jstype" where
  "JSValueGetType Undefined = kUndefined"
| "JSValueGetType Null = kNull"
| "JSValueGetType (Boolean b) = kBoolean"
| "JSValueGetType (Number n) = kNumber"
| "JSValueGetType (String s) = kString"
| "JSValueGetType _ = kObject"

text \<open>
  What the bindings use of the engine: \<open>ToNumber\<close> and \<open>ToString\<close> (\<open>Inl\<close> the exception they throw),
  \<open>JSON.stringify\<close>, property reads, calls, and the error it stores when an object is not of the
  class an operation expects. \<open>View b o n\<close> is a typed array of \<open>n\<close> bytes at offset \<open>o\<close> of the buffer \<open>b\<close>.
\<close>

record engine =
  ToNumber :: "jsval \<Rightarrow> jsval + jsnum"
  ToString :: "jsval \<Rightarrow> jsval + string"
  Stringify :: "jsval \<Rightarrow> nat \<Rightarrow> jsval + string"
  GetProperty :: "jsval \<Rightarrow> string \<Rightarrow> jsval + jsval"
  TypeErr :: jsval
  CallFunction :: "jsval \<Rightarrow> jsval list \<Rightarrow> jsval + jsval"
  IsFunction :: "jsval \<Rightarrow> bool"

text \<open>Numbers into integers as C++ converts a \<open>double\<close>: truncation, undefined when the result does not fit.\<close>

definition trunc :: "rat \<Rightarrow> int" where
  "trunc r = (if r < 0 then \<lceil>r\<rceil> else \<lfloor>r\<rfloor>)"

definition to_integer :: "int \<Rightarrow> int \<Rightarrow> jsnum \<Rightarrow> int res" where
  "to_integer lo hi n =
     (case n of
        Fin r \<Rightarrow> if lo \<le> trunc r \<and> trunc r \<le> hi then Inr (trunc r) else Inl (UB ''conversion out of range'')
      | _ \<Rightarrow> Inl (UB ''conversion out of range''))"

definition to_int32 :: "jsnum \<Rightarrow> int res" where
  "to_int32 = to_integer (- (2 ^ 31)) (2 ^ 31 - 1)"

definition to_size_t :: "jsnum \<Rightarrow> usize res" where
  "to_size_t n = rbind (to_integer 0 (2 ^ 64 - 1) n) (\<lambda>i. Inr (of_int i))"

lemma trunc_of_int [simp]: "trunc (of_int i) = i"
  by (simp add: trunc_def)

lemma trunc_of_nat [simp]: "trunc (of_nat n) = int n"
  using trunc_of_int [of "int n"] by simp

lemma trunc_numeral [simp]: "trunc (numeral k) = numeral k" "trunc 0 = 0" "trunc 1 = 1"
  by (simp_all add: trunc_def)

section \<open>The native function protocol\<close>

text \<open>The value a native function returns and what it stored in \<open>*exception\<close>.\<close>

type_synonym jscall = "jsval \<times> jsval option"

fun message_of :: "exn \<Rightarrow> string" where
  "message_of (Exn m) = m"
| "message_of (Assert m) = m"
| "message_of (UB m) = m"

definition JSWrapException :: "exn \<Rightarrow> jscall" where
  "JSWrapException e = (Undefined, Some (ErrorObj (message_of e)))"

text \<open>
  The \<open>try ... catch (const std::exception & e)\<close> around the body of every method: a C++ exception
  becomes a JavaScript error, a failed assertion and undefined behaviour do not. Where the code makes the error with
  \<open>NX::Object(ctx, e)\<close> instead, its message also carries a stack trace, which is left out.
\<close>

definition catching :: "(exn \<Rightarrow> jscall) \<Rightarrow> jscall res \<Rightarrow> jscall res" where
  "catching h r = (case r of Inl (Exn m) \<Rightarrow> Inr (h (Exn m)) | _ \<Rightarrow> r)"

definition try_wrap :: "jscall res \<Rightarrow> jscall res" where
  "try_wrap r = catching JSWrapException r"

lemma try_wrap_simps [simp]:
  "try_wrap (Inr x) = Inr x"
  "try_wrap (Inl (Exn m)) = Inr (Undefined, Some (ErrorObj m))"
  "try_wrap (Inl (Assert m)) = Inl (Assert m)"
  "try_wrap (Inl (UB m)) = Inl (UB m)"
  by (simp_all add: try_wrap_def catching_def JSWrapException_def)

definition arg :: "jsval list \<Rightarrow> nat \<Rightarrow> jsval" where
  "arg as i = (if i < length as then as ! i else Undefined)"

definition has_type :: "jsval list \<Rightarrow> nat \<Rightarrow> jstype \<Rightarrow> bool" where
  "has_type as i t \<longleftrightarrow> JSValueGetType (arg as i) = t"

section \<open>NX::Value\<close>

text \<open>
  \<open>toNumber\<close> and \<open>toObject\<close> throw the text of the engine's exception; the text of an exception value
  is its \<open>toString\<close>.
\<close>

definition Value_toString :: "engine \<Rightarrow> jsval \<Rightarrow> string res" where
  "Value_toString en v =
     (case ToString en v of Inl _ \<Rightarrow> Inl (Exn ''could not convert value to string'') | Inr s \<Rightarrow> Inr s)"

definition Value_toNumber :: "engine \<Rightarrow> jsval \<Rightarrow> jsnum res" where
  "Value_toNumber en v =
     (case ToNumber en v of
        Inl e \<Rightarrow> rbind (Value_toString en e) (\<lambda>m. Inl (Exn m))
      | Inr n \<Rightarrow> Inr n)"

text \<open>
  \<open>JSStringGetUTF8CString\<close> writes the characters and a terminating NUL and returns how many bytes it
  wrote, the NUL included. \<open>toString\<close> resizes to that number less one, \<open>toJSON\<close> to the number.
\<close>

definition get_utf8 :: "string \<Rightarrow> string \<times> nat" where
  "get_utf8 s = (s @ [CHR 0x00], length s + 1)"

definition toString_bytes :: "string \<Rightarrow> string" where
  "toString_bytes s = (let (buf, len) = get_utf8 s in take (len - 1) buf)"

definition toJSON_bytes :: "string \<Rightarrow> string" where
  "toJSON_bytes s = (let (buf, len) = get_utf8 s in take len buf)"

definition Value_toJSON :: "engine \<Rightarrow> jsval \<Rightarrow> nat \<Rightarrow> string res" where
  "Value_toJSON en v indent =
     (case Stringify en v indent of
        Inl e \<Rightarrow>
          (case GetProperty en e ''message'' of
             Inl e2 \<Rightarrow> rbind (Value_toString en e2) (\<lambda>m. Inl (Exn m))
           | Inr mv \<Rightarrow> rbind (Value_toString en mv) (\<lambda>m. Inl (Exn m)))
      | Inr s \<Rightarrow> Inr (toJSON_bytes s))"

section \<open>Protection\<close>

text \<open>
  \<open>JSValueProtect\<close> and \<open>JSValueUnprotect\<close> count; a value is collectable when nothing protects it. The
  counts are integers: an unprotect too many is visible as a count below the real uses.
\<close>

type_synonym protects = "jsval \<Rightarrow> int"

definition JSValueProtect :: "jsval \<Rightarrow> protects \<Rightarrow> protects" where
  "JSValueProtect v p = p(v := p v + 1)"

definition JSValueUnprotect :: "jsval \<Rightarrow> protects \<Rightarrow> protects" where
  "JSValueUnprotect v p = p(v := p v - 1)"

lemma unprotect_protect [simp]: "JSValueUnprotect v (JSValueProtect v p) = p"
  by (simp add: JSValueProtect_def JSValueUnprotect_def)

text \<open>\<open>NX::Object\<close>: a context (set or null) and an object; \<open>attach\<close> protects, \<open>clear\<close> unprotects.\<close>

record nxobject =
  myContext :: bool
  myObject :: "jsval option"

definition Object_attach :: "nxobject \<Rightarrow> protects \<Rightarrow> protects" where
  "Object_attach ob p = (case myObject ob of Some v \<Rightarrow> if myContext ob then JSValueProtect v p else p | None \<Rightarrow> p)"

definition Object_new :: "jsval \<Rightarrow> protects \<Rightarrow> nxobject \<times> protects" where
  "Object_new v p =
     (let ob = \<lparr>myContext = True, myObject = Some v\<rparr> in (ob, Object_attach ob p))"

definition Object_copy :: "nxobject \<Rightarrow> protects \<Rightarrow> nxobject \<times> protects" where
  "Object_copy other p =
     (let ob = \<lparr>myContext = myContext other, myObject = myObject other\<rparr> in (ob, Object_attach ob p))"

definition Object_clear :: "nxobject \<Rightarrow> protects \<Rightarrow> nxobject \<times> protects" where
  "Object_clear ob p =
     (\<lparr>myContext = False, myObject = None\<rparr>,
      (case myObject ob of Some v \<Rightarrow> if myContext ob then JSValueUnprotect v p else p | None \<Rightarrow> p))"

definition Object_destroy :: "nxobject \<Rightarrow> protects \<Rightarrow> protects" where
  "Object_destroy ob p = snd (Object_clear ob p)"

text \<open>The move constructor takes the fields, nulls the other object and attaches: (new, other, counts).\<close>

definition Object_move :: "nxobject \<Rightarrow> protects \<Rightarrow> nxobject \<times> nxobject \<times> protects" where
  "Object_move other p =
     (let ob = \<lparr>myContext = myContext other, myObject = myObject other\<rparr>
      in (ob, \<lparr>myContext = False, myObject = None\<rparr>, Object_attach ob p))"

definition Object_assign :: "nxobject \<Rightarrow> nxobject \<Rightarrow> protects \<Rightarrow> nxobject \<times> protects" where
  "Object_assign this other p =
     (let ob = this\<lparr>myContext := myContext other, myObject := myObject other\<rparr> in (ob, Object_attach ob p))"

definition Object_toBoolean :: "nxobject \<Rightarrow> bool" where
  "Object_toBoolean ob = (myObject ob \<noteq> None)"

text \<open>\<open>NX::ProtectedArguments\<close>: a copy of the arguments, protected while it lives.\<close>

definition ProtectedArguments :: "jsval list \<Rightarrow> protects \<Rightarrow> jsval list \<times> protects" where
  "ProtectedArguments as p = (as, fold JSValueProtect as p)"

definition ProtectedArguments_copy :: "jsval list \<Rightarrow> protects \<Rightarrow> jsval list \<times> protects" where
  "ProtectedArguments_copy other p = (other, fold JSValueProtect other p)"

definition ProtectedArguments_move :: "jsval list \<Rightarrow> protects \<Rightarrow> jsval list \<times> jsval list \<times> protects" where
  "ProtectedArguments_move other p = (other, [], p)"

definition ProtectedArguments_destroy :: "jsval list \<Rightarrow> protects \<Rightarrow> protects" where
  "ProtectedArguments_destroy as p = fold JSValueUnprotect as p"

lemma fold_protect: "fold JSValueProtect as p v = p v + int (count_list as v)"
  by (induction as arbitrary: p) (auto simp: JSValueProtect_def)

lemma fold_unprotect: "fold JSValueUnprotect as p v = p v - int (count_list as v)"
  by (induction as arbitrary: p) (auto simp: JSValueUnprotect_def)

lemma arguments_balanced [simp]:
  "ProtectedArguments_destroy as (snd (ProtectedArguments as p)) = p"
  by (simp add: ProtectedArguments_def ProtectedArguments_destroy_def fun_eq_iff fold_protect fold_unprotect)

section \<open>Lifetimes of handles\<close>

text \<open>
  A history of the handles of one function: values wrapped, handles copied, moved, assigned, destroyed.
  \<open>hs\<close> is the list of live handles.
\<close>

datatype handle_op = Wrap jsval | Copy nat | Move nat | Assign nat nat | Destroy nat

fun handle_step :: "handle_op \<Rightarrow> nxobject list \<times> protects \<Rightarrow> (nxobject list \<times> protects) option" where
  "handle_step (Wrap v) (hs, p) = (let (ob, p') = Object_new v p in Some (hs @ [ob], p'))"
| "handle_step (Copy i) (hs, p) =
     (if i < length hs then let (ob, p') = Object_copy (hs ! i) p in Some (hs @ [ob], p') else None)"
| "handle_step (Move i) (hs, p) =
     (if i < length hs then let (ob, old, p') = Object_move (hs ! i) p in Some (hs[i := old] @ [ob], p') else None)"
| "handle_step (Assign i j) (hs, p) =
     (if i < length hs \<and> j < length hs
      then let (ob, p') = Object_assign (hs ! i) (hs ! j) p in Some (hs[i := ob], p') else None)"
| "handle_step (Destroy i) (hs, p) =
     (if i < length hs then let (ob, p') = Object_clear (hs ! i) p in Some (hs[i := ob], p') else None)"

fun handle_run :: "handle_op list \<Rightarrow> nxobject list \<times> protects \<Rightarrow> (nxobject list \<times> protects) option" where
  "handle_run [] st = Some st"
| "handle_run (c # cs) st = (case handle_step c st of None \<Rightarrow> None | Some st' \<Rightarrow> handle_run cs st')"

fun move_or_assign :: "handle_op \<Rightarrow> bool" where
  "move_or_assign (Move i) = True"
| "move_or_assign (Assign i j) = True"
| "move_or_assign _ = False"

definition handle_refs :: "nxobject list \<Rightarrow> jsval \<Rightarrow> int" where
  "handle_refs hs v = (\<Sum>h\<leftarrow>hs. if myContext h \<and> myObject h = Some v then 1 else 0)"

definition balanced :: "nxobject list \<times> protects \<Rightarrow> protects \<Rightarrow> bool" where
  "balanced st p0 \<longleftrightarrow> (\<forall>v. snd st v = p0 v + handle_refs (fst st) v)"

lemma handle_refs_simps [simp]:
  "handle_refs [] v = 0"
  "handle_refs (hs @ hs') v = handle_refs hs v + handle_refs hs' v"
  "handle_refs (h # hs) v = (if myContext h \<and> myObject h = Some v then 1 else 0) + handle_refs hs v"
  by (simp_all add: handle_refs_def)

lemma handle_refs_update:
  "i < length hs \<Longrightarrow> handle_refs (hs[i := h]) v = handle_refs hs v
     - (if myContext (hs ! i) \<and> myObject (hs ! i) = Some v then 1 else 0)
     + (if myContext h \<and> myObject h = Some v then 1 else 0)"
  by (induction hs arbitrary: i) (auto split: nat.split)

lemma handle_step_balanced:
  assumes "handle_step c st = Some st'" "balanced st p0" "\<not> move_or_assign c"
  shows "balanced st' p0"
proof -
  obtain hs p where st: "st = (hs, p)" by fastforce
  show ?thesis
    using assms unfolding st
    by (cases c)
      (auto simp: balanced_def Object_new_def Object_copy_def Object_clear_def Object_attach_def Let_def
        JSValueProtect_def JSValueUnprotect_def handle_refs_update split: option.splits if_splits)
qed

lemma handle_run_balanced:
  "handle_run cs st = Some st' \<Longrightarrow> balanced st p0 \<Longrightarrow> \<not> list_ex move_or_assign cs \<Longrightarrow> balanced st' p0"
  by (induction cs arbitrary: st) (auto split: option.splits intro: handle_step_balanced)

end
