(* ===== verification/Tasks.thy ===== *)
theory Tasks
  imports Prelude
begin

text \<open>
  Tasks (\<open>include/task.h\<close>, \<open>src/task.cpp\<close>) and the state of the scheduler they live in
  (the fields of \<open>NX::Scheduler\<close>, \<open>include/scheduler.h\<close>).

  A task is a closure. What the closure does when it runs is its list of actions \<open>act\<close>: calls
  into the scheduler and into other tasks (the interactions the code under \<open>src/\<close> reacts to)
  and \<open>Host n\<close>, any other effect of the closure, recorded in the trace. The pointer of a task is
  its number; the heap maps the numbers of the live tasks to their objects, so a deleted task is
  outside its domain and a use of it is undefined behaviour.
\<close>

section \<open>The task objects\<close>

datatype status = INACTIVE | CREATED | ACTIVE | PENDING | FINISHED | ABORTED | UNKNOWN

text \<open>The two classes that implement \<open>NX::AbstractTask\<close>.\<close>

datatype kind = TaskK | CoroutineK

text \<open>
  The completion and cancellation handlers the code registers: \<open>await\<close> stores to a flag,
  \<open>TaskGroup::attach\<close> increments the counter of a group, the timed schedule functions cancel a
  timer; \<open>HostHandler\<close> is any other closure.
\<close>

datatype handler = SetFlag nat | IncGroup nat | CancelTimer nat | HostHandler nat

datatype act =
    Host nat
  | SpawnTask "act list"
  | SpawnCoroutine "act list"
  | AbortTask nat
  | Yield
  | Throw string
  | Pause
  | Resume
  | Await nat
  | WaitFlag nat

record task =
  myKind :: kind
  myHolds :: bool
  myHandler :: "act list"
  myCancellationHandlers :: "handler list"
  myCompletionHandlers :: "handler list"
  myCoroutine :: bool
  myStatus :: status

section \<open>The scheduler state\<close>

text \<open>
  \<open>myThreadGroup\<close> is the number of threads in the thread group, \<open>myCurrentTask\<close> the
  thread-specific pointer of each thread, \<open>myTaskQueue\<close> the lock-free queue, oldest element
  first. \<open>heap\<close> and \<open>nextTask\<close> are the allocator; \<open>flags\<close>, \<open>groups\<close> and \<open>cancelledTimers\<close> are
  the objects the handlers write; \<open>trace\<close> is what the closures did.
\<close>

record sched =
  myMaxThreads :: usize
  myThreadCount :: usize
  myServiceStopped :: bool
  myWork :: bool
  myThreadGroup :: nat
  myCurrentTask :: "nat \<Rightarrow> nat option"
  myTaskQueue :: "nat list"
  myThreadInitQueue :: "nat list"
  myTaskCount :: usize
  myActiveTaskCount :: usize
  myHoldCount :: usize
  myPauseTasks :: bool
  heap :: "nat \<Rightarrow> task option"
  nextTask :: nat
  flags :: "nat \<Rightarrow> bool"
  nextFlag :: nat
  groups :: "nat \<Rightarrow> usize"
  cancelledTimers :: "nat list"
  trace :: "nat list"

section \<open>Holding the scheduler\<close>

definition hold :: "sched \<Rightarrow> sched" where
  "hold s = s\<lparr>myHoldCount := myHoldCount s + 1\<rparr>"

definition release :: "sched \<Rightarrow> sched" where
  "release s = s\<lparr>myHoldCount := myHoldCount s - 1\<rparr>"

text \<open>
  \<open>Scheduler::Holder\<close>: the flag says whether the pointer \<open>myScheduler\<close> is set. Construction and
  copy hold, destruction and \<open>reset\<close> release and \<open>reset\<close> clears the pointer.
\<close>

definition Holder :: "bool \<Rightarrow> sched \<Rightarrow> bool \<times> sched" where
  "Holder p s = (p, if p then hold s else s)"

definition Holder_copy :: "bool \<Rightarrow> sched \<Rightarrow> bool \<times> sched" where
  "Holder_copy other s = (other, if other then hold s else s)"

definition Holder_destroy :: "bool \<Rightarrow> sched \<Rightarrow> sched" where
  "Holder_destroy p s = (if p then release s else s)"

definition Holder_reset :: "bool \<Rightarrow> sched \<Rightarrow> bool \<times> sched" where
  "Holder_reset p s = (False, if p then release s else s)"

section \<open>Allocation, deletion, the current task\<close>

text \<open>
  The constructors of \<open>NX::Task\<close> and \<open>NX::CoroutineTask\<close>: the handler is moved in, the status is
  \<open>INACTIVE\<close>, and the base class holds the scheduler when \<open>hold\<close> is set. The default of \<open>hold\<close>
  is true for a task and false for a coroutine.
\<close>

definition new_task :: "kind \<Rightarrow> bool \<Rightarrow> act list \<Rightarrow> sched \<Rightarrow> nat \<times> sched" where
  "new_task k h b s =
     (let t = nextTask s;
          o1 = \<lparr>myKind = k, myHolds = h, myHandler = b, myCancellationHandlers = [],
                myCompletionHandlers = [], myCoroutine = False, myStatus = INACTIVE\<rparr>
      in (t, snd (Holder h (s\<lparr>heap := (heap s)(t \<mapsto> o1), nextTask := Suc t\<rparr>))))"

text \<open>\<open>delete task\<close>: a second deletion of the same pointer is undefined.\<close>

definition delete_task :: "nat \<Rightarrow> sched \<Rightarrow> sched res" where
  "delete_task t s =
     (case heap s t of
        None \<Rightarrow> Inl (UB ''double delete'')
      | Some k \<Rightarrow> Inr (Holder_destroy (myHolds k) (s\<lparr>heap := (heap s)(t := None)\<rparr>)))"

text \<open>
  \<open>myCurrentTask\<close> is a \<open>boost::thread_specific_ptr\<close> that the scheduler constructs with a null cleanup
  function: \<open>reset\<close>, \<open>release\<close> and the end of a thread delete nothing.
\<close>

definition makeCurrent :: "nat \<Rightarrow> nat \<Rightarrow> sched \<Rightarrow> sched" where
  "makeCurrent th t s = s\<lparr>myCurrentTask := (myCurrentTask s)(th := Some t)\<rparr>"

definition release_current :: "nat \<Rightarrow> sched \<Rightarrow> sched" where
  "release_current th s = s\<lparr>myCurrentTask := (myCurrentTask s)(th := None)\<rparr>"

definition with_task :: "nat \<Rightarrow> (task \<Rightarrow> sched \<Rightarrow> 'a res) \<Rightarrow> sched \<Rightarrow> 'a res" where
  "with_task t f s = (case heap s t of None \<Rightarrow> Inl (UB ''use of a deleted task'') | Some k \<Rightarrow> f k s)"

definition store :: "nat \<Rightarrow> status \<Rightarrow> sched \<Rightarrow> sched" where
  "store t st s =
     (case heap s t of None \<Rightarrow> s | Some k \<Rightarrow> s\<lparr>heap := (heap s)(t \<mapsto> k\<lparr>myStatus := st\<rparr>)\<rparr>)"

definition set_handler :: "nat \<Rightarrow> act list \<Rightarrow> sched \<Rightarrow> sched" where
  "set_handler t b s =
     (case heap s t of None \<Rightarrow> s | Some k \<Rightarrow> s\<lparr>heap := (heap s)(t \<mapsto> k\<lparr>myHandler := b\<rparr>)\<rparr>)"

section \<open>Handlers, abort and exit\<close>

fun run_handler :: "handler \<Rightarrow> sched \<Rightarrow> sched" where
  "run_handler (SetFlag f) s = s\<lparr>flags := (flags s)(f := True)\<rparr>"
| "run_handler (IncGroup g) s = s\<lparr>groups := (groups s)(g := groups s g + 1)\<rparr>"
| "run_handler (CancelTimer n) s = s\<lparr>cancelledTimers := cancelledTimers s @ [n]\<rparr>"
| "run_handler (HostHandler n) s = s\<lparr>trace := trace s @ [n]\<rparr>"

definition run_handlers :: "handler list \<Rightarrow> sched \<Rightarrow> sched" where
  "run_handlers hs s = fold run_handler hs s"

definition task_abort :: "nat \<Rightarrow> sched \<Rightarrow> sched res" where
  "task_abort t = with_task t (\<lambda>k s. Inr (run_handlers (myCancellationHandlers k) (store t ABORTED s)))"

definition task_exit :: "nat \<Rightarrow> sched \<Rightarrow> sched res" where
  "task_exit t = with_task t (\<lambda>k s. Inr (run_handlers (myCompletionHandlers k) s))"

definition addCancellationHandler :: "nat \<Rightarrow> handler \<Rightarrow> sched \<Rightarrow> sched res" where
  "addCancellationHandler t h = with_task t (\<lambda>k s.
     Inr (s\<lparr>heap := (heap s)(t \<mapsto> k\<lparr>myCancellationHandlers := myCancellationHandlers k @ [h]\<rparr>)\<rparr>))"

definition addCompletionHandler :: "nat \<Rightarrow> handler \<Rightarrow> sched \<Rightarrow> sched res" where
  "addCompletionHandler t h = with_task t (\<lambda>k s.
     Inr (s\<lparr>heap := (heap s)(t \<mapsto> k\<lparr>myCompletionHandlers := myCompletionHandlers k @ [h]\<rparr>)\<rparr>))"

end
