(* ===== verification/Scheduler.thy ===== *)
theory Scheduler
  imports Tasks
begin

text \<open>
  The scheduler (\<open>src/scheduler.cpp\<close>) and the parts of \<open>src/task.cpp\<close> that call back into it:
  scheduling, balancing, entering and yielding tasks, the draining loop, the dispatcher of a
  worker thread and the loop of the main thread. \<open>th\<close> is the number of the thread that runs
  the operation.
\<close>

section \<open>Construction, start, stop, pause\<close>

definition new_scheduler :: "usize \<Rightarrow> sched" where
  "new_scheduler maxThreads =
     \<lparr>myMaxThreads = maxThreads, myThreadCount = 0, myServiceStopped = True, myWork = False,
      myThreadGroup = 0, myCurrentTask = (\<lambda>_. None), myTaskQueue = [], myThreadInitQueue = [],
      myTaskCount = 0, myActiveTaskCount = 0, myHoldCount = 0, myPauseTasks = False,
      heap = (\<lambda>_. None), nextTask = 0, flags = (\<lambda>_. False), nextFlag = 0, groups = (\<lambda>_. 0),
      cancelledTimers = [], trace = []\<rparr>"

definition pause :: "sched \<Rightarrow> sched" where
  "pause s = s\<lparr>myPauseTasks := True\<rparr>"

definition resume :: "sched \<Rightarrow> sched" where
  "resume s = s\<lparr>myPauseTasks := False\<rparr>"

definition queued :: "sched \<Rightarrow> usize" where
  "queued s = myTaskCount s"

definition active :: "sched \<Rightarrow> usize" where
  "active s = myActiveTaskCount s"

definition remaining :: "sched \<Rightarrow> usize" where
  "remaining s = myTaskCount s + myActiveTaskCount s"

definition concurrency :: "sched \<Rightarrow> usize" where
  "concurrency s = myThreadCount s"

definition addThread :: "sched \<Rightarrow> sched" where
  "addThread s = s\<lparr>myThreadGroup := Suc (myThreadGroup s)\<rparr>"

text \<open>No thread is ever removed from the thread group, so its size only grows.\<close>

function balanceThreads :: "sched \<Rightarrow> sched" where
  "balanceThreads s =
     (if myTaskCount s > 0 \<and> myThreadGroup s < unat (myMaxThreads s)
      then balanceThreads (addThread s) else s)"
  by pat_completeness auto
termination
  by (relation "measure (\<lambda>s. unat (myMaxThreads s) - myThreadGroup s)") (auto simp: addThread_def)

declare balanceThreads.simps [simp del]

definition start :: "sched \<Rightarrow> sched res" where
  "start s =
     (if \<not> myServiceStopped s then Inl (Assert ''call to start with a service already running'')
      else Inr (balanceThreads (s\<lparr>myServiceStopped := False, myWork := True\<rparr>)))"

definition stop :: "sched \<Rightarrow> sched" where
  "stop s = s\<lparr>myWork := False, myServiceStopped := True\<rparr>"

section \<open>Scheduling\<close>

definition scheduleAbstractTask :: "nat \<Rightarrow> sched \<Rightarrow> nat \<times> sched" where
  "scheduleAbstractTask t s =
     (let s1 = s\<lparr>myTaskCount := myTaskCount s + 1\<rparr>;
          s2 = s1\<lparr>myTaskQueue := myTaskQueue s1 @ [t]\<rparr>
      in (t, balanceThreads s2))"

text \<open>A handler is a \<open>std::function\<close>; \<open>None\<close> is the empty one.\<close>

definition scheduleTask :: "act list option \<Rightarrow> sched \<Rightarrow> (nat \<times> sched) res" where
  "scheduleTask handler s =
     (case handler of
        None \<Rightarrow> Inl (Exn ''empty handler provided'')
      | Some b \<Rightarrow> (let (t, s1) = new_task TaskK True b s in Inr (scheduleAbstractTask t s1)))"

definition scheduleCoroutine :: "act list option \<Rightarrow> sched \<Rightarrow> (nat \<times> sched) res" where
  "scheduleCoroutine handler s =
     (case handler of
        None \<Rightarrow> Inl (Exn ''empty handler provided'')
      | Some b \<Rightarrow> (let (t, s1) = new_task CoroutineK False b s in Inr (scheduleAbstractTask t s1)))"

text \<open>
  The timed variants only create the task, start the timer (named by \<open>timer\<close>) and register its
  cancellation; the returned pair (timer, task) is the waiting handler
  \<open>bind(bind(&Scheduler::scheduleAbstractTask, this, taskObject), timer)\<close>, which the I/O service
  calls whenever the timer expires or is cancelled: \<open>timer_expired\<close> ignores the error code.
\<close>

definition scheduleTimed :: "kind \<Rightarrow> bool \<Rightarrow> nat \<Rightarrow> act list option \<Rightarrow> sched \<Rightarrow> (nat \<times> sched) res" where
  "scheduleTimed k h timer handler s =
     (case handler of
        None \<Rightarrow> Inl (Exn ''empty handler provided'')
      | Some b \<Rightarrow>
          (let (t, s1) = new_task k h b s
           in rbind (addCancellationHandler t (CancelTimer timer) s1) (\<lambda>s2. Inr (t, s2))))"

definition scheduleTask_timed :: "nat \<Rightarrow> act list option \<Rightarrow> sched \<Rightarrow> (nat \<times> sched) res" where
  "scheduleTask_timed timer handler s = scheduleTimed TaskK True timer handler s"

definition scheduleCoroutine_timed :: "nat \<Rightarrow> act list option \<Rightarrow> sched \<Rightarrow> (nat \<times> sched) res" where
  "scheduleCoroutine_timed timer handler s = scheduleTimed CoroutineK False timer handler s"

definition timer_expired :: "nat \<Rightarrow> sched \<Rightarrow> sched" where
  "timer_expired t s = snd (scheduleAbstractTask t s)"

definition scheduleThreadInitTask :: "act list option \<Rightarrow> sched \<Rightarrow> (nat \<times> sched) res" where
  "scheduleThreadInitTask handler s =
     (case handler of
        None \<Rightarrow> Inl (Exn ''empty handler provided'')
      | Some b \<Rightarrow>
          (let (t, s1) = new_task TaskK False b s
           in Inr (t, s1\<lparr>myThreadInitQueue := myThreadInitQueue s1 @ [t]\<rparr>)))"

section \<open>Creating, yielding, entering\<close>

text \<open>
  \<open>Task::create\<close> stores \<open>CREATED\<close>; \<open>CoroutineTask::create\<close> does nothing on an aborted task and
  otherwise also makes the task current and builds the coroutine, which does not run it.
\<close>

definition task_create :: "nat \<Rightarrow> nat \<Rightarrow> sched \<Rightarrow> sched res" where
  "task_create th t = with_task t (\<lambda>k s.
     case myKind k of
       TaskK \<Rightarrow> Inr (store t CREATED s)
     | CoroutineK \<Rightarrow>
         if myStatus k = ABORTED then Inr s
         else with_task t (\<lambda>k1 s1. Inr (s1\<lparr>heap := (heap s1)(t \<mapsto> k1\<lparr>myCoroutine := True\<rparr>)\<rparr>))
                (makeCurrent th t (store t CREATED s)))"

text \<open>
  \<open>Scheduler::yield\<close> and, through the current task, \<open>Task::yield\<close> and \<open>CoroutineTask::yield\<close>. The
  part of \<open>CoroutineTask::yield\<close> after the coroutine is resumed (\<open>makeCurrent\<close>, \<open>ACTIVE\<close>) repeats
  what \<open>CoroutineTask::enter\<close> has just done before resuming it.
\<close>

definition canYield :: "nat \<Rightarrow> sched \<Rightarrow> bool" where
  "canYield th s =
     (case myCurrentTask s th of
        None \<Rightarrow> False
      | Some t \<Rightarrow> (case heap s t of None \<Rightarrow> False | Some k \<Rightarrow> myKind k = CoroutineK))"

definition task_yield :: "nat \<Rightarrow> sched \<Rightarrow> sched res" where
  "task_yield t = with_task t (\<lambda>k s.
     case myKind k of
       TaskK \<Rightarrow> Inl (Exn ''can't yield on a regular task'')
     | CoroutineK \<Rightarrow>
         if myStatus k = ABORTED then Inl (Exn ''task aborted, could not yield'')
         else Inr (store t PENDING s))"

definition yield :: "nat \<Rightarrow> sched \<Rightarrow> sched res" where
  "yield th s =
     (case myCurrentTask s th of
        None \<Rightarrow> Inl (Exn ''call to yield outside of a scheduler task'')
      | Some t \<Rightarrow>
          if \<not> canYield th s then Inl (Exn ''call to yield outside of a coroutine'')
          else task_yield t s)"

text \<open>
  \<open>AbstractTask::await\<close> up to its loop: the flag it returns is what the loop
  \<open>while (!finished) myScheduler->yield()\<close> waits for; \<open>None\<close> when the task is already done.
\<close>

definition task_await :: "nat \<Rightarrow> sched \<Rightarrow> (nat option \<times> sched) res" where
  "task_await t = with_task t (\<lambda>k s.
     if myStatus k = FINISHED \<or> myStatus k = ABORTED then Inr (None, s)
     else let f = nextFlag s; s1 = s\<lparr>nextFlag := Suc f, flags := (flags s)(f := False)\<rparr> in
       rbind (addCancellationHandler t (SetFlag f) s1) (\<lambda>s2.
       rbind (addCompletionHandler t (SetFlag f) s2) (\<lambda>s3. Inr (Some f, s3))))"

text \<open>
  Running a closure: its actions in order. \<open>Inr (s, None)\<close> when the closure returned,
  \<open>Inr (s, Some as)\<close> when the coroutine yielded with the actions \<open>as\<close> left, \<open>Inl e\<close> when the
  exception \<open>e\<close> left the closure.
\<close>

fun run_acts :: "nat \<Rightarrow> act list \<Rightarrow> sched \<Rightarrow> (sched \<times> act list option) res" where
  "run_acts th [] s = Inr (s, None)"
| "run_acts th (Host n # as) s = run_acts th as (s\<lparr>trace := trace s @ [n]\<rparr>)"
| "run_acts th (SpawnTask b # as) s =
     (case scheduleTask (Some b) s of Inl e \<Rightarrow> Inl e | Inr (_, s1) \<Rightarrow> run_acts th as s1)"
| "run_acts th (SpawnCoroutine b # as) s =
     (case scheduleCoroutine (Some b) s of Inl e \<Rightarrow> Inl e | Inr (_, s1) \<Rightarrow> run_acts th as s1)"
| "run_acts th (AbortTask t # as) s =
     (case task_abort t s of Inl e \<Rightarrow> Inl e | Inr s1 \<Rightarrow> run_acts th as s1)"
| "run_acts th (Yield # as) s =
     (case yield th s of Inl e \<Rightarrow> Inl e | Inr s1 \<Rightarrow> Inr (s1, Some as))"
| "run_acts th (Throw m # as) s = Inl (Exn m)"
| "run_acts th (Pause # as) s = run_acts th as (pause s)"
| "run_acts th (Resume # as) s = run_acts th as (resume s)"
| "run_acts th (Await t # as) s =
     (case task_await t s of
        Inl e \<Rightarrow> Inl e
      | Inr (None, s1) \<Rightarrow> run_acts th as s1
      | Inr (Some f, s1) \<Rightarrow>
          (case yield th s1 of Inl e \<Rightarrow> Inl e | Inr s2 \<Rightarrow> Inr (s2, Some (WaitFlag f # as))))"
| "run_acts th (WaitFlag f # as) s =
     (if flags s f then run_acts th as s
      else (case yield th s of Inl e \<Rightarrow> Inl e | Inr s1 \<Rightarrow> Inr (s1, Some (WaitFlag f # as))))"

text \<open>
  \<open>Task::enter\<close> and \<open>CoroutineTask::enter\<close> with \<open>CoroutineTask::coroutine\<close>: \<open>ACTIVE\<close>, current,
  the closure, and \<open>FINISHED\<close> when it returned. A coroutine that yielded keeps its remaining actions.
\<close>

definition task_enter :: "nat \<Rightarrow> nat \<Rightarrow> sched \<Rightarrow> sched res" where
  "task_enter th t = with_task t (\<lambda>k s.
     if myStatus k = ABORTED then Inr s
     else rbind (run_acts th (myHandler k) (makeCurrent th t (store t ACTIVE s))) (\<lambda>(s1, r).
            case r of
              None \<Rightarrow> Inr (store t FINISHED s1)
            | Some as \<Rightarrow> Inr (set_handler t as s1)))"

section \<open>The draining loop\<close>

text \<open>
  One turn of \<open>drainTasks\<close> after the pop: the counters, the task made current, created when it is
  inactive, entered when it is created or pending, then pushed back when it yielded and otherwise
  exited and deleted. The thread-specific pointer is \<open>release\<close>d in both cases; an aborted task
  stays in it. \<open>current_status\<close> is \<open>myCurrentTask->status()\<close>.
\<close>

definition current_status :: "nat \<Rightarrow> sched \<Rightarrow> status res" where
  "current_status th s =
     (case myCurrentTask s th of
        None \<Rightarrow> Inl (UB ''null current task'')
      | Some t \<Rightarrow> with_task t (\<lambda>k _. Inr (myStatus k)) s)"

definition process_task :: "nat \<Rightarrow> nat \<Rightarrow> sched \<Rightarrow> sched res" where
  "process_task th t s =
     rbind (current_status th s) (\<lambda>st.
     if st = ABORTED then Inr s
     else
       rbind (if st = INACTIVE then task_create th t s else Inr s) (\<lambda>s1.
       rbind (current_status th s1) (\<lambda>st1.
       rbind (if st1 = CREATED \<or> st1 = PENDING then task_enter th t s1 else Inr s1) (\<lambda>s2.
       rbind (current_status th s2) (\<lambda>st2.
       if st2 = PENDING then
         let s3 = release_current th (s2\<lparr>myTaskQueue := myTaskQueue s2 @ [t]\<rparr>)
         in Inr (s3\<lparr>myTaskCount := myTaskCount s3 + 1\<rparr>)
       else rbind (task_exit t (release_current th s2)) (delete_task t))))))"

definition drain_step :: "nat \<Rightarrow> nat \<Rightarrow> nat list \<Rightarrow> sched \<Rightarrow> sched res" where
  "drain_step th t q s =
     (let s1 = s\<lparr>myTaskQueue := q\<rparr>;
          s2 = s1\<lparr>myActiveTaskCount := myActiveTaskCount s1 + 1\<rparr>;
          s3 = s2\<lparr>myTaskCount := myTaskCount s2 - 1\<rparr>
      in rbind (process_task th t (makeCurrent th t s3)) (\<lambda>s4.
         Inr (s4\<lparr>myActiveTaskCount := myActiveTaskCount s4 - 1\<rparr>)))"

text \<open>
  The loop \<open>while (myTaskQueue.pop(task))\<close>; a task may schedule further tasks for ever, so a loop
  that does not return is \<open>None\<close>. The result is the number of tasks processed.
\<close>

partial_function (option) drain_loop ::
  "nat \<Rightarrow> nat \<Rightarrow> sched \<Rightarrow> (exn + nat \<times> sched) option" where
  "drain_loop th processed s =
     (case myTaskQueue s of
        [] \<Rightarrow> Some (Inr (processed, s))
      | t # q \<Rightarrow>
          (case drain_step th t q s of
             Inl e \<Rightarrow> Some (Inl e)
           | Inr s1 \<Rightarrow>
               if myPauseTasks s1 then Some (Inr (Suc processed, s1))
               else drain_loop th (Suc processed) s1))"

definition drainTasks :: "nat \<Rightarrow> sched \<Rightarrow> (exn + nat \<times> sched) option" where
  "drainTasks th s = (if myPauseTasks s then Some (Inr (0, s)) else drain_loop th 0 s)"

section \<open>The dispatcher and the main loop\<close>

text \<open>
  A worker first runs the thread-initialisation tasks (\<open>create\<close>, \<open>enter\<close>, \<open>exit\<close>), then polls the
  I/O service and drains the queue until there is neither work to poll nor a queued task, or the
  service is stopped. \<open>poll_one\<close> is \<open>boost::asio::io_service::poll_one\<close>, which runs at most one
  ready handler and says whether it did.
\<close>

fun run_init_tasks :: "nat \<Rightarrow> nat list \<Rightarrow> sched \<Rightarrow> sched res" where
  "run_init_tasks th [] s = Inr s"
| "run_init_tasks th (t # ts) s =
     rbind (with_task t (\<lambda>k s1.
              if myStatus k \<noteq> ABORTED then
                rbind (task_create th t s1) (\<lambda>s2.
                rbind (task_enter th t s2) (task_exit t))
              else Inr s1) s)
       (run_init_tasks th ts)"

partial_function (option) dispatch_loop ::
  "(sched \<Rightarrow> bool \<times> sched) \<Rightarrow> nat \<Rightarrow> sched \<Rightarrow> (exn + sched) option" where
  "dispatch_loop poll_one th s =
     (let (ran, s1) = poll_one s in
      if ran \<or> queued s1 \<noteq> 0 then
        (case drainTasks th s1 of
           None \<Rightarrow> None
         | Some (Inl e) \<Rightarrow> Some (Inl e)
         | Some (Inr (processed, s2)) \<Rightarrow>
             if myServiceStopped s2 then Some (Inr s2) else dispatch_loop poll_one th s2)
      else Some (Inr s1))"

definition dispatcher ::
  "(sched \<Rightarrow> bool \<times> sched) \<Rightarrow> nat \<Rightarrow> sched \<Rightarrow> (exn + sched) option" where
  "dispatcher poll_one th s =
     (case run_init_tasks th (myThreadInitQueue s) s of
        Inl e \<Rightarrow> Some (Inl e)
      | Inr s1 \<Rightarrow>
          (case dispatch_loop poll_one th (s1\<lparr>myThreadCount := myThreadCount s1 + 1\<rparr>) of
             None \<Rightarrow> None
           | Some (Inl e) \<Rightarrow> Some (Inl e)
           | Some (Inr s2) \<Rightarrow> Some (Inr (s2\<lparr>myThreadCount := myThreadCount s2 - 1\<rparr>))))"

text \<open>
  The destructor: \<open>stop\<close>, then the workers are joined and the initialisation tasks deleted. Tasks
  still in the queue are not.
\<close>

fun delete_tasks :: "nat list \<Rightarrow> sched \<Rightarrow> sched res" where
  "delete_tasks [] s = Inr s"
| "delete_tasks (t # ts) s = rbind (delete_task t s) (delete_tasks ts)"

definition Scheduler_destroy :: "sched \<Rightarrow> sched res" where
  "Scheduler_destroy s =
     rbind (delete_tasks (myThreadInitQueue s) (stop s)) (\<lambda>s1. Inr (s1\<lparr>myThreadInitQueue := []\<rparr>))"

text \<open>\<open>joinPool\<close>: \<open>drainCb\<close> is the callback passed by \<open>Nexus::run\<close>, which drains the engine's microtasks.\<close>

partial_function (option) joinPool ::
  "(sched \<Rightarrow> bool \<times> sched) \<Rightarrow> (sched \<Rightarrow> sched) \<Rightarrow> nat \<Rightarrow> sched \<Rightarrow> (exn + sched) option" where
  "joinPool poll_one drainCb th s =
     (case dispatcher poll_one th s of
        None \<Rightarrow> None
      | Some (Inl e) \<Rightarrow> Some (Inl e)
      | Some (Inr s1) \<Rightarrow>
          (let s2 = drainCb s1 in
           if myHoldCount s2 \<noteq> 0 then joinPool poll_one drainCb th s2 else Some (Inr s2)))"

end
