(* ===== verification/SchedulerInv.thy ===== *)
theory SchedulerInv
  imports Scheduler
begin

text \<open>
  Invariants of the scheduler that hold for every closure: the hold count is the number of live
  tasks that hold the scheduler plus the holders outside (\<open>hold_inv\<close>), and the thread group is
  filled up to its maximum whenever a task is queued.
\<close>

section \<open>Balancing\<close>

lemma balanceThreads_eq:
  "balanceThreads s =
     s\<lparr>myThreadGroup := (if myTaskCount s > 0 then max (myThreadGroup s) (unat (myMaxThreads s))
                         else myThreadGroup s)\<rparr>"
proof (induction s rule: balanceThreads.induct)
  case (1 s)
  show ?case
  proof (cases "myTaskCount s > 0 \<and> myThreadGroup s < unat (myMaxThreads s)")
    case True
    with "1.IH" show ?thesis
      by (simp add: balanceThreads.simps [of s] addThread_def max_def)
  next
    case False
    then show ?thesis by (auto simp: balanceThreads.simps [of s] max_def)
  qed
qed

lemma balanceThreads_frame [simp]:
  "heap (balanceThreads s) = heap s"
  "myTaskQueue (balanceThreads s) = myTaskQueue s"
  "myTaskCount (balanceThreads s) = myTaskCount s"
  "myActiveTaskCount (balanceThreads s) = myActiveTaskCount s"
  "myHoldCount (balanceThreads s) = myHoldCount s"
  "nextTask (balanceThreads s) = nextTask s"
  "myCurrentTask (balanceThreads s) = myCurrentTask s"
  "myPauseTasks (balanceThreads s) = myPauseTasks s"
  "myThreadInitQueue (balanceThreads s) = myThreadInitQueue s"
  "trace (balanceThreads s) = trace s"
  "myServiceStopped (balanceThreads s) = myServiceStopped s"
  "flags (balanceThreads s) = flags s"
  "groups (balanceThreads s) = groups s"
  "myMaxThreads (balanceThreads s) = myMaxThreads s"
  by (simp_all add: balanceThreads_eq)

lemma with_task_Inr: "with_task t f s = Inr x \<longleftrightarrow> (\<exists>k. heap s t = Some k \<and> f k s = Inr x)"
  by (simp add: with_task_def split: option.splits)

section \<open>Invariants of the loops\<close>

text \<open>
  What an invariant of the scheduler has to satisfy: it depends on the tasks, the two queues, the
  hold count and whether the service is stopped only, and the primitive steps keep it: a store to a task that does not change whether
  it holds the scheduler, a new task that is scheduled, a pop, and what becomes of the popped task
  (\<open>Some t\<close> while it is in hand): pushed back, deleted, or dropped when it is aborted. The loops
  then keep it for every closure.
\<close>

locale sched_inv =
  fixes I :: "nat option \<Rightarrow> sched \<Rightarrow> bool"
  assumes I_frame: "I h s \<Longrightarrow> heap s' = heap s \<Longrightarrow> nextTask s' = nextTask s \<Longrightarrow> myHoldCount s' = myHoldCount s \<Longrightarrow>
      myTaskQueue s' = myTaskQueue s \<Longrightarrow> myThreadInitQueue s' = myThreadInitQueue s \<Longrightarrow>
      myServiceStopped s' = myServiceStopped s \<Longrightarrow> I h s'"
    and I_upd: "I h s \<Longrightarrow> heap s t = Some k \<Longrightarrow> myHolds k' = myHolds k \<Longrightarrow> I h (s\<lparr>heap := (heap s)(t \<mapsto> k')\<rparr>)"
    and I_spawn: "I h s \<Longrightarrow> new_task kd hh b s = (t, s1) \<Longrightarrow> I h (snd (scheduleAbstractTask t s1))"
    and I_pop: "I None s \<Longrightarrow> myTaskQueue s = t # q \<Longrightarrow> I (Some t) (s\<lparr>myTaskQueue := q\<rparr>)"
    and I_push: "I (Some t) s \<Longrightarrow> I None (s\<lparr>myTaskQueue := myTaskQueue s @ [t]\<rparr>)"
    and I_delete: "I (Some t) s \<Longrightarrow> delete_task t s = Inr s' \<Longrightarrow> I None s'"
    and I_drop: "I (Some t) s \<Longrightarrow> I None s"
begin

lemma I_store: "I h s \<Longrightarrow> I h (store t st s)"
  by (cases "heap s t") (auto simp: store_def intro: I_upd)

lemma I_set_handler: "I h s \<Longrightarrow> I h (set_handler t b s)"
  by (cases "heap s t") (auto simp: set_handler_def intro: I_upd)

lemma I_makeCurrent: "I h s \<Longrightarrow> I h (makeCurrent th t s)"
  by (erule I_frame) (simp_all add: makeCurrent_def)

lemma I_run_handler: "I h s \<Longrightarrow> I h (run_handler hh s)"
  by (cases hh) (auto intro: I_frame)

lemma I_run_handlers: "I h s \<Longrightarrow> I h (run_handlers hs s)"
  unfolding run_handlers_def by (induction hs arbitrary: s) (simp_all add: I_run_handler)

lemma I_task_abort: "I h s \<Longrightarrow> task_abort t s = Inr s' \<Longrightarrow> I h s'"
  by (auto simp: task_abort_def with_task_Inr intro: I_run_handlers I_store)

lemma I_task_exit: "I h s \<Longrightarrow> task_exit t s = Inr s' \<Longrightarrow> I h s'"
  by (auto simp: task_exit_def with_task_Inr intro: I_run_handlers)

lemma I_addCancellationHandler: "I h s \<Longrightarrow> addCancellationHandler t hh s = Inr s' \<Longrightarrow> I h s'"
  by (auto simp: addCancellationHandler_def with_task_Inr intro: I_upd)

lemma I_addCompletionHandler: "I h s \<Longrightarrow> addCompletionHandler t hh s = Inr s' \<Longrightarrow> I h s'"
  by (auto simp: addCompletionHandler_def with_task_Inr intro: I_upd)

lemma I_yield: "I h s \<Longrightarrow> yield th s = Inr s' \<Longrightarrow> I h s'"
  by (auto simp: yield_def task_yield_def with_task_Inr intro: I_store
      split: option.splits if_splits kind.splits)

lemma I_task_await:
  assumes "I h s" "task_await t s = Inr (f, s')"
  shows "I h s'"
proof (cases f)
  case None
  with assms show ?thesis
    by (auto simp: task_await_def with_task_Inr rbind_eq_Inr Let_def split: if_splits)
next
  case (Some n)
  define s1 where "s1 = s\<lparr>nextFlag := Suc (nextFlag s), flags := (flags s)(nextFlag s := False)\<rparr>"
  obtain s2 where "addCancellationHandler t (SetFlag n) s1 = Inr s2"
    and "addCompletionHandler t (SetFlag n) s2 = Inr s'"
    using assms Some
    by (auto simp: task_await_def with_task_Inr rbind_eq_Inr Let_def s1_def split: if_splits)
  moreover have "I h s1" by (rule I_frame [OF assms(1)]) (simp_all add: s1_def)
  ultimately show ?thesis by (blast intro: I_addCancellationHandler I_addCompletionHandler)
qed

lemma I_scheduleTask:
  assumes "I h s" "scheduleTask (Some b) s = Inr (t, s')"
  shows "I h s'"
proof -
  obtain u s1 where n: "new_task TaskK True b s = (u, s1)" by fastforce
  with assms(2) have "s' = snd (scheduleAbstractTask u s1)" by (auto simp: scheduleTask_def)
  with I_spawn [OF assms(1) n] show ?thesis by simp
qed

lemma I_scheduleCoroutine:
  assumes "I h s" "scheduleCoroutine (Some b) s = Inr (t, s')"
  shows "I h s'"
proof -
  obtain u s1 where n: "new_task CoroutineK False b s = (u, s1)" by fastforce
  with assms(2) have "s' = snd (scheduleAbstractTask u s1)" by (auto simp: scheduleCoroutine_def)
  with I_spawn [OF assms(1) n] show ?thesis by simp
qed

lemma I_run_acts: "I h s \<Longrightarrow> run_acts th as s = Inr (s', r) \<Longrightarrow> I h s'"
proof (induction th as s arbitrary: s' r rule: run_acts.induct)
  case (2 th n as s)
  have "I h (s\<lparr>trace := trace s @ [n]\<rparr>)" by (rule I_frame [OF 2(2)]) simp_all
  with 2 show ?case by simp
next
  case (3 th b as s)
  then obtain t s1 where "scheduleTask (Some b) s = Inr (t, s1)" "run_acts th as s1 = Inr (s', r)"
    by (auto split: sum.splits)
  with 3 show ?case by (metis I_scheduleTask)
next
  case (4 th b as s)
  then obtain t s1 where "scheduleCoroutine (Some b) s = Inr (t, s1)" "run_acts th as s1 = Inr (s', r)"
    by (auto split: sum.splits)
  with 4 show ?case by (metis I_scheduleCoroutine)
next
  case (5 th t as s)
  then obtain s1 where "task_abort t s = Inr s1" "run_acts th as s1 = Inr (s', r)"
    by (auto split: sum.splits)
  with 5 show ?case by (metis I_task_abort)
next
  case (6 th as s)
  then show ?case by (auto split: sum.splits intro: I_yield)
next
  case (8 th as s)
  have "I h (pause s)" by (rule I_frame [OF 8(2)]) (simp_all add: pause_def)
  with 8 show ?case by simp
next
  case (9 th as s)
  have "I h (resume s)" by (rule I_frame [OF 9(2)]) (simp_all add: resume_def)
  with 9 show ?case by simp
next
  case (10 th t as s)
  then obtain f s1 where f: "task_await t s = Inr (f, s1)"
    by (auto split: sum.splits)
  with 10(2) have s1: "I h s1" by (rule I_task_await)
  show ?case
  proof (cases f)
    case None
    with 10(3) f have "run_acts th as s1 = Inr (s', r)" by simp
    with 10(1) f s1 None show ?thesis by blast
  next
    case (Some n)
    with 10(3) f have "\<exists>s2. yield th s1 = Inr s2 \<and> s' = s2" by (auto split: sum.splits)
    with s1 show ?thesis by (auto intro: I_yield)
  qed
next
  case (11 th f as s)
  show ?case
  proof (cases "flags s f")
    case True
    with 11 show ?thesis by simp
  next
    case False
    with 11(3) have "\<exists>s1. yield th s = Inr s1 \<and> s' = s1" by (auto split: sum.splits)
    with 11(2) show ?thesis by (auto intro: I_yield)
  qed
qed simp_all

lemma I_task_create:
  assumes "I h s" "task_create th t s = Inr s'"
  shows "I h s'"
proof -
  have "I h (makeCurrent th t (store t CREATED s))" by (intro I_makeCurrent I_store assms(1))
  moreover obtain k where "heap s t = Some k" using assms(2) by (auto simp: task_create_def with_task_Inr)
  ultimately show ?thesis using assms
    by (cases "myKind k"; cases "myStatus k = ABORTED")
      (auto simp: task_create_def with_task_Inr intro: I_store I_upd)
qed

lemma I_task_enter:
  assumes "I h s" "task_enter th t s = Inr s'"
  shows "I h s'"
proof -
  obtain k where k: "heap s t = Some k" using assms(2) by (auto simp: task_enter_def with_task_Inr)
  show ?thesis
  proof (cases "myStatus k = ABORTED")
    case True
    with assms k show ?thesis by (simp add: task_enter_def with_task_Inr)
  next
    case False
    with assms(2) k obtain s1 s2 r where
      "makeCurrent th t (store t ACTIVE s) = s1" "run_acts th (myHandler k) s1 = Inr (s2, r)"
      and s': "s' = (case r of None \<Rightarrow> store t FINISHED s2 | Some as \<Rightarrow> set_handler t as s2)"
      by (auto simp: task_enter_def with_task_Inr rbind_eq_Inr split: option.splits)
    then have "I h s2" using assms(1) by (blast intro: I_makeCurrent I_store I_run_acts)
    then show ?thesis by (auto simp: s' intro: I_store I_set_handler split: option.splits)
  qed
qed

lemma I_process_task:
  assumes "I (Some t) s" "process_task th t s = Inr s'"
  shows "I None s'"
proof -
  obtain st where st: "current_status th s = Inr st"
    using assms(2) by (auto simp: process_task_def rbind_eq_Inr)
  show ?thesis
  proof (cases "st = ABORTED")
    case True
    with assms st show ?thesis by (auto simp: process_task_def intro: I_drop)
  next
    case False
    then obtain s1 st1 s2 st2 where
      1: "(if st = INACTIVE then task_create th t s else Inr s) = Inr s1" and
      2: "(if st1 = CREATED \<or> st1 = PENDING then task_enter th t s1 else Inr s1) = Inr s2" and
      3: "(if st2 = PENDING then
         let s3 = release_current th (s2\<lparr>myTaskQueue := myTaskQueue s2 @ [t]\<rparr>)
         in Inr (s3\<lparr>myTaskCount := myTaskCount s3 + 1\<rparr>)
       else rbind (task_exit t (release_current th s2)) (delete_task t)) = Inr s'"
      using assms(2) st by (auto simp: process_task_def rbind_eq_Inr simp del: split_paired_Ex)
    have s1: "I (Some t) s1" using assms(1) 1 by (auto split: if_splits intro: I_task_create)
    have s2: "I (Some t) s2" using s1 2 by (auto split: if_splits intro: I_task_enter)
    show ?thesis
    proof (cases "st2 = PENDING")
      case True
      with 3 show ?thesis by (auto simp: release_current_def Let_def intro: I_frame [OF I_push [OF s2]])
    next
      case False
      then obtain s3 where "task_exit t (release_current th s2) = Inr s3" "delete_task t s3 = Inr s'"
        using 3 by (auto simp: rbind_eq_Inr)
      moreover have "I (Some t) (release_current th s2)"
        by (rule I_frame [OF s2]) (simp_all add: release_current_def)
      ultimately show ?thesis by (blast intro: I_task_exit I_delete)
    qed
  qed
qed

lemma I_drain_step:
  assumes "I None s" "myTaskQueue s = t # q" "drain_step th t q s = Inr s'"
  shows "I None s'"
proof -
  let ?s3 = "s\<lparr>myTaskQueue := q, myActiveTaskCount := myActiveTaskCount s + 1,
    myTaskCount := myTaskCount s - 1\<rparr>"
  obtain s4 s5 where "makeCurrent th t ?s3 = s4" "process_task th t s4 = Inr s5"
    and s': "s' = s5\<lparr>myActiveTaskCount := myActiveTaskCount s5 - 1\<rparr>"
    using assms(3) by (auto simp: drain_step_def Let_def rbind_eq_Inr)
  moreover have "I (Some t) ?s3" by (rule I_frame [OF I_pop [OF assms(1,2)]]) simp_all
  ultimately have "I None s5" by (blast intro: I_makeCurrent I_process_task)
  then show ?thesis by (rule I_frame) (simp_all add: s')
qed

lemma I_drain_loop:
  assumes "drain_loop th n s = Some r" "I None s" "r = Inr (m, s')"
  shows "I None s'"
proof -
  have "I None s \<longrightarrow> (\<forall>m s'. r = Inr (m, s') \<longrightarrow> I None s')"
  proof (rule drain_loop.raw_induct
      [where P = "\<lambda>th n s r. I None s \<longrightarrow> (\<forall>m s'. r = Inr (m, s') \<longrightarrow> I None s')", OF _ assms(1)])
    fix f th n s r
    assume IH: "\<And>th n s r. f th n s = Some r \<Longrightarrow>
        I None s \<longrightarrow> (\<forall>m s'. r = Inr (m, s') \<longrightarrow> I None s')"
      and eq: "(case myTaskQueue s of [] \<Rightarrow> Some (Inr (n, s)) | t # q \<Rightarrow>
          (case drain_step th t q s of Inl e \<Rightarrow> Some (Inl e)
           | Inr s1 \<Rightarrow> if myPauseTasks s1 then Some (Inr (Suc n, s1)) else f th (Suc n) s1)) = Some r"
    show "I None s \<longrightarrow> (\<forall>m s'. r = Inr (m, s') \<longrightarrow> I None s')"
    proof (intro impI allI)
      fix m s'
      assume s: "I None s" and r: "r = Inr (m, s')"
      show "I None s'"
      proof (cases "myTaskQueue s")
        case Nil
        with eq r s show ?thesis by simp
      next
        case (Cons t q)
        with eq r obtain s1 where s1: "drain_step th t q s = Inr s1"
          and k: "(if myPauseTasks s1 then Some (Inr (Suc n, s1)) else f th (Suc n) s1) = Some r"
          by (auto split: sum.splits)
        have "I None s1" by (rule I_drain_step [OF s Cons s1])
        with k IH [of th "Suc n" s1 r] r show ?thesis by (auto split: if_splits)
      qed
    qed
  qed
  with assms show ?thesis by blast
qed

lemma I_drainTasks: "I None s \<Longrightarrow> drainTasks th s = Some (Inr (n, s')) \<Longrightarrow> I None s'"
  by (auto simp: drainTasks_def split: if_splits dest: I_drain_loop)

lemma I_run_init_tasks: "I None s \<Longrightarrow> run_init_tasks th ts s = Inr s' \<Longrightarrow> I None s'"
proof (induction ts arbitrary: s)
  case (Cons t ts)
  then obtain s1 where 1: "with_task t (\<lambda>k s1. if myStatus k \<noteq> ABORTED then
        rbind (task_create th t s1) (\<lambda>s2. rbind (task_enter th t s2) (task_exit t))
        else Inr s1) s = Inr s1" and 2: "run_init_tasks th ts s1 = Inr s'"
    by (auto simp: rbind_eq_Inr)
  have "I None s1"
    using 1 Cons.prems(1)
    by (auto simp: with_task_Inr rbind_eq_Inr split: if_splits)
      (blast intro: I_task_create I_task_enter I_task_exit)
  with 2 Cons.IH show ?case by blast
qed simp

text \<open>
  The I/O service and the callback of \<open>joinPool\<close> are outside the scheduler; they keep the
  invariant when they only use its operations.
\<close>

lemma I_dispatch_loop:
  assumes "dispatch_loop poll_one th s = Some r" "I None s" "r = Inr s'"
    and poll: "\<And>s. I None s \<Longrightarrow> I None (snd (poll_one s))"
  shows "I None s'"
proof -
  let ?P = "\<lambda>p th s (r :: exn + sched).
    p = poll_one \<longrightarrow> I None s \<longrightarrow> (\<forall>s'. r = Inr s' \<longrightarrow> I None s')"
  have "?P poll_one th s r"
  proof (rule dispatch_loop.raw_induct [where P = ?P, OF _ assms(1)])
    fix f p th s and r :: "exn + sched"
    assume IH: "\<And>p th s r. f p th s = Some r \<Longrightarrow> ?P p th s r"
      and eq: "(let (ran, s1) = p s in if ran \<or> queued s1 \<noteq> 0 then
        (case drainTasks th s1 of None \<Rightarrow> None | Some (Inl e) \<Rightarrow> Some (Inl e)
         | Some (Inr (processed, s2)) \<Rightarrow>
             if myServiceStopped s2 then Some (Inr s2) else f p th s2)
        else Some (Inr s1)) = Some r"
    show "?P p th s r"
    proof (intro impI allI)
      fix s'
      assume p: "p = poll_one" and s: "I None s" and r: "r = Inr s'"
      obtain ran s1 where s1: "poll_one s = (ran, s1)" by fastforce
      have inv1: "I None s1" using poll [OF s] s1 by simp
      show "I None s'"
      proof (cases "ran \<or> queued s1 \<noteq> 0")
        case False
        with eq p r s1 inv1 show ?thesis by simp
      next
        case True
        with eq p r s1 obtain n s2 where d: "drainTasks th s1 = Some (Inr (n, s2))"
          and k: "(if myServiceStopped s2 then Some (Inr s2) else f p th s2) = Some r"
          by (auto split: option.splits sum.splits)
        have "I None s2" by (rule I_drainTasks [OF inv1 d])
        with k IH [of p th s2 r] p r show ?thesis by (auto split: if_splits)
      qed
    qed
  qed
  with assms show ?thesis by blast
qed

lemma I_dispatcher:
  assumes "dispatcher poll_one th s = Some (Inr s')" "I None s"
    and poll: "\<And>s. I None s \<Longrightarrow> I None (snd (poll_one s))"
  shows "I None s'"
proof -
  obtain s1 s2 where 1: "run_init_tasks th (myThreadInitQueue s) s = Inr s1"
    and 2: "dispatch_loop poll_one th (s1\<lparr>myThreadCount := myThreadCount s1 + 1\<rparr>) = Some (Inr s2)"
    and 3: "s' = s2\<lparr>myThreadCount := myThreadCount s2 - 1\<rparr>"
    using assms(1) by (auto simp: dispatcher_def split: sum.splits option.splits)
  have "I None s1" by (rule I_run_init_tasks [OF assms(2) 1])
  then have "I None (s1\<lparr>myThreadCount := myThreadCount s1 + 1\<rparr>)"
    by (rule I_frame) simp_all
  then have "I None s2" using I_dispatch_loop [OF 2 _ refl poll] by blast
  then show ?thesis by (rule I_frame) (simp_all add: 3)
qed

lemma I_joinPool:
  assumes "joinPool poll_one cb th s = Some r" "I None s" "r = Inr s'"
    and poll: "\<And>s. I None s \<Longrightarrow> I None (snd (poll_one s))" and cb: "\<And>s. I None s \<Longrightarrow> I None (cb s)"
  shows "I None s' \<and> myHoldCount s' = 0"
proof -
  let ?P = "\<lambda>p b th s (r :: exn + sched). p = poll_one \<longrightarrow> b = cb \<longrightarrow> I None s \<longrightarrow>
    (\<forall>s'. r = Inr s' \<longrightarrow> I None s' \<and> myHoldCount s' = 0)"
  have "?P poll_one cb th s r"
  proof (rule joinPool.raw_induct [where P = ?P, OF _ assms(1)])
    fix f p b th s and r :: "exn + sched"
    assume IH: "\<And>p b th s r. f p b th s = Some r \<Longrightarrow> ?P p b th s r"
      and eq: "(case dispatcher p th s of None \<Rightarrow> None | Some (Inl e) \<Rightarrow> Some (Inl e)
       | Some (Inr s1) \<Rightarrow> (let s2 = b s1 in
           if myHoldCount s2 \<noteq> 0 then f p b th s2 else Some (Inr s2))) = Some r"
    show "?P p b th s r"
    proof (intro impI allI)
      fix s'
      assume p: "p = poll_one" and b: "b = cb" and s: "I None s" and r: "r = Inr s'"
      obtain s1 where d: "dispatcher poll_one th s = Some (Inr s1)"
        and k: "(if myHoldCount (cb s1) \<noteq> 0 then f p b th (cb s1) else Some (Inr (cb s1))) = Some r"
        using eq p b r by (auto simp: Let_def split: option.splits sum.splits)
      have "I None (cb s1)" using cb I_dispatcher [OF d s poll] by blast
      with k IH [of p b th "cb s1" r] p b r
      show "I None s' \<and> myHoldCount s' = 0" by (auto split: if_splits)
    qed
  qed
  with assms show ?thesis by blast
qed

end

section \<open>The hold count\<close>

definition held :: "sched \<Rightarrow> nat set" where
  "held s = {t. \<exists>k. heap s t = Some k \<and> myHolds k}"

definition hold_inv :: "usize \<Rightarrow> sched \<Rightarrow> bool" where
  "hold_inv c s \<longleftrightarrow> dom (heap s) \<subseteq> {..<nextTask s} \<and> myHoldCount s = c + of_nat (card (held s))"

lemma finite_held: "hold_inv c s \<Longrightarrow> finite (held s)"
  by (rule finite_subset [of _ "{..<nextTask s}"]) (auto simp: hold_inv_def held_def)

lemma hold_inv_same:
  "hold_inv c s \<Longrightarrow> dom (heap s') = dom (heap s) \<Longrightarrow> held s' = held s \<Longrightarrow> nextTask s' = nextTask s \<Longrightarrow>
    myHoldCount s' = myHoldCount s \<Longrightarrow> hold_inv c s'"
  by (simp add: hold_inv_def)

lemma hold_inv_fields:
  "hold_inv c s \<Longrightarrow> heap s' = heap s \<Longrightarrow> nextTask s' = nextTask s \<Longrightarrow> myHoldCount s' = myHoldCount s
    \<Longrightarrow> hold_inv c s'"
  by (erule hold_inv_same) (simp_all add: held_def)

lemma hold_inv_upd:
  assumes "hold_inv c s" "heap s t = Some k" "myHolds k' = myHolds k"
  shows "hold_inv c (s\<lparr>heap := (heap s)(t \<mapsto> k')\<rparr>)"
  by (rule hold_inv_same [OF assms(1)]) (use assms in \<open>auto simp: held_def\<close>)

lemma hold_inv_new_task:
  assumes "hold_inv c s"
  shows "hold_inv c (snd (new_task k h b s))"
proof -
  let ?s' = "snd (new_task k h b s)"
  have fresh: "nextTask s \<notin> held s" and dom: "dom (heap s) \<subseteq> {..<nextTask s}"
    and cnt: "myHoldCount s = c + of_nat (card (held s))"
    using assms by (auto simp: hold_inv_def held_def)
  have held': "held ?s' = (if h then insert (nextTask s) (held s) else held s)"
    using fresh by (auto simp: new_task_def Let_def Holder_def hold_def held_def)
  have "dom (heap ?s') \<subseteq> {..<nextTask ?s'}"
    using dom by (auto simp: new_task_def Let_def Holder_def hold_def)
  moreover have "myHoldCount ?s' = myHoldCount s + (if h then 1 else 0)"
    by (simp add: new_task_def Let_def Holder_def hold_def)
  ultimately show ?thesis
    using cnt fresh finite_held [OF assms] by (simp add: hold_inv_def held' add.assoc)
qed

lemma hold_inv_delete_task:
  assumes "hold_inv c s" "delete_task t s = Inr s'"
  shows "hold_inv c s'"
proof -
  obtain k where k: "heap s t = Some k"
    and s': "s' = Holder_destroy (myHolds k) (s\<lparr>heap := (heap s)(t := None)\<rparr>)"
    using assms(2) by (auto simp: delete_task_def split: option.splits)
  have h: "held s' = held s - {t}"
    by (auto simp: s' held_def Holder_destroy_def release_def)
  show ?thesis
  proof (cases "myHolds k")
    case True
    then have "t \<in> held s" using k by (simp add: held_def)
    then have "card (held s) = Suc (card (held s'))"
      using finite_held [OF assms(1)] h by (metis card_Suc_Diff1)
    then have "myHoldCount s - 1 = c + of_nat (card (held s'))"
      using assms(1) by (simp add: hold_inv_def)
    moreover have "myHoldCount s' = myHoldCount s - 1" "dom (heap s') \<subseteq> {..<nextTask s'}"
      using assms(1) True by (auto simp: s' hold_inv_def Holder_destroy_def release_def)
    ultimately show ?thesis by (simp add: hold_inv_def)
  next
    case False
    then have "t \<notin> held s" using k by (simp add: held_def)
    with h False show ?thesis
      using assms(1) by (auto simp: s' hold_inv_def Holder_destroy_def)
  qed
qed

text \<open>A holding task that is out of the queue (\<open>h\<close> is the task in hand) stays in the heap for ever.\<close>

definition stranded :: "nat \<Rightarrow> nat option \<Rightarrow> sched \<Rightarrow> bool" where
  "stranded t h s \<longleftrightarrow> h \<noteq> Some t \<and> t \<notin> set (myTaskQueue s) \<and> t < nextTask s \<and> t \<in> held s"

lemma spawn_fields:
  assumes "new_task k hh b s = (t, s1)"
  shows "t = nextTask s" "nextTask s1 = Suc (nextTask s)" "myTaskQueue s1 = myTaskQueue s"
    "u \<noteq> nextTask s \<Longrightarrow> heap s1 u = heap s u"
  using assms by (auto simp: new_task_def Let_def Holder_def hold_def)

interpretation hold: sched_inv "\<lambda>h. hold_inv c" for c
proof
  show "hold_inv c (snd (scheduleAbstractTask t s1))" if "hold_inv c s" "new_task k hh b s = (t, s1)" for s k hh b t s1
    using hold_inv_new_task [OF that(1), of k hh b] that(2)
    by (auto simp: scheduleAbstractTask_def Let_def intro: hold_inv_fields)
  show "hold_inv c s'" if "hold_inv c s" "heap s' = heap s" "nextTask s' = nextTask s"
      "myHoldCount s' = myHoldCount s" for s s'
    using that by (rule hold_inv_fields)
qed (auto intro: hold_inv_upd hold_inv_delete_task hold_inv_fields)

text \<open>No task changes the queue of initialisation tasks or stops the service.\<close>

definition config :: "sched \<Rightarrow> nat list \<times> bool" where
  "config s = (myThreadInitQueue s, myServiceStopped s)"

interpretation config: sched_inv "\<lambda>h s. config s = c" for c
proof
  show "config (snd (scheduleAbstractTask t s1)) = c" if "config s = c" "new_task k hh b s = (t, s1)" for s k hh b t s1
    using that by (cases hh) (auto simp: config_def scheduleAbstractTask_def new_task_def Let_def Holder_def hold_def)
  show "config s' = c" if "config s = c" "delete_task t s = Inr s'" for s t s'
    using that by (auto simp: config_def delete_task_def Holder_destroy_def release_def split: option.splits if_splits)
qed (simp_all add: config_def)

interpretation stranded: sched_inv "stranded t" for t
proof
  show "stranded t h (snd (scheduleAbstractTask u s1))" if "stranded t h s" "new_task k hh b s = (u, s1)" for h s k hh b u s1
    using that(1) spawn_fields [OF that(2)]
    by (auto simp: stranded_def scheduleAbstractTask_def Let_def held_def)
  show "stranded t None s'" if "stranded t (Some u) s" "delete_task u s = Inr s'" for u s s'
    using that by (auto simp: stranded_def held_def delete_task_def Holder_destroy_def release_def
        split: option.splits if_splits)
qed (auto simp: stranded_def held_def)

end
