(* ===== verification/TaskGroup.thy ===== *)
theory TaskGroup
  imports SchedulerInv
begin

text \<open>
  \<open>NX::TaskGroup\<close> (\<open>include/task.h\<close>): a vector of tasks and a shared counter of those that are
  done. The counter lives in \<open>groups\<close> of the state, because the handlers that increment it
  outlive the group; \<open>g\<close> is its address.
\<close>

record task_group =
  tg_tasks :: "nat list"
  myFinished :: nat

definition attach_task :: "nat \<Rightarrow> nat \<Rightarrow> sched \<Rightarrow> sched res" where
  "attach_task g t = with_task t (\<lambda>k s.
     if myStatus k = FINISHED \<or> myStatus k = ABORTED
     then Inr (s\<lparr>groups := (groups s)(g := groups s g + 1)\<rparr>)
     else rbind (addCompletionHandler t (IncGroup g) s) (addCancellationHandler t (IncGroup g)))"

fun attach_all :: "nat \<Rightarrow> nat list \<Rightarrow> sched \<Rightarrow> sched res" where
  "attach_all g [] s = Inr s"
| "attach_all g (t # ts) s = rbind (attach_task g t s) (attach_all g ts)"

text \<open>\<open>attach()\<close> allocates the counter at \<open>g\<close>; the constructors that take tasks call it.\<close>

definition attach :: "nat \<Rightarrow> task_group \<Rightarrow> sched \<Rightarrow> (task_group \<times> sched) res" where
  "attach g G s =
     rbind (attach_all g (tg_tasks G) (s\<lparr>groups := (groups s)(g := 0)\<rparr>))
       (\<lambda>s1. Inr (G\<lparr>myFinished := g\<rparr>, s1))"

definition new_TaskGroup :: "nat \<Rightarrow> nat list \<Rightarrow> sched \<Rightarrow> (task_group \<times> sched) res" where
  "new_TaskGroup g ts s = attach g \<lparr>tg_tasks = ts, myFinished = 0\<rparr> s"

definition group_push_back :: "nat \<Rightarrow> task_group \<Rightarrow> sched \<Rightarrow> (task_group \<times> sched) res" where
  "group_push_back t G s =
     rbind (attach_task (myFinished G) t s) (\<lambda>s1. Inr (G\<lparr>tg_tasks := tg_tasks G @ [t]\<rparr>, s1))"

text \<open>The condition of the loop of \<open>TaskGroup::await\<close>: it yields while this is true.\<close>

definition group_waiting :: "task_group \<Rightarrow> sched \<Rightarrow> bool" where
  "group_waiting G s \<longleftrightarrow> groups s (myFinished G) < of_nat (length (tg_tasks G))"

section \<open>The counter\<close>

abbreviation incs :: "nat \<Rightarrow> handler list \<Rightarrow> nat" where
  "incs g hs \<equiv> count_list hs (IncGroup g)"

lemma run_handlers_groups: "groups (run_handlers hs s) g = groups s g + of_nat (incs g hs)"
proof (induction hs arbitrary: s)
  case (Cons h hs)
  show ?case
    using Cons.IH [of "run_handler h s"] by (cases h) (auto simp: run_handlers_def)
qed (simp add: run_handlers_def)

lemma run_handlers_heap: "heap (run_handlers hs s) = heap s"
proof (induction hs arbitrary: s)
  case (Cons h hs)
  show ?case using Cons.IH [of "run_handler h s"] by (cases h) (auto simp: run_handlers_def)
qed (simp add: run_handlers_def)

text \<open>Every exit and every abort of a task adds the number of its handlers for the group.\<close>

lemma task_exit_groups:
  "task_exit t s = Inr s' \<Longrightarrow> \<exists>k. heap s t = Some k \<and> heap s' = heap s \<and>
    groups s' g = groups s g + of_nat (incs g (myCompletionHandlers k))"
  by (auto simp: task_exit_def with_task_Inr run_handlers_groups run_handlers_heap)

lemma task_abort_groups:
  "task_abort t s = Inr s' \<Longrightarrow> \<exists>k. heap s t = Some k \<and> heap s' = (heap s)(t \<mapsto> k\<lparr>myStatus := ABORTED\<rparr>) \<and>
    groups s' g = groups s g + of_nat (incs g (myCancellationHandlers k))"
  by (auto simp: task_abort_def with_task_Inr run_handlers_groups run_handlers_heap store_def)

text \<open>How often a task is counted in a group: the handlers it has for it.\<close>

definition counted_by :: "nat \<Rightarrow> sched \<Rightarrow> nat \<Rightarrow> nat \<Rightarrow> bool" where
  "counted_by g s t n \<longleftrightarrow> (\<exists>k. heap s t = Some k \<and>
     incs g (myCompletionHandlers k) = n \<and> incs g (myCancellationHandlers k) = n)"

definition task_done :: "sched \<Rightarrow> nat \<Rightarrow> bool" where
  "task_done s t \<longleftrightarrow> (\<exists>k. heap s t = Some k \<and> (myStatus k = FINISHED \<or> myStatus k = ABORTED))"

lemma attach_task_result:
  assumes "counted_by g s t 0"
  shows "\<exists>s'. attach_task g t s = Inr s' \<and>
    groups s' g = groups s g + (if task_done s t then 1 else 0) \<and>
    counted_by g s' t (if task_done s t then 0 else 1) \<and> (\<forall>u. u \<noteq> t \<longrightarrow> heap s' u = heap s u) \<and>
    (\<forall>u. task_done s' u = task_done s u)"
  using assms
  by (auto simp: attach_task_def with_task_def counted_by_def task_done_def addCompletionHandler_def
      addCancellationHandler_def)

lemma attach_all_result:
  assumes "distinct ts" "\<forall>t \<in> set ts. counted_by g s t 0"
  shows "\<exists>s'. attach_all g ts s = Inr s' \<and>
    groups s' g = groups s g + of_nat (length (filter (task_done s) ts)) \<and>
    (\<forall>t \<in> set ts. counted_by g s' t (if task_done s t then 0 else 1)) \<and>
    (\<forall>u. u \<notin> set ts \<longrightarrow> heap s' u = heap s u) \<and> (\<forall>u. task_done s' u = task_done s u)"
  using assms
proof (induction ts arbitrary: s)
  case (Cons t ts)
  then obtain s1 where s1: "attach_task g t s = Inr s1"
    "groups s1 g = groups s g + (if task_done s t then 1 else 0)"
    "counted_by g s1 t (if task_done s t then 0 else 1)" "\<forall>u. u \<noteq> t \<longrightarrow> heap s1 u = heap s u"
    "\<forall>u. task_done s1 u = task_done s u"
    using attach_task_result by (metis list.set_intros(1))
  have "\<forall>u \<in> set ts. counted_by g s1 u 0"
    using Cons.prems s1(4) by (auto simp: counted_by_def)
  with Cons.IH [of s1] Cons.prems(1) obtain s' where s': "attach_all g ts s1 = Inr s'"
    "groups s' g = groups s1 g + of_nat (length (filter (task_done s1) ts))"
    "\<forall>u \<in> set ts. counted_by g s' u (if task_done s1 u then 0 else 1)"
    "\<forall>u. u \<notin> set ts \<longrightarrow> heap s' u = heap s1 u" "\<forall>u. task_done s' u = task_done s1 u" by auto
  have "counted_by g s' t (if task_done s t then 0 else 1)"
    using s1(3) s'(4) Cons.prems(1) by (simp add: counted_by_def)
  moreover have "filter (task_done s1) ts = filter (task_done s) ts" using s1(5) by (intro filter_cong) auto
  ultimately show ?case using s1 s' by auto
qed simp

text \<open>The tasks \<open>es\<close> end one after the other, each leaving its handlers as they were.\<close>

fun exit_all :: "nat list \<Rightarrow> sched \<Rightarrow> sched res" where
  "exit_all [] s = Inr s"
| "exit_all (t # ts) s = rbind (task_exit t s) (exit_all ts)"

lemma exit_all_result:
  "\<forall>t \<in> set es. counted_by g s t 1 \<Longrightarrow>
    \<exists>s'. exit_all es s = Inr s' \<and> groups s' g = groups s g + of_nat (length es) \<and> heap s' = heap s"
proof (induction es arbitrary: s)
  case (Cons t es)
  then obtain k where k: "heap s t = Some k" "incs g (myCompletionHandlers k) = 1"
    by (auto simp: counted_by_def)
  let ?s1 = "run_handlers (myCompletionHandlers k) s"
  have "task_exit t s = Inr ?s1" using k by (simp add: task_exit_def with_task_def)
  moreover have "\<forall>u \<in> set es. counted_by g ?s1 u 1"
    using Cons.prems by (auto simp: counted_by_def run_handlers_heap)
  moreover have "groups ?s1 g = groups s g + 1" using k by (simp add: run_handlers_groups)
  moreover have "heap ?s1 = heap s" by (rule run_handlers_heap)
  ultimately show ?case using Cons.IH [of ?s1] by auto
qed simp

end
