(* ===== verification/Emitter.thy ===== *)
theory Emitter
  imports JsValues TaskGroup
begin

text \<open>
  \<open>NX::Classes::Emitter\<close> (\<open>src/classes/emitter.cpp\<close>, \<open>include/classes/emitter.h\<close>): the map from event
  names to listeners, each with the number of calls it has left (negative: any number), the three
  ways to emit, and the JavaScript methods. A call of a listener goes to the engine; here
  listeners do not change the emitter while it is emitting; \<open>EmitterReentry\<close> is about those that do.
\<close>

section \<open>Listeners\<close>

record event =
  ev_name :: string
  ev_handler :: jsval
  ev_count :: int

text \<open>\<open>myMap\<close>, a \<open>std::unordered_map\<close> from names to vectors of shared events.\<close>

type_synonym emitter = "string \<Rightarrow> event list option"

definition addManyListener :: "string \<Rightarrow> jsval \<Rightarrow> int \<Rightarrow> emitter \<Rightarrow> emitter" where
  "addManyListener e callback count m =
     m(e \<mapsto> (case m e of None \<Rightarrow> [] | Some evs \<Rightarrow> evs)
            @ [\<lparr>ev_name = e, ev_handler = callback, ev_count = count\<rparr>])"

definition addListener :: "string \<Rightarrow> jsval \<Rightarrow> emitter \<Rightarrow> emitter" where
  "addListener e callback m = addManyListener e callback (- 1) m"

definition addOnceListener :: "string \<Rightarrow> jsval \<Rightarrow> emitter \<Rightarrow> emitter" where
  "addOnceListener e callback m = addManyListener e callback 1 m"

definition removeAllListeners :: "string \<Rightarrow> emitter \<Rightarrow> emitter" where
  "removeAllListeners e m = m(e := None)"

text \<open>The comparison is \<open>===\<close>; on the functions that are registered it is equality.\<close>

definition removeListener :: "string \<Rightarrow> jsval \<Rightarrow> emitter \<Rightarrow> emitter" where
  "removeListener e callback m =
     (case m e of
        None \<Rightarrow> m
      | Some evs \<Rightarrow> m(e \<mapsto> filter (\<lambda>ev. ev_handler ev \<noteq> callback) evs))"

text \<open>
  \<open>tidy\<close> first collects the iterators of the listeners with no call left, then erases through each of
  them. \<open>std::vector::erase\<close> invalidates every iterator at or after the erased position, so the
  iterators collected after the first one are invalid: using one is undefined. \<open>erase_all\<close> keeps the
  first invalid position.
\<close>

fun erase_all :: "nat list \<Rightarrow> nat option \<Rightarrow> event list \<Rightarrow> event list res" where
  "erase_all [] bad evs = Inr evs"
| "erase_all (i # is) bad evs =
     (if i \<ge> length evs \<or> (case bad of None \<Rightarrow> False | Some j \<Rightarrow> i \<ge> j)
      then Inl (UB ''erase through an invalidated iterator'')
      else erase_all is (Some (case bad of None \<Rightarrow> i | Some j \<Rightarrow> min i j)) (take i evs @ drop (Suc i) evs))"

definition expired_positions :: "event list \<Rightarrow> nat list" where
  "expired_positions evs = filter (\<lambda>i. ev_count (evs ! i) = 0) [0..<length evs]"

definition tidy :: "string \<Rightarrow> emitter \<Rightarrow> emitter res" where
  "tidy e m =
     (case m e of
        None \<Rightarrow> Inr m
      | Some evs \<Rightarrow>
          rbind (erase_all (expired_positions evs) None evs) (\<lambda>evs'.
            Inr (if evs' = [] then m(e := None) else m(e \<mapsto> evs'))))"

section \<open>Emitting\<close>

definition count_down :: "event \<Rightarrow> event" where
  "count_down ev = (if ev_count ev > 0 then ev\<lparr>ev_count := ev_count ev - 1\<rparr> else ev)"

text \<open>
  \<open>emitFast\<close> calls the listeners one after the other; all calls share one exception slot, which the
  engine overwrites when a call throws. \<open>calls\<close> is the sequence of (function, arguments).
\<close>

definition call_all :: "engine \<Rightarrow> jsval list \<Rightarrow> event list \<Rightarrow> jsval option \<Rightarrow> jsval option" where
  "call_all en as evs exc =
     fold (\<lambda>ev x. case CallFunction en (ev_handler ev) as of Inl t \<Rightarrow> Some t | Inr _ \<Rightarrow> x) evs exc"

definition emitFast ::
  "engine \<Rightarrow> string \<Rightarrow> jsval list \<Rightarrow> emitter \<Rightarrow> ((jsval \<times> jsval list) list \<times> jsval option \<times> emitter) res" where
  "emitFast en e as m =
     (case m e of
        None \<Rightarrow> Inr ([], None, m)
      | Some evs \<Rightarrow>
          rbind (tidy e (m(e \<mapsto> map count_down evs))) (\<lambda>m'.
            Inr (map (\<lambda>ev. (ev_handler ev, as)) evs, call_all en as evs None, m')))"

text \<open>How a promise settles.\<close>

datatype settle = Resolved jsval | Rejected jsval

text \<open>
  \<open>Promise.all\<close>: rejected with the first rejection, otherwise resolved with the array of the values.
\<close>

fun promise_all :: "settle list \<Rightarrow> settle" where
  "promise_all [] = Resolved (Array [])"
| "promise_all (Rejected e # ps) = Rejected e"
| "promise_all (Resolved v # ps) =
     (case promise_all ps of
        Resolved (Array vs) \<Rightarrow> Resolved (Array (v # vs))
      | r \<Rightarrow> r)"

definition call_settle :: "engine \<Rightarrow> jsval list \<Rightarrow> event \<Rightarrow> settle" where
  "call_settle en as ev =
     (case CallFunction en (ev_handler ev) as of Inl t \<Rightarrow> Rejected t | Inr v \<Rightarrow> Resolved v)"

definition emit :: "engine \<Rightarrow> string \<Rightarrow> jsval list \<Rightarrow> emitter \<Rightarrow> (settle \<times> emitter) res" where
  "emit en e as m =
     (case m e of
        None \<Rightarrow> Inr (Resolved (Array []), m)
      | Some evs \<Rightarrow>
          rbind (tidy e (m(e \<mapsto> map count_down evs))) (\<lambda>m'.
            Inr (promise_all (map (call_settle en as) evs), m')))"

text \<open>
  \<open>emitFastAndSchedule\<close> schedules one task per listener and puts it into a new group (with its
  counter at \<open>g\<close>). The closure of a task calls the function with the protected arguments and reports an
  exception; \<open>body\<close> gives its actions.
\<close>

fun schedule_calls ::
  "(event \<Rightarrow> act list) \<Rightarrow> event list \<Rightarrow> task_group \<Rightarrow> sched \<Rightarrow> (task_group \<times> sched) res" where
  "schedule_calls body [] G s = Inr (G, s)"
| "schedule_calls body (ev # evs) G s =
     rbind (scheduleTask (Some (body ev)) s) (\<lambda>(t, s1).
     rbind (group_push_back t G s1) (\<lambda>(G1, s2). schedule_calls body evs G1 s2))"

definition emitFastAndSchedule ::
  "(event \<Rightarrow> act list) \<Rightarrow> string \<Rightarrow> nat \<Rightarrow> emitter \<Rightarrow> sched \<Rightarrow> (task_group \<times> emitter \<times> sched) res" where
  "emitFastAndSchedule body e g m s =
     rbind (new_TaskGroup g [] s) (\<lambda>(G, s1).
     case m e of
       None \<Rightarrow> Inr (G, m, s1)
     | Some evs \<Rightarrow>
         rbind (schedule_calls body evs G s1) (\<lambda>(G2, s2).
         rbind (tidy e (m(e \<mapsto> map count_down evs))) (\<lambda>m'. Inr (G2, m', s2))))"

section \<open>The JavaScript methods\<close>

text \<open>
  Each checks its arguments, then that \<open>this\<close> is an emitter (\<open>None\<close> when it is not), and lets
  \<open>JSWrapException\<close> report what it throws. The state is unchanged on an exception.
\<close>

definition emitter_method ::
  "bool \<Rightarrow> string \<Rightarrow> string \<Rightarrow> emitter option \<Rightarrow> (emitter \<Rightarrow> (jscall \<times> emitter) res) \<Rightarrow>
   (jscall \<times> emitter option) res" where
  "emitter_method valid msg msg2 this body =
     (if \<not> valid then Inr (JSWrapException (Exn msg), this)
      else case this of
        None \<Rightarrow> Inr (JSWrapException (Exn msg2), this)
      | Some m \<Rightarrow>
          (case body m of
             Inr (r, m') \<Rightarrow> Inr (r, Some m')
           | Inl (Exn x) \<Rightarrow> Inr (JSWrapException (Exn x), this)
           | Inl x \<Rightarrow> Inl x))"

fun string_of :: "jsval \<Rightarrow> string" where
  "string_of (String s) = s"
| "string_of _ = []"

definition js_on :: "jsval list \<Rightarrow> emitter option \<Rightarrow> (jscall \<times> emitter option) res" where
  "js_on as this =
     emitter_method (length as = 2 \<and> has_type as 0 kString \<and> has_type as 1 kObject)
       ''invalid arguments passed to EventEmitter.on'' ''invalid Emitter instance'' this
       (\<lambda>m. Inr ((Undefined, None), addListener (string_of (arg as 0)) (arg as 1) m))"

definition js_once :: "jsval list \<Rightarrow> emitter option \<Rightarrow> (jscall \<times> emitter option) res" where
  "js_once as this =
     emitter_method (length as = 2 \<and> has_type as 0 kString \<and> has_type as 1 kObject)
       ''invalid arguments passed to EventEmitter.once'' ''invalid Emitter instance'' this
       (\<lambda>m. Inr ((Undefined, None), addOnceListener (string_of (arg as 0)) (arg as 1) m))"

definition js_many :: "jsval list \<Rightarrow> emitter option \<Rightarrow> (jscall \<times> emitter option) res" where
  "js_many as this =
     emitter_method (length as = 3 \<and> has_type as 0 kString \<and> has_type as 1 kObject \<and> has_type as 2 kNumber)
       ''invalid arguments passed to EventEmitter.many'' ''invalid EventEmitter instance'' this
       (\<lambda>m. rbind (case arg as 2 of Number n \<Rightarrow> to_int32 n | _ \<Rightarrow> Inr 0) (\<lambda>count.
          Inr ((Undefined, None), addManyListener (string_of (arg as 0)) (arg as 1) count m)))"

definition js_off :: "jsval list \<Rightarrow> emitter option \<Rightarrow> (jscall \<times> emitter option) res" where
  "js_off as this =
     emitter_method (length as = 2 \<and> has_type as 0 kString \<and> has_type as 1 kObject)
       ''invalid arguments passed to EventEmitter.off'' ''invalid Emitter instance'' this
       (\<lambda>m. Inr ((Undefined, None), removeListener (string_of (arg as 0)) (arg as 1) m))"

definition js_allOff :: "jsval list \<Rightarrow> emitter option \<Rightarrow> (jscall \<times> emitter option) res" where
  "js_allOff as this =
     emitter_method (length as = 1 \<and> has_type as 0 kString)
       ''invalid arguments passed to EventEmitter.allOff'' ''invalid Emitter instance'' this
       (\<lambda>m. Inr ((Undefined, None), removeAllListeners (string_of (arg as 0)) m))"

text \<open>The promise of \<open>emit\<close> is returned; \<open>settled\<close> makes the value that stands for it.\<close>

definition js_emit ::
  "engine \<Rightarrow> (settle \<Rightarrow> jsval) \<Rightarrow> jsval list \<Rightarrow> emitter option \<Rightarrow> (jscall \<times> emitter option) res" where
  "js_emit en settled as this =
     emitter_method (length as \<ge> 1 \<and> has_type as 0 kString)
       ''invalid arguments passed to EventEmitter.emit'' ''invalid Emitter instance'' this
       (\<lambda>m. rbind (emit en (string_of (arg as 0)) (drop 1 as) m) (\<lambda>(p, m'). Inr ((settled p, None), m')))"

section \<open>Tidying\<close>

abbreviation expired :: "event \<Rightarrow> bool" where
  "expired ev \<equiv> ev_count ev = 0"

abbreviation alive :: "event list \<Rightarrow> event list" where
  "alive evs \<equiv> filter (\<lambda>ev. \<not> expired ev) evs"

lemma expired_positions_Nil: "expired_positions evs = [] \<longleftrightarrow> alive evs = evs"
  unfolding expired_positions_def filter_empty_conv filter_id_conv
  by (metis atLeastLessThan_iff atLeastLessThan_upt in_set_conv_nth le0)

lemma length_expired_positions: "length (expired_positions evs) = length (filter expired evs)"
proof -
  have "filter expired evs = filter expired (map ((!) evs) [0..<length evs])" by (simp add: map_nth)
  also have "length \<dots> = length (expired_positions evs)"
    by (simp add: expired_positions_def filter_map comp_def)
  finally show ?thesis by simp
qed

lemma expired_positions_sorted: "sorted_wrt (<) (expired_positions evs)"
  unfolding expired_positions_def by (rule sorted_wrt_filter) simp

lemma expired_positions_set: "set (expired_positions evs) = {i. i < length evs \<and> expired (evs ! i)}"
  by (auto simp: expired_positions_def)

lemma erase_single:
  assumes "expired_positions evs = [i]"
  shows "take i evs @ drop (Suc i) evs = alive evs"
proof -
  have s: "{j. j < length evs \<and> expired (evs ! j)} = {i}"
    using expired_positions_set [of evs] by (simp add: assms)
  then have i: "i < length evs" "expired (evs ! i)" by auto
  have "\<forall>ev \<in> set (take i evs) \<union> set (drop (Suc i) evs). \<not> expired ev"
  proof
    fix ev assume "ev \<in> set (take i evs) \<union> set (drop (Suc i) evs)"
    then have "\<exists>j. j < length evs \<and> j \<noteq> i \<and> ev = evs ! j"
    proof
      assume "ev \<in> set (take i evs)"
      then obtain n where "n < length (take i evs)" "ev = take i evs ! n" by (auto simp: in_set_conv_nth)
      then show ?thesis using i(1) by (intro exI [of _ n]) simp
    next
      assume "ev \<in> set (drop (Suc i) evs)"
      then obtain n where "n < length evs - Suc i" "ev = evs ! (Suc i + n)" by (auto simp: in_set_conv_nth)
      then show ?thesis by (intro exI [of _ "Suc i + n"]) auto
    qed
    with s show "\<not> expired ev" by blast
  qed
  then have "alive (take i evs) = take i evs" "alive (drop (Suc i) evs) = drop (Suc i) evs"
    by (simp_all add: filter_id_conv)
  moreover have "alive evs = alive (take i evs @ evs ! i # drop (Suc i) evs)"
    using id_take_nth_drop [OF i(1)] by simp
  ultimately show ?thesis using i(2) by simp
qed

lemma erase_all_result:
  "erase_all (expired_positions evs) None evs =
     (if length (filter expired evs) \<le> 1 then Inr (alive evs)
      else Inl (UB ''erase through an invalidated iterator''))"
proof (cases "expired_positions evs")
  case Nil
  then have "length (filter expired evs) = 0" using length_expired_positions [of evs] by simp
  with Nil show ?thesis using expired_positions_Nil [of evs] by simp
next
  case (Cons i rest)
  have i: "i < length evs" using expired_positions_set [of evs] by (auto simp: Cons)
  have len: "length (filter expired evs) = Suc (length rest)" using length_expired_positions [of evs] by (simp add: Cons)
  show ?thesis
  proof (cases rest)
    case Nil
    with Cons i len show ?thesis using erase_single [of evs i] by simp
  next
    case (Cons j js)
    with \<open>expired_positions evs = i # rest\<close> have "i < j" using expired_positions_sorted [of evs] by simp
    with \<open>expired_positions evs = i # rest\<close> i len Cons show ?thesis by simp
  qed
qed

text \<open>\<open>tidy\<close> in one equation.\<close>

lemma tidy_eq:
  "tidy e m = (case m e of None \<Rightarrow> Inr m | Some evs \<Rightarrow>
     if length (filter expired evs) \<le> 1 then Inr (m(e := if alive evs = [] then None else Some (alive evs)))
     else Inl (UB ''erase through an invalidated iterator''))"
  by (simp add: tidy_def erase_all_result split: option.splits)

section \<open>What a listener is promised\<close>

text \<open>
  The abstract emitter: for every event the registered functions with the number of calls each has
  left, \<open>None\<close> for any number. An emission calls all of them in order and drops those that are spent.
\<close>

type_synonym budget = "jsval \<times> nat option"

definition abs_event :: "event \<Rightarrow> budget" where
  "abs_event ev = (ev_handler ev, if ev_count ev < 0 then None else Some (nat (ev_count ev)))"

definition abs_emitter :: "emitter \<Rightarrow> string \<Rightarrow> budget list" where
  "abs_emitter m e = (case m e of None \<Rightarrow> [] | Some evs \<Rightarrow> map abs_event evs)"

definition spend :: "budget \<Rightarrow> budget option" where
  "spend b = (case snd b of None \<Rightarrow> Some b | Some n \<Rightarrow> if n \<le> 1 then None else Some (fst b, Some (n - 1)))"

definition spec_emit :: "budget list \<Rightarrow> jsval list \<times> budget list" where
  "spec_emit bs = (map fst bs, List.map_filter spend bs)"

text \<open>At most one listener of the event has its last call in this emission.\<close>

definition last_call :: "budget \<Rightarrow> bool" where
  "last_call b \<longleftrightarrow> (case snd b of None \<Rightarrow> False | Some n \<Rightarrow> n \<le> 1)"

definition at_most_one_last :: "budget list \<Rightarrow> bool" where
  "at_most_one_last bs \<longleftrightarrow> length (filter last_call bs) \<le> 1"

abbreviation one_last :: "string \<Rightarrow> emitter \<Rightarrow> bool" where
  "one_last e m \<equiv> at_most_one_last (abs_emitter m e)"

lemma at_most_one_last_short [simp]: "at_most_one_last []" "at_most_one_last [b]"
  by (simp_all add: at_most_one_last_def)

lemma expired_count_down: "expired (count_down ev) \<longleftrightarrow> last_call (abs_event ev)"
  by (auto simp: count_down_def last_call_def abs_event_def)

lemma at_most_one_last_count_down:
  "m e = Some evs \<Longrightarrow> length (filter expired (map count_down evs)) \<le> 1 \<longleftrightarrow> one_last e m"
  by (simp add: at_most_one_last_def abs_emitter_def filter_map comp_def expired_count_down)

lemma spend_abs_event:
  "spend (abs_event ev) = (if expired (count_down ev) then None else Some (abs_event (count_down ev)))"
  by (auto simp: spend_def abs_event_def count_down_def nat_diff_distrib)

lemma map_filter_spend: "List.map_filter spend (map abs_event evs) = map abs_event (alive (map count_down evs))"
  by (induction evs) (simp_all add: map_filter_simps spend_abs_event)

lemma tidy_count_down:
  assumes "m e = Some evs" "one_last e m"
  shows "\<exists>m'. tidy e (m(e \<mapsto> map count_down evs)) = Inr m' \<and>
    abs_emitter m' e = List.map_filter spend (abs_emitter m e) \<and> (\<forall>e'. e' \<noteq> e \<longrightarrow> m' e' = m e')"
  using assms at_most_one_last_count_down [of m e evs]
  by (auto simp: tidy_eq abs_emitter_def map_filter_spend)

lemma tidy_count_down_UB:
  assumes "m e = Some evs" "\<not> one_last e m"
  shows "tidy e (m(e \<mapsto> map count_down evs)) = Inl (UB ''erase through an invalidated iterator'')"
  using assms at_most_one_last_count_down [of m e evs] by (simp add: tidy_eq)

lemma emitFast_spec:
  assumes "one_last e m"
  shows "\<exists>m' x. emitFast en e as m = Inr (map (\<lambda>f. (f, as)) (fst (spec_emit (abs_emitter m e))), x, m') \<and>
    abs_emitter m' e = snd (spec_emit (abs_emitter m e)) \<and> (\<forall>e'. e' \<noteq> e \<longrightarrow> m' e' = m e')"
proof (cases "m e")
  case None
  then show ?thesis by (simp add: emitFast_def spec_emit_def abs_emitter_def map_filter_simps)
next
  case (Some evs)
  obtain m' where "tidy e (m(e \<mapsto> map count_down evs)) = Inr m'"
    "abs_emitter m' e = List.map_filter spend (abs_emitter m e)" "\<forall>e'. e' \<noteq> e \<longrightarrow> m' e' = m e'"
    using tidy_count_down [OF Some assms] by blast
  moreover have "map (\<lambda>f. (f, as)) (fst (spec_emit (abs_emitter m e))) = map (\<lambda>ev. (ev_handler ev, as)) evs"
    using Some by (simp add: spec_emit_def abs_emitter_def abs_event_def)
  ultimately show ?thesis using Some by (simp add: emitFast_def spec_emit_def)
qed

section \<open>A source of events\<close>

text \<open>
  What the components that own an emitter rely on, as an interface: a listener store with a way to
  add a function with a budget and to emit, described by the list of budgets it has. \<open>ok\<close> says when
  an emission is allowed.
\<close>

locale event_source =
  fixes add :: "jsval \<Rightarrow> nat option \<Rightarrow> 's \<Rightarrow> 's"
    and emits :: "'s \<Rightarrow> (jsval list \<times> 's) option"
    and budgets :: "'s \<Rightarrow> budget list"
  assumes budgets_add: "budgets (add f n s) = budgets s @ [(f, n)]"
    and emits_ok: "at_most_one_last (budgets s) \<Longrightarrow>
      \<exists>s'. emits s = Some (fst (spec_emit (budgets s)), s') \<and> budgets s' = snd (spec_emit (budgets s))"
begin

text \<open>\<open>k\<close> emissions in a row, with all the calls they make.\<close>

fun emissions :: "nat \<Rightarrow> 's \<Rightarrow> (jsval list \<times> 's) option" where
  "emissions 0 s = Some ([], s)"
| "emissions (Suc k) s =
     (case emits s of None \<Rightarrow> None | Some (c, s1) \<Rightarrow>
        (case emissions k s1 of None \<Rightarrow> None | Some (cs, s2) \<Rightarrow> Some (c @ cs, s2)))"

lemma emissions_forever:
  "budgets s = [(f, None)] \<Longrightarrow> \<exists>s'. emissions k s = Some (replicate k f, s') \<and> budgets s' = [(f, None)]"
proof (induction k arbitrary: s)
  case (Suc k)
  from Suc.prems obtain s1 where s1: "emits s = Some ([f], s1)" "budgets s1 = [(f, None)]"
    using emits_ok [of s] by (auto simp: spec_emit_def spend_def map_filter_simps)
  then show ?case using Suc.IH [of s1] by auto
qed simp

lemma emissions_none: "budgets s = [] \<Longrightarrow> \<exists>s'. emissions k s = Some ([], s') \<and> budgets s' = []"
proof (induction k arbitrary: s)
  case (Suc k)
  from Suc.prems obtain s1 where s1: "emits s = Some ([], s1)" "budgets s1 = []"
    using emits_ok [of s] by (auto simp: spec_emit_def map_filter_simps)
  then show ?case using Suc.IH [of s1] by auto
qed simp

lemma emissions_limited:
  "budgets s = [(f, Some n)] \<Longrightarrow> n > 0 \<Longrightarrow>
    \<exists>s'. emissions k s = Some (replicate (min k n) f, s') \<and>
      budgets s' = (if k < n then [(f, Some (n - k))] else [])"
proof (induction k arbitrary: s n)
  case (Suc k)
  from Suc.prems obtain s1 where s1: "emits s = Some ([f], s1)"
    "budgets s1 = (if n \<le> 1 then [] else [(f, Some (n - 1))])"
    using emits_ok [of s]
    by (cases "n \<le> 1") (auto simp: spec_emit_def spend_def map_filter_simps)
  show ?case
  proof (cases "n \<le> 1")
    case True
    with Suc.prems(2) have "n = 1" by simp
    with s1 emissions_none [of s1 k] show ?thesis by auto
  next
    case False
    then have "min (Suc k) n = Suc (min k (n - 1))" by auto
    with s1 False Suc.IH [of s1 "n - 1"] show ?thesis by auto
  qed
qed simp

end

definition budget_count :: "nat option \<Rightarrow> int" where
  "budget_count n = (case n of None \<Rightarrow> - 1 | Some k \<Rightarrow> int k)"

definition emitter_add :: "string \<Rightarrow> jsval \<Rightarrow> nat option \<Rightarrow> emitter \<Rightarrow> emitter" where
  "emitter_add e f n m = addManyListener e f (budget_count n) m"

definition emitter_emits :: "engine \<Rightarrow> string \<Rightarrow> jsval list \<Rightarrow> emitter \<Rightarrow> (jsval list \<times> emitter) option" where
  "emitter_emits en e as m =
     (case emitFast en e as m of Inl _ \<Rightarrow> None | Inr (cs, _, m') \<Rightarrow> Some (map fst cs, m'))"

lemma abs_emitter_add: "abs_emitter (emitter_add e f n m) e = abs_emitter m e @ [(f, n)]"
  by (simp add: emitter_add_def addManyListener_def abs_emitter_def abs_event_def budget_count_def split: option.splits)

interpretation listener: event_source "emitter_add e" "emitter_emits en e as" "\<lambda>m. abs_emitter m e" for en e as
proof
  show "abs_emitter (emitter_add e f n s) e = abs_emitter s e @ [(f, n)]" for f n s
    by (rule abs_emitter_add)
  show "\<exists>s'. emitter_emits en e as s = Some (fst (spec_emit (abs_emitter s e)), s') \<and>
      abs_emitter s' e = snd (spec_emit (abs_emitter s e))"
    if "one_last e s" for s
    using emitFast_spec [OF that, of en as] by (auto simp: emitter_emits_def comp_def)
qed

end
