(* ===== verification/Device.thy ===== *)
theory Device
  imports Emitter
begin

text \<open>
  The I/O devices (\<open>src/classes/io/device.cpp\<close>, \<open>include/classes/io/device.h\<close>): the class
  hierarchy, and the JavaScript methods \<open>read\<close>, \<open>write\<close>, \<open>seek\<close> and their synchronous variants over
  the virtual functions of a device. A record of functions over a device state \<open>'d\<close> stands for the
  virtual table.
\<close>

section \<open>The class hierarchy\<close>

datatype devclass =
    EmitterC
  | DeviceC
  | SourceDeviceC
  | PushSourceDeviceC
  | PullSourceDeviceC
  | SinkDeviceC
  | BidirectionalPullDeviceC
  | BidirectionalPushDeviceC
  | SeekableDeviceC
  | SeekableSourceDeviceC
  | SeekableSinkDeviceC
  | BidirectionalSeekableDeviceC
  | DualSeekableDeviceC
  | BidirectionalDualSeekableDeviceC

text \<open>The method tables; an entry is named by its JavaScript name and the class that implements it.\<close>

definition Methods :: "devclass \<Rightarrow> string list" where
  "Methods c =
     (case c of
        EmitterC \<Rightarrow> [''on'', ''once'', ''many'', ''off'', ''allOff'', ''emit'']
      | DeviceC \<Rightarrow> [''close'']
      | PushSourceDeviceC \<Rightarrow> [''reset'', ''pause'', ''resume'']
      | PullSourceDeviceC \<Rightarrow> [''read'', ''readSync'']
      | SinkDeviceC \<Rightarrow> [''write'', ''writeSync'']
      | SeekableDeviceC \<Rightarrow> [''seek'', ''seekSync'']
      | DualSeekableDeviceC \<Rightarrow> [''readSeek'', ''writeSeek'', ''readSeekSync'', ''writeSeekSync'']
      | _ \<Rightarrow> [])"

text \<open>A class definition as \<open>createClass\<close> fills it: the name it is registered under, parent, own functions.\<close>

record classdef =
  className :: string
  parentClass :: "devclass option"
  staticFunctions :: "string list"

fun createClass :: "devclass \<Rightarrow> classdef" where
  "createClass EmitterC = \<lparr>className = ''EventEmitter'', parentClass = None, staticFunctions = Methods EmitterC\<rparr>"
| "createClass DeviceC = \<lparr>className = ''Device'', parentClass = Some EmitterC, staticFunctions = Methods DeviceC\<rparr>"
| "createClass SourceDeviceC =
     \<lparr>className = ''SourceDevice'', parentClass = Some DeviceC, staticFunctions = Methods SourceDeviceC\<rparr>"
| "createClass PushSourceDeviceC =
     \<lparr>className = ''PushSourceDevice'', parentClass = Some SourceDeviceC, staticFunctions = Methods PushSourceDeviceC\<rparr>"
| "createClass PullSourceDeviceC =
     \<lparr>className = ''PullSourceDevice'', parentClass = Some SourceDeviceC, staticFunctions = Methods PullSourceDeviceC\<rparr>"
| "createClass SinkDeviceC =
     \<lparr>className = ''SinkDevice'', parentClass = Some DeviceC, staticFunctions = Methods SinkDeviceC\<rparr>"
| "createClass BidirectionalPullDeviceC =
     \<lparr>className = ''BidirectionalPullDevice'', parentClass = Some PullSourceDeviceC,
      staticFunctions = [Methods SinkDeviceC ! 0, Methods SinkDeviceC ! 1]\<rparr>"
| "createClass BidirectionalPushDeviceC =
     \<lparr>className = ''BidirectionalPushDevice'', parentClass = Some PushSourceDeviceC,
      staticFunctions = [Methods SinkDeviceC ! 0, Methods SinkDeviceC ! 1]\<rparr>"
| "createClass SeekableDeviceC =
     \<lparr>className = ''SeekableDevice'', parentClass = Some DeviceC, staticFunctions = Methods SeekableDeviceC\<rparr>"
| "createClass SeekableSourceDeviceC =
     \<lparr>className = ''SeekableSourceDevice'', parentClass = Some PullSourceDeviceC,
      staticFunctions = [Methods SeekableDeviceC ! 0, Methods SeekableDeviceC ! 1]\<rparr>"
| "createClass SeekableSinkDeviceC =
     \<lparr>className = ''SeekableSinkDevice'', parentClass = Some DeviceC,
      staticFunctions = [Methods SeekableDeviceC ! 0, Methods SeekableDeviceC ! 1,
                         Methods SinkDeviceC ! 0, Methods SinkDeviceC ! 1]\<rparr>"
| "createClass BidirectionalSeekableDeviceC =
     \<lparr>className = ''BidirectionalSeekableDevice'', parentClass = Some SeekableDeviceC,
      staticFunctions = [Methods PullSourceDeviceC ! 0, Methods PullSourceDeviceC ! 1,
                         Methods SinkDeviceC ! 0, Methods SinkDeviceC ! 1]\<rparr>"
| "createClass DualSeekableDeviceC =
     \<lparr>className = ''DualSeekableDevice'', parentClass = Some DeviceC, staticFunctions = Methods DualSeekableDeviceC\<rparr>"
| "createClass BidirectionalDualSeekableDeviceC =
     \<lparr>className = ''BidirectionalSeekableDevice'', parentClass = Some DualSeekableDeviceC,
      staticFunctions = [Methods PullSourceDeviceC ! 0, Methods PullSourceDeviceC ! 1,
                         Methods SinkDeviceC ! 0, Methods SinkDeviceC ! 1]\<rparr>"

text \<open>
  \<open>Nexus::defineOrGetClass\<close> (\<open>include/nexus.h\<close>): classes are cached under their name, and a name that is
  already there wins. The result is the class definition in force.
\<close>

definition defineOrGetClass :: "classdef \<Rightarrow> (string \<Rightarrow> classdef option) \<Rightarrow> classdef \<times> (string \<Rightarrow> classdef option)" where
  "defineOrGetClass def classes =
     (case classes (className def) of
        Some c \<Rightarrow> (c, classes)
      | None \<Rightarrow> (def, classes(className def \<mapsto> def)))"

section \<open>Virtual functions\<close>

datatype Position = Beginning | Current | End

datatype SourceType = PullType | PushType

datatype State = Paused | Resumed

record 'd device_ops =
  deviceReady :: "'d \<Rightarrow> bool"
  deviceOpen :: "'d \<Rightarrow> bool"
  deviceClose :: "'d \<Rightarrow> 'd res"
  deviceError :: "'d \<Rightarrow> string option"

record 'd source_ops = "'d device_ops" +
  deviceRead :: "nat \<Rightarrow> 'd \<Rightarrow> (byte list \<times> 'd) res"
  deviceBytesAvailable :: "('d \<Rightarrow> usize \<times> 'd) option"

record 'd sink_ops = "'d device_ops" +
  maxWriteBufferSize :: nat
  recommendedWriteBufferSize :: nat
  deviceWrite :: "byte list option \<Rightarrow> 'd \<Rightarrow> (usize \<times> 'd) res"

text \<open>How a promise-returning method ends: settled at once, or a task that was scheduled.\<close>

datatype 'a started = Settled settle | Started 'a | Threw jsval

definition error_of :: "exn \<Rightarrow> jsval" where
  "error_of e = ErrorObj (message_of e)"

text \<open>\<open>close\<close>: \<open>None\<close> is an object that is not a device.\<close>

definition js_close :: "'d device_ops \<Rightarrow> jsval \<Rightarrow> 'd option \<Rightarrow> (settle \<times> 'd option) res" where
  "js_close ops this dev =
     (case dev of
        None \<Rightarrow> Inr (Rejected (ErrorObj ''Device does not implement close()''), dev)
      | Some d \<Rightarrow>
          (case deviceClose ops d of
             Inr d' \<Rightarrow> Inr (Resolved this, Some d')
           | Inl (Exn m) \<Rightarrow> Inr (Rejected (ErrorObj m), dev)
           | Inl x \<Rightarrow> Inl x))"

definition js_type :: "SourceType \<Rightarrow> jsval" where
  "js_type t = (case t of PullType \<Rightarrow> String ''pull'' | PushType \<Rightarrow> String ''push'')"

definition js_state :: "State \<Rightarrow> jsval" where
  "js_state st = (case st of Paused \<Rightarrow> String ''paused'' | Resumed \<Rightarrow> String ''resumed'')"

section \<open>Reading\<close>

text \<open>
  \<open>read\<close> up to the promise: the length argument, the cast of \<open>this\<close>. The length given to the task is
  zero when there is no argument.
\<close>

definition js_read_start :: "jsval list \<Rightarrow> bool \<Rightarrow> usize started res" where
  "js_read_start as is_source =
     (if as \<noteq> [] \<and> \<not> has_type as 0 kNumber then Inr (Threw (ErrorObj ''bad value for length argument''))
      else rbind (if as = [] then Inr 0 else case arg as 0 of Number n \<Rightarrow> to_size_t n | _ \<Rightarrow> Inr 0) (\<lambda>len.
        if \<not> is_source then Inr (Threw (String ''PushSourceDevice object does not implement read()''))
        else Inr (Started len)))"

text \<open>
  The task of \<open>read\<close>: how the promise is settled, whether the buffer it allocated is freed or owned by
  the array buffer, and whether the protection of \<open>this\<close> was released.
\<close>

record read_out =
  ro_settle :: settle
  ro_buffer_released :: bool
  ro_unprotected :: bool

definition read_failed :: "exn \<Rightarrow> 'd \<Rightarrow> (read_out \<times> 'd) res" where
  "read_failed e d =
     (case e of
        Exn m \<Rightarrow> Inr (\<lparr>ro_settle = Rejected (ErrorObj m), ro_buffer_released = True, ro_unprotected = True\<rparr>, d)
      | _ \<Rightarrow> Inl e)"

definition read_task :: "('d, 'm) source_ops_scheme \<Rightarrow> usize \<Rightarrow> 'd \<Rightarrow> (read_out \<times> 'd) res" where
  "read_task ops readLength d =
     (let (len, d1) = (if readLength = 0
                       then (case deviceBytesAvailable ops of Some f \<Rightarrow> f d | None \<Rightarrow> (0, d))
                       else (readLength, d))
      in if len = 0 then read_failed (Exn ''must supply read length for non-seekable device'') d1
         else if \<not> deviceReady ops d1 then
           Inr (\<lparr>ro_settle = Rejected (ErrorObj ''device not ready''), ro_buffer_released = False,
                 ro_unprotected = False\<rparr>, d1)
         else
           (case deviceRead ops (unat len) d1 of
              Inl e \<Rightarrow> read_failed e d1
            | Inr (bs, d2) \<Rightarrow>
                Inr (\<lparr>ro_settle = Resolved (Buffer bs), ro_buffer_released = True, ro_unprotected = True\<rparr>, d2)))"

definition js_readSync :: "('d, 'm) source_ops_scheme \<Rightarrow> jsval list \<Rightarrow> 'd \<Rightarrow> (jscall \<times> 'd) res" where
  "js_readSync ops as d =
     (if as = [] then Inr (JSWrapException (Exn ''must supply length to read''), d)
      else if \<not> has_type as 0 kNumber then Inr (JSWrapException (Exn ''bad value for length argument''), d)
      else
        rbind (case arg as 0 of Number n \<Rightarrow> to_size_t n | _ \<Rightarrow> Inr 0) (\<lambda>len.
        if \<not> deviceReady ops d then Inr (JSWrapException (Exn ''device not ready''), d)
        else
          (case deviceRead ops (unat len) d of
             Inl (Exn m) \<Rightarrow> Inr (JSWrapException (Exn m), d)
           | Inl x \<Rightarrow> Inl x
           | Inr (bs, d') \<Rightarrow> Inr ((Buffer bs, None), d'))))"

section \<open>Writing\<close>

text \<open>The bytes a buffer argument denotes: an array buffer, or the window of a typed array.\<close>

fun buffer_window :: "jsval \<Rightarrow> (byte list \<times> nat \<times> nat) option" where
  "buffer_window (Buffer b) = Some (b, 0, length b)"
| "buffer_window (View b off n) = Some (b, off, n)"
| "buffer_window _ = None"

text \<open>
  \<open>write\<close> up to the task. \<open>null\<close> flushes a ready device (an exception of the flush is swallowed, and
  with it the state of the device is the one before).
\<close>

definition js_write_start ::
  "engine \<Rightarrow> ('d, 'm) sink_ops_scheme \<Rightarrow> jsval \<Rightarrow> jsval list \<Rightarrow> 'd option \<Rightarrow> (byte list started \<times> 'd option) res" where
  "js_write_start en ops this as dev =
     (case dev of
        None \<Rightarrow> Inr (Settled (Rejected (ErrorObj ''SinkDevice does not implement write()'')), dev)
      | Some d \<Rightarrow>
          if as = [] then Inr (Settled (Rejected (ErrorObj ''must supply buffer to write'')), dev)
          else if has_type as 0 kNull then
            (if deviceReady ops d then
               (case deviceWrite ops None d of
                  Inr (n, d') \<Rightarrow> Inr (Settled (Resolved this), Some d')
                | Inl (Exn m) \<Rightarrow> Inr (Settled (Resolved this), dev)
                | Inl x \<Rightarrow> Inl x)
             else Inr (Settled (Resolved this), dev))
          else if \<not> has_type as 0 kObject then
            Inr (Settled (Rejected (ErrorObj ''argument must be TypedArray, ArrayBuffer, or null'')), dev)
          else
            (case buffer_window (arg as 0) of
               None \<Rightarrow> Inr (Settled (Rejected (TypeErr en)), dev)
             | Some (b, off, n) \<Rightarrow>
                 if n = 0 then Inr (Settled (Resolved this), dev)
                 else Inr (Started (take n (drop off b)), dev)))"

text \<open>One run of the task of \<open>write\<close>: it schedules itself again with the new count, or settles.\<close>

datatype write_out = Again nat | WriteDone settle

definition write_step :: "('d, 'm) sink_ops_scheme \<Rightarrow> byte list \<Rightarrow> nat \<Rightarrow> 'd \<Rightarrow> (write_out \<times> 'd) res" where
  "write_step ops data written d =
     (let finished = WriteDone (Resolved (Number (Fin (of_nat written)))) in
      if written < length data then
        (if \<not> deviceReady ops d \<and> deviceOpen ops d then
           (case deviceError ops d of
              Some m \<Rightarrow> Inr (WriteDone (Rejected (ErrorObj m)), d)
            | None \<Rightarrow> Inr (Again written, d))
         else
           (case deviceError ops d of
              Some m \<Rightarrow> Inr (WriteDone (Rejected (ErrorObj m)), d)
            | None \<Rightarrow>
                if \<not> deviceOpen ops d then Inr (finished, d)
                else
                  (let size = min (recommendedWriteBufferSize ops) (length data - written) in
                   if size = 0 then Inr (finished, d)
                   else
                     (case deviceWrite ops (Some (take (min size (maxWriteBufferSize ops)) (drop written data))) d of
                        Inl (Exn m) \<Rightarrow> Inr (WriteDone (Rejected (ErrorObj m)), d)
                      | Inl x \<Rightarrow> Inl x
                      | Inr (k, d') \<Rightarrow> Inr (Again (written + unat k), d')))))
      else Inr (finished, d))"

text \<open>
  The task until it settles, when nobody else touches the device. A device that is open and never
  ready keeps it going for ever.
\<close>

partial_function (option) write_loop ::
  "('d, 'm) sink_ops_scheme \<Rightarrow> byte list \<Rightarrow> nat \<Rightarrow> 'd \<Rightarrow> (exn + settle \<times> 'd) option" where
  "write_loop ops data written d =
     (case write_step ops data written d of
        Inl e \<Rightarrow> Some (Inl e)
      | Inr (WriteDone s, d') \<Rightarrow> Some (Inr (s, d'))
      | Inr (Again w, d') \<Rightarrow> write_loop ops data w d')"

definition js_writeSync :: "('d, 'm) sink_ops_scheme \<Rightarrow> jsval list \<Rightarrow> 'd \<Rightarrow> (jscall \<times> 'd) res" where
  "js_writeSync ops as d =
     (if as = [] then Inr (JSWrapException (Exn ''must supply buffer to write''), d)
      else if \<not> has_type as 0 kObject then Inr (JSWrapException (Exn ''bad value for buffer argument''), d)
      else
        (case buffer_window (arg as 0) of
           None \<Rightarrow> Inr (JSWrapException (Exn ''argument must be TypedArray or ArrayBuffer''), d)
         | Some (b, off, n) \<Rightarrow>
             if \<not> deviceReady ops d then Inr (JSWrapException (Exn ''device not ready''), d)
             else
               (case deviceWrite ops (Some (take n (drop off b))) d of
                  Inl (Exn m) \<Rightarrow> Inr (JSWrapException (Exn m), d)
                | Inl x \<Rightarrow> Inl x
                | Inr (k, d') \<Rightarrow> Inr ((Number (Fin (of_nat n)), None), d'))))"

section \<open>Seeking\<close>

text \<open>\<open>boost::iequals\<close> on ASCII strings.\<close>

definition lower :: "char \<Rightarrow> char" where
  "lower c = (let n = of_char c :: nat in if 65 \<le> n \<and> n \<le> 90 then char_of (n + 32) else c)"

definition iequals :: "string \<Rightarrow> string \<Rightarrow> bool" where
  "iequals a b = (map lower a = map lower b)"

definition valid_position :: "string \<Rightarrow> bool" where
  "valid_position s = (iequals ''begin'' s \<or> iequals ''current'' s \<or> iequals ''end'' s)"

definition position_of :: "string \<Rightarrow> Position" where
  "position_of s =
     (if iequals s ''begin'' then Beginning
      else if iequals s ''current'' then Current
      else if iequals s ''end'' then End
      else Beginning)"

text \<open>The checks that all eight seek methods make; the exception of the first that fails.\<close>

definition check_seek :: "engine \<Rightarrow> jsval list \<Rightarrow> unit res" where
  "check_seek en as =
     (if length as \<noteq> 2 then Inl (Exn ''must supply stream offset and position'')
      else if \<not> has_type as 0 kNumber then Inl (Exn ''value for offset argument is not a number'')
      else if \<not> has_type as 1 kString then Inl (Exn ''value for position argument is not a string'')
      else rbind (Value_toString en (arg as 1)) (\<lambda>s.
        if valid_position s then Inr ()
        else Inl (Exn ''position argument must be one of ['begin','current','end']'')))"

text \<open>
  \<open>seek\<close>, \<open>readSeek\<close>, \<open>writeSeek\<close>: after the checks the offset is the first argument and the position the
  second; the promise runs \<open>doSeek\<close>, which is \<open>deviceSeek\<close>, \<open>deviceReadSeek\<close> or \<open>deviceWriteSeek\<close>.
\<close>

definition js_seek_start :: "engine \<Rightarrow> jsval list \<Rightarrow> (usize \<times> string) started res" where
  "js_seek_start en as =
     (case check_seek en as of
        Inl (Exn m) \<Rightarrow> Inr (Threw (ErrorObj m))
      | Inl x \<Rightarrow> Inl x
      | Inr _ \<Rightarrow>
          rbind (Value_toNumber en (arg as 0)) (\<lambda>n.
          rbind (to_size_t n) (\<lambda>offset.
          rbind (Value_toString en (arg as 1)) (\<lambda>position. Inr (Started (offset, position))))))"

definition seek_task ::
  "('d, 'm) device_ops_scheme \<Rightarrow> (usize \<Rightarrow> Position \<Rightarrow> 'd \<Rightarrow> (usize \<times> 'd) res) \<Rightarrow> usize \<Rightarrow> string \<Rightarrow> 'd \<Rightarrow>
   (settle \<times> 'd) res" where
  "seek_task ops doSeek offset position d =
     (if \<not> deviceReady ops d then Inr (Rejected (ErrorObj ''device not ready''), d)
      else
        (case doSeek offset (position_of position) d of
           Inr (p, d') \<Rightarrow> Inr (Resolved (Number (Fin (of_int (uint p)))), d')
         | Inl (Exn m) \<Rightarrow> Inr (Rejected (ErrorObj m), d)
         | Inl x \<Rightarrow> Inl x))"

text \<open>
  \<open>seekSync\<close>, \<open>readSeekSync\<close>, \<open>writeSeekSync\<close>: here \<open>position\<close> is built from the first argument and
  \<open>offset\<close> from the second.
\<close>

definition js_seekSync ::
  "engine \<Rightarrow> ('d, 'm) device_ops_scheme \<Rightarrow> (usize \<Rightarrow> Position \<Rightarrow> 'd \<Rightarrow> (usize \<times> 'd) res) \<Rightarrow> jsval list \<Rightarrow> 'd \<Rightarrow>
   (jscall \<times> 'd) res" where
  "js_seekSync en ops doSeek as d =
     (let result =
        rbind (check_seek en as) (\<lambda>_.
        rbind (Value_toString en (arg as 0)) (\<lambda>position.
        if \<not> deviceReady ops d then Inl (Exn ''device not ready'')
        else
          rbind (Value_toNumber en (arg as 1)) (\<lambda>n.
          rbind (to_size_t n) (\<lambda>offset.
          rbind (doSeek offset (position_of position) d) (\<lambda>(p, d').
          Inr ((Number (Fin (of_int (uint p))), None :: jsval option), d'))))))
      in case result of
           Inl (Exn m) \<Rightarrow> Inr (JSWrapException (Exn m), d)
         | r \<Rightarrow> r)"

text \<open>
  The three pairs of methods: \<open>SeekableDevice\<close> has \<open>seek\<close> and \<open>seekSync\<close>, \<open>DualSeekableDevice\<close> one pair for
  the read and one for the write position.
\<close>

record 'd seek_ops =
  deviceSeek :: "usize \<Rightarrow> Position \<Rightarrow> 'd \<Rightarrow> (usize \<times> 'd) res"

record 'd dual_seek_ops =
  deviceReadSeek :: "usize \<Rightarrow> Position \<Rightarrow> 'd \<Rightarrow> (usize \<times> 'd) res"
  deviceWriteSeek :: "usize \<Rightarrow> Position \<Rightarrow> 'd \<Rightarrow> (usize \<times> 'd) res"

definition seek_method ::
  "engine \<Rightarrow> ('d, 'm) device_ops_scheme \<Rightarrow> (usize \<Rightarrow> Position \<Rightarrow> 'd \<Rightarrow> (usize \<times> 'd) res) \<Rightarrow> jsval list \<Rightarrow> 'd \<Rightarrow>
   (jscall + settle \<times> 'd) res" where
  "seek_method en ops doSeek as d =
     rbind (js_seek_start en as) (\<lambda>st. case st of
       Threw e \<Rightarrow> Inr (Inl (Undefined, Some e))
     | Settled s \<Rightarrow> Inr (Inr (s, d))
     | Started (offset, position) \<Rightarrow> rbind (seek_task ops doSeek offset position d) (\<lambda>r. Inr (Inr r)))"

definition js_seek ::
  "engine \<Rightarrow> ('d, 'm) device_ops_scheme \<Rightarrow> 'd seek_ops \<Rightarrow> jsval list \<Rightarrow> 'd \<Rightarrow> (jscall + settle \<times> 'd) res" where
  "js_seek en ops sk = seek_method en ops (deviceSeek sk)"

definition js_readSeek ::
  "engine \<Rightarrow> ('d, 'm) device_ops_scheme \<Rightarrow> 'd dual_seek_ops \<Rightarrow> jsval list \<Rightarrow> 'd \<Rightarrow> (jscall + settle \<times> 'd) res" where
  "js_readSeek en ops sk = seek_method en ops (deviceReadSeek sk)"

definition js_writeSeek ::
  "engine \<Rightarrow> ('d, 'm) device_ops_scheme \<Rightarrow> 'd dual_seek_ops \<Rightarrow> jsval list \<Rightarrow> 'd \<Rightarrow> (jscall + settle \<times> 'd) res" where
  "js_writeSeek en ops sk = seek_method en ops (deviceWriteSeek sk)"

definition js_readSeekSync ::
  "engine \<Rightarrow> ('d, 'm) device_ops_scheme \<Rightarrow> 'd dual_seek_ops \<Rightarrow> jsval list \<Rightarrow> 'd \<Rightarrow> (jscall \<times> 'd) res" where
  "js_readSeekSync en ops sk = js_seekSync en ops (deviceReadSeek sk)"

definition js_writeSeekSync ::
  "engine \<Rightarrow> ('d, 'm) device_ops_scheme \<Rightarrow> 'd dual_seek_ops \<Rightarrow> jsval list \<Rightarrow> 'd \<Rightarrow> (jscall \<times> 'd) res" where
  "js_writeSeekSync en ops sk = js_seekSync en ops (deviceWriteSeek sk)"

end
