(* ===== verification/Filters.thy ===== *)
theory Filters
  imports Device
begin

text \<open>
  The stream filters (\<open>src/classes/io/filter.cpp\<close>, \<open>src/classes/io/filters/encoding.cpp\<close>,
  \<open>src/classes/io/filters/utf8stringfilter.cpp\<close> and their headers): the output buffer that grows while a
  filter asks for more, the encoding conversion around ICU's \<open>ucnv_convertEx\<close>, and the conversion
  between strings and UTF-8 buffers.
\<close>

section \<open>The output buffer\<close>

text \<open>
  \<open>outBuffer\<close> is a block of \<open>ob_capacity\<close> bytes of which the first ones hold \<open>ob_written\<close>;
  \<open>ob_length\<close> and \<open>ob_remaining\<close> are the variables \<open>outLength\<close> and \<open>outRemaining\<close>.
\<close>

record out_buffer =
  ob_written :: "byte list"
  ob_capacity :: nat
  ob_length :: nat
  ob_remaining :: nat

text \<open>
  \<open>processBuffer\<close> of a filter state \<open>'f\<close>: from the input (\<open>None\<close> for a null buffer) and the room left to
  the size it asks for (zero when done), the input consumed, the bytes it wrote and the new state.
\<close>

type_synonym 'f process_buffer = "'f \<Rightarrow> byte list option \<Rightarrow> nat \<Rightarrow> (nat \<times> nat \<times> byte list \<times> 'f) res"

text \<open>
  The array buffer made at the end: the block behind it and the length it claims. A claim beyond the
  block reads memory that is not the filter's.
\<close>

record array_buffer =
  ab_bytes :: "byte list"
  ab_capacity :: nat
  ab_length :: nat

datatype filter_out = FilterAgain "byte list option" out_buffer | FilterDone array_buffer | FilterFailed jsval

definition filter_step :: "'f process_buffer \<Rightarrow> 'f \<Rightarrow> byte list option \<Rightarrow> out_buffer \<Rightarrow> (filter_out \<times> 'f) res" where
  "filter_step process f input ob =
     (case process f input (ob_remaining ob) of
        Inl (Exn m) \<Rightarrow> Inr (FilterFailed (ErrorObj m), f)
      | Inl e \<Rightarrow> Inl e
      | Inr (sizeNeeded, consumed, produced, f') \<Rightarrow>
          (let ob1 = ob\<lparr>ob_written := ob_written ob @ produced, ob_remaining := ob_remaining ob - length produced\<rparr>
           in if sizeNeeded \<noteq> 0 then
                Inr (FilterAgain (map_option (drop consumed) input)
                       (ob1\<lparr>ob_length := ob_length ob + sizeNeeded, ob_capacity := ob_length ob + sizeNeeded\<rparr>), f')
              else
                Inr (FilterDone \<lparr>ab_bytes = ob_written ob1,
                       ab_capacity = (if ob_remaining ob1 > 0 then ob_length ob1 - ob_remaining ob1 else ob_capacity ob1),
                       ab_length = ob_length ob1\<rparr>, f')))"

fun filter_loop ::
  "nat \<Rightarrow> 'f process_buffer \<Rightarrow> 'f \<Rightarrow> byte list option \<Rightarrow> out_buffer \<Rightarrow> ((array_buffer + jsval) \<times> 'f) res option" where
  "filter_loop 0 process f input ob = None"
| "filter_loop (Suc n) process f input ob =
     (case filter_step process f input ob of
        Inl e \<Rightarrow> Some (Inl e)
      | Inr (FilterAgain input' ob', f') \<Rightarrow> filter_loop n process f' input' ob'
      | Inr (FilterDone ab, f') \<Rightarrow> Some (Inr (Inl ab, f'))
      | Inr (FilterFailed e, f') \<Rightarrow> Some (Inr (Inr e, f')))"

text \<open>
  \<open>process\<close>: the arguments (\<open>null\<close> resets the filter), then the buffer of the estimated size. \<open>None\<close> as
  the filter is an object of another class.
\<close>

datatype filter_start = FilterThrew jsval | FilterRejected jsval | FilterRun "byte list option" out_buffer

definition new_out_buffer :: "nat \<Rightarrow> out_buffer" where
  "new_out_buffer n = \<lparr>ob_written = [], ob_capacity = n, ob_length = n, ob_remaining = n\<rparr>"

definition js_process :: "(nat \<Rightarrow> nat) \<Rightarrow> bool \<Rightarrow> jsval list \<Rightarrow> filter_start" where
  "js_process estimate implements as =
     (if as = [] then FilterThrew (ErrorObj ''must supply buffer to write'')
      else if \<not> has_type as 0 kObject \<and> \<not> has_type as 0 kNull then FilterThrew (ErrorObj ''bad value for buffer argument'')
      else if has_type as 0 kNull then
        (if implements then FilterRun None (new_out_buffer (estimate 0))
         else FilterRejected (ErrorObj ''filter object does not implement process()''))
      else
        (case buffer_window (arg as 0) of
           None \<Rightarrow> FilterThrew (ErrorObj ''argument must be TypedArray or ArrayBuffer'')
         | Some (b, off, n) \<Rightarrow>
             if implements then FilterRun (Some (take n (drop off b))) (new_out_buffer (estimate n))
             else FilterRejected (ErrorObj ''filter object does not implement process()'')))"

section \<open>Encoding conversion\<close>

text \<open>
  ICU's converters are outside the sources. \<open>ucnv_open\<close> gives a converter or the name of an error;
  \<open>ucnv_convertEx\<close>, from both converters with the pivot buffer (together \<open>'c\<close>), the reset flag, the
  input and the room, gives the input consumed, the bytes written, the state and its status.
\<close>

datatype icu_status = IcuOk | IcuOverflow | IcuError string

record 'c icu =
  ucnv_open :: "string \<Rightarrow> string + nat"
  converters :: "nat \<Rightarrow> nat \<Rightarrow> 'c"
  ucnv_convertEx :: "'c \<Rightarrow> bool \<Rightarrow> byte list \<Rightarrow> nat \<Rightarrow> nat \<times> byte list \<times> 'c \<times> icu_status"
  reset_pivot :: "'c \<Rightarrow> 'c"

record 'c encoding_filter =
  myEncodingFrom :: string
  myEncodingTo :: string
  myConverters :: 'c
  myPayloadId :: usize

definition new_EncodingConversionFilter :: "'c icu \<Rightarrow> string \<Rightarrow> string \<Rightarrow> 'c encoding_filter res" where
  "new_EncodingConversionFilter icu fromEncoding toEncoding =
     (case ucnv_open icu fromEncoding of
        Inl err \<Rightarrow> Inl (Exn (''invalid source encoding '' @ [CHR 0x27] @ fromEncoding @ [CHR 0x27] @ '': '' @ err))
      | Inr source \<Rightarrow>
          (case ucnv_open icu toEncoding of
             Inl err \<Rightarrow> Inl (Exn (''invalid target encoding '' @ [CHR 0x27] @ fromEncoding @ [CHR 0x27] @ '': '' @ err))
           | Inr target \<Rightarrow>
               Inr \<lparr>myEncodingFrom = fromEncoding, myEncodingTo = toEncoding,
                    myConverters = converters icu source target, myPayloadId = 0\<rparr>))"

definition EncodingConversionFilter_Constructor ::
  "engine \<Rightarrow> 'c icu \<Rightarrow> jsval list \<Rightarrow> ('c encoding_filter option \<times> jsval option) res" where
  "EncodingConversionFilter_Constructor en icu as =
     (let made =
        (if length as \<noteq> 2 then Inl (Exn ''invalid arguments passed to EncodingConversionFilter constructor'')
         else rbind (Value_toString en (arg as 0)) (\<lambda>fr.
              rbind (Value_toString en (arg as 1)) (\<lambda>target. new_EncodingConversionFilter icu fr target)))
      in case made of
           Inr f \<Rightarrow> Inr (Some f, None)
         | Inl (Exn m) \<Rightarrow> Inr (None, Some (ErrorObj m))
         | Inl e \<Rightarrow> Inl e)"

definition estimateOutputLength :: "nat \<Rightarrow> nat" where
  "estimateOutputLength n = n"

definition encoding_processBuffer :: "'c icu \<Rightarrow> 'c encoding_filter process_buffer" where
  "encoding_processBuffer icu f input room =
     (case input of
        None \<Rightarrow> Inr (0, 0, [], f\<lparr>myConverters := reset_pivot icu (myConverters f), myPayloadId := 0\<rparr>)
      | Some src \<Rightarrow>
          (case ucnv_convertEx icu (myConverters f) (myPayloadId f = 0) src room of
             (consumed, produced, c, status) \<Rightarrow>
               (case status of
                  IcuError name \<Rightarrow> Inl (Exn (''encoding conversion error: '' @ name))
                | IcuOverflow \<Rightarrow> Inr (room, consumed, produced, f\<lparr>myConverters := c\<rparr>)
                | IcuOk \<Rightarrow> Inr (0, consumed, produced, f\<lparr>myConverters := c, myPayloadId := myPayloadId f + 1\<rparr>))))"

section \<open>The UTF-8 string filter\<close>

text \<open>
  \<open>utf8\<close> encodes a string, \<open>decode\<close> makes the string of a NUL-terminated UTF-8 text
  (\<open>JSStringCreateWithUTF8CString\<close>); both are the engine's. The whole array buffer is taken, also for a
  typed array.
\<close>

definition underlying_buffer :: "jsval \<Rightarrow> byte list option" where
  "underlying_buffer v = (case buffer_window v of None \<Rightarrow> None | Some (b, off, n) \<Rightarrow> Some b)"

definition c_str :: "byte list \<Rightarrow> byte list" where
  "c_str b = takeWhile (\<lambda>x. x \<noteq> 0) b"

definition utf8_process ::
  "(string \<Rightarrow> byte list) \<Rightarrow> (byte list \<Rightarrow> jsval) \<Rightarrow> bool \<Rightarrow> jsval list \<Rightarrow> settle + jsval" where
  "utf8_process utf8 decode implements as =
     (if as = [] then Inr (ErrorObj ''must supply buffer to process'')
      else
        (case arg as 0 of
           Null \<Rightarrow> Inl (Resolved Null)
         | String s \<Rightarrow> Inl (Resolved (Buffer (utf8 s @ [0])))
         | v \<Rightarrow>
             if JSValueGetType v \<noteq> kObject then Inr (ErrorObj ''bad value for buffer argument'')
             else
               (case underlying_buffer v of
                  None \<Rightarrow> Inr (ErrorObj ''argument must be TypedArray or ArrayBuffer'')
                | Some b \<Rightarrow>
                    if \<not> implements then Inl (Rejected (ErrorObj ''filter object does not implement process()''))
                    else Inl (Resolved (decode (c_str b))))))"

definition utf8_processSync :: "(byte list \<Rightarrow> jsval) \<Rightarrow> bool \<Rightarrow> jsval list \<Rightarrow> jscall res" where
  "utf8_processSync decode implements as =
     (if \<not> implements then Inr (JSWrapException (Exn ''filter object does not implement processSync()''))
      else if as = [] then Inr (JSWrapException (Exn ''must supply buffer to write''))
      else if \<not> has_type as 0 kObject then Inr (JSWrapException (Exn ''bad value for buffer argument''))
      else
        (case underlying_buffer (arg as 0) of
           None \<Rightarrow> Inr (JSWrapException (Exn ''argument must be TypedArray or ArrayBuffer''))
         | Some b \<Rightarrow>
             if 0 \<in> set b then Inr (decode (c_str b), None)
             else Inl (UB ''read past the end of the buffer'')))"

section \<open>Properties\<close>

text \<open>
  When a conversion succeeds at once, the resolved array buffer holds the converted bytes, but its
  length is the estimate and not their number: it is exact only when the output has the length of the
  input, and otherwise the buffer claims memory beyond its block.
\<close>

theorem encoding_result_length:
  assumes "ucnv_convertEx icu (myConverters f) (myPayloadId f = 0) src (length src) = (consumed, produced, c, IcuOk)"
    and "length produced \<le> length src"
    and "js_process estimateOutputLength True [Buffer src] = FilterRun input ob"
  shows "\<exists>ab f'. filter_loop 1 (encoding_processBuffer icu) f input ob = Some (Inr (Inl ab, f')) \<and>
    ab_bytes ab = produced \<and> ab_length ab = length src \<and>
    (ab_length ab \<le> ab_capacity ab \<longleftrightarrow> length produced = length src)"
proof -
  have i: "input = Some src" "ob = new_out_buffer (length src)"
    using assms(3) by (auto simp: js_process_def has_type_def arg_def estimateOutputLength_def)
  then show ?thesis using assms(1,2)
    by (auto simp: filter_step_def encoding_processBuffer_def new_out_buffer_def Let_def)
qed

text \<open>A toy pair of converters: to a narrower encoding (every second byte), or a wider one (each byte twice).\<close>

fun widen :: "byte list \<Rightarrow> byte list" where
  "widen [] = []"
| "widen (b # bs) = 0 # b # widen bs"

definition toy_icu :: "bool \<Rightarrow> byte list icu" where
  "toy_icu wide = \<lparr>ucnv_open = (\<lambda>n. Inr 0), converters = (\<lambda>a b. []),
     ucnv_convertEx = (\<lambda>c flush src room.
       let out = c @ (if wide then widen src else take (length src div 2) src)
       in (length src, take room out, drop room out, if length out \<le> room then IcuOk else IcuOverflow)),
     reset_pivot = (\<lambda>c. [])\<rparr>"

definition toy_filter :: "byte list encoding_filter" where
  "toy_filter = \<lparr>myEncodingFrom = ''UTF-16'', myEncodingTo = ''US-ASCII'', myConverters = [], myPayloadId = 0\<rparr>"

theorem encoding_result_length_witness:
  "\<exists>ab f'. filter_loop 1 (encoding_processBuffer (toy_icu False)) toy_filter (Some [65, 66]) (new_out_buffer 2) =
      Some (Inr (Inl ab, f')) \<and> ab_bytes ab = [65] \<and> ab_length ab = 2 \<and> \<not> ab_length ab \<le> ab_capacity ab"
proof -
  have "js_process estimateOutputLength True [Buffer [65, 66]] = FilterRun (Some [65, 66]) (new_out_buffer 2)"
    by (simp add: js_process_def has_type_def arg_def estimateOutputLength_def numeral_2_eq_2)
  from encoding_result_length [OF _ _ this, of "toy_icu False" toy_filter 2 "[65]" "[]"] show ?thesis
    by (auto simp: toy_icu_def toy_filter_def)
qed

text \<open>
  When the output does not fit into the estimate, the rest of it is lost: after a first overflow that
  filled the buffer, the growth is not added to the room, the filter is asked again with no room,
  reports zero and the promise resolves with a buffer of twice the length of which only the first half
  was written.
\<close>

theorem encoding_overflow_truncates:
  assumes "ucnv_convertEx icu (myConverters f) (myPayloadId f = 0) src (length src) = (consumed, produced, c, IcuOverflow)"
    and "length produced = length src" "src \<noteq> []"
    and "ucnv_convertEx icu c (myPayloadId f = 0) (drop consumed src) 0 = (consumed2, [], c2, IcuOverflow)"
  shows "\<exists>ab f'. filter_loop 2 (encoding_processBuffer icu) f (Some src) (new_out_buffer (length src)) = Some (Inr (Inl ab, f')) \<and>
    ab_bytes ab = produced \<and> ab_length ab = 2 * length src"
  using assms
  by (simp add: filter_step_def encoding_processBuffer_def new_out_buffer_def Let_def numeral_2_eq_2)

theorem encoding_overflow_truncates_witness:
  "\<exists>ab f'. filter_loop 2 (encoding_processBuffer (toy_icu True)) toy_filter (Some [65, 66])
      (new_out_buffer (length [65, 66 :: byte])) = Some (Inr (Inl ab, f')) \<and>
    ab_bytes ab = [0, 65] \<and> ab_length ab = 2 * length [65, 66 :: byte]"
proof -
  have 1: "ucnv_convertEx (toy_icu True) (myConverters toy_filter) (myPayloadId toy_filter = 0) [65, 66]
      (length [65, 66 :: byte]) = (2, [0, 65], [0, 66], IcuOverflow)"
    by (simp add: toy_icu_def toy_filter_def)
  have 2: "ucnv_convertEx (toy_icu True) [0, 66] (myPayloadId toy_filter = 0) (drop 2 [65, 66]) 0 =
      (0, [], [0, 66], IcuOverflow)"
    by (simp add: toy_icu_def)
  show ?thesis by (rule encoding_overflow_truncates [OF 1 _ _ 2]) simp_all
qed


definition ascii :: "string \<Rightarrow> byte list" where
  "ascii s = map of_char s"

definition from_ascii :: "byte list \<Rightarrow> jsval" where
  "from_ascii b = String (map (\<lambda>x. char_of (unat x)) b)"


text \<open>
  \<open>process\<close> and \<open>processSync\<close> ignore the window of a typed array and take the whole buffer behind it,
  up to its first NUL; \<open>processSync\<close> has no length at all, so on a buffer without a NUL byte it reads past
  the end.
\<close>

lemma utf8_ignores_window:
  "utf8_process utf8 decode True [View b off n] = utf8_process utf8 decode True [Buffer b] \<and>
   utf8_processSync decode True [View b off n] =
     (if 0 \<in> set b then Inr (decode (c_str b), None) else Inl (UB ''read past the end of the buffer''))"
  by (simp add: utf8_process_def utf8_processSync_def arg_def has_type_def underlying_buffer_def)

end
