(* ===== verification/ModuleLoader.thy ===== *)
theory ModuleLoader
  imports JsValues Scheduler
begin

text \<open>
  The module loader (\<open>src/global_object.cpp\<close>): directory names, the resolution of module names, the URLs,
  fetching from the file system and over the network, and the hooks of the engine.

  The file system, \<open>boost::filesystem\<close> and \<open>libcurl\<close> are outside the sources: what the loader uses of them is
  in the parameters \<open>fs\<close> and \<open>curl\<close>. Paths are strings; the separator is that of unix.
\<close>

section \<open>Paths\<close>

definition sep :: char where
  "sep = CHR 0x2F"

text \<open>\<open>splitAllowingEmptyEntries\<close>: the pieces between the separators, the empty ones too.\<close>

fun split_at :: "char \<Rightarrow> string \<Rightarrow> string list" where
  "split_at c [] = [[]]"
| "split_at c (x # xs) =
     (if x = c then [] # split_at c xs
      else case split_at c xs of [] \<Rightarrow> [[x]] | p # ps \<Rightarrow> (x # p) # ps)"

text \<open>The loop at the end of \<open>resolvePath\<close>: the pieces with a separator between two of them.\<close>

fun join_pieces :: "string list \<Rightarrow> string" where
  "join_pieces [] = []"
| "join_pieces [p] = p"
| "join_pieces (p # q # ps) = p @ sep # join_pieces (q # ps)"

record DirectoryName =
  rootName :: string
  queryName :: string

type_synonym ModuleName = "string list"

definition ModuleName :: "string \<Rightarrow> ModuleName" where
  "ModuleName moduleName = split_at sep moduleName"

definition startsWithRoot :: "ModuleName \<Rightarrow> bool" where
  "startsWithRoot queries \<longleftrightarrow> queries \<noteq> [] \<and> queries ! 0 = []"

text \<open>Positions of the first and of the last occurrence of a character.\<close>

fun find_char :: "char \<Rightarrow> string \<Rightarrow> nat option" where
  "find_char c [] = None"
| "find_char c (x # xs) = (if x = c then Some 0 else map_option Suc (find_char c xs))"

definition reverse_find :: "char \<Rightarrow> string \<Rightarrow> nat option" where
  "reverse_find c s = map_option (\<lambda>i. length s - 1 - i) (find_char c (rev s))"

definition extractDirectoryName :: "string \<Rightarrow> DirectoryName option" where
  "extractDirectoryName absolutePathToFile =
     (case find_char sep absolutePathToFile of
        None \<Rightarrow> None
      | Some firstPos \<Rightarrow>
          (case reverse_find sep absolutePathToFile of
             None \<Rightarrow> None
           | Some lastPos \<Rightarrow>
               Some \<lparr>rootName = take (firstPos + 1) absolutePathToFile,
                     queryName = (if firstPos = lastPos then []
                                  else take (lastPos - (firstPos + 1)) (drop (firstPos + 1) absolutePathToFile))\<rparr>))"

definition resolve_piece :: "string \<Rightarrow> string list \<Rightarrow> string list" where
  "resolve_piece query pieces =
     (if query = ''..'' then (if pieces \<noteq> [] then butlast pieces else pieces)
      else if query \<noteq> [] \<and> query \<noteq> ''.'' then pieces @ [query]
      else pieces)"

definition resolvePath :: "DirectoryName \<Rightarrow> ModuleName \<Rightarrow> string" where
  "resolvePath directoryName moduleName =
     (let directoryPieces = split_at sep (queryName directoryName);
          start = (if startsWithRoot moduleName then [] else directoryPieces)
      in rootName directoryName @ join_pieces (fold resolve_piece moduleName start))"

definition currentWorkingDirectory :: "string \<Rightarrow> DirectoryName option" where
  "currentWorkingDirectory current_path =
     (if current_path = [] then None
      else if last current_path = sep then extractDirectoryName current_path
      else extractDirectoryName (current_path @ [sep]))"

section \<open>URLs\<close>

text \<open>
  The match of \<open>URL_REGEX\<close>. None of its character classes contains the blank, so a text with a blank does
  not match. On any other text the greedy choice of every part succeeds, each part ending where the next
  separator stops it.
\<close>

record sURL =
  protocol :: string
  domain :: string
  port :: string
  path :: string
  query :: string

definition alnum :: "char \<Rightarrow> bool" where
  "alnum c = (let n = of_char c :: nat in 48 \<le> n \<and> n \<le> 57 \<or> 65 \<le> n \<and> n \<le> 90 \<or> 97 \<le> n \<and> n \<le> 122)"

definition optional :: "char \<Rightarrow> string \<Rightarrow> string" where
  "optional c s = (case s of [] \<Rightarrow> [] | x # xs \<Rightarrow> if x = c then xs else s)"

definition match_protocol :: "string \<Rightarrow> string \<times> string" where
  "match_protocol s =
     (let name = takeWhile alnum s; rest = dropWhile alnum s
      in if name \<noteq> [] \<and> take 3 rest = ''://'' then (name @ ''://'', drop 3 rest) else ([], s))"

definition parseURL :: "string \<Rightarrow> sURL res" where
  "parseURL url =
     (if CHR '' '' \<in> set url then Inl (Exn ''Invalid URL'')
      else
        (let (proto, s1) = match_protocol url;
             in_domain = (\<lambda>c. c \<noteq> sep \<and> c \<noteq> CHR '':'');
             dom = takeWhile in_domain s1;
             s2 = optional (CHR '':'') (dropWhile in_domain s1);
             prt = takeWhile (\<lambda>c. c \<noteq> sep) s2;
             s3 = dropWhile (\<lambda>c. c \<noteq> sep) s2;
             in_path = (\<lambda>c. c \<noteq> CHR ''#'' \<and> c \<noteq> CHR ''?'');
             pth = takeWhile in_path s3;
             s4 = optional (CHR ''?'') (dropWhile in_path s3);
             qry = takeWhile (\<lambda>c. c \<noteq> CHR ''#'') s4
         in Inr \<lparr>protocol = proto, domain = dom, port = prt, path = pth, query = qry\<rparr>))"

definition isURL :: "string \<Rightarrow> bool" where
  "isURL url \<longleftrightarrow> CHR '' '' \<notin> set url \<and> fst (match_protocol url) \<noteq> []"

section \<open>Fetching\<close>

definition convertShebangToJSComment :: "byte list \<Rightarrow> byte list" where
  "convertShebangToJSComment buffer =
     (if 2 \<le> length buffer \<and> buffer ! 0 = 0x23 \<and> buffer ! 1 = 0x21 then buffer[1 := 0x2F, 0 := 0x2F] else buffer)"

text \<open>
  What the loader asks of the file system: \<open>fs_exists\<close> and \<open>fs_is_directory\<close> may throw, \<open>fs_open\<close> gives the
  bytes a stream on the path delivers, or \<open>None\<close> when it cannot be opened; \<open>fs_bad\<close> says whether the bad
  bit of the new stream is set (a failure to open sets the fail bit). \<open>path_append\<close> is \<open>path::append\<close>.
\<close>

record fs =
  fs_exists :: "string \<Rightarrow> string + bool"
  fs_is_directory :: "string \<Rightarrow> string + bool"
  fs_open :: "string \<Rightarrow> byte list option"
  fs_bad :: "string \<Rightarrow> bool"
  path_append :: "string \<Rightarrow> string \<Rightarrow> string"
  remove_filename :: "string \<Rightarrow> string"

text \<open>
  \<open>fetchModuleFromLocalFileSystem\<close>: whether it succeeds, and the buffer, to which a stream that is not open
  adds nothing. The chain of directories named \<open>index\<close> it follows is as long as the file system makes it,
  so the recursion has fuel.
\<close>

fun try_extensions :: "fs \<Rightarrow> string \<Rightarrow> string list \<Rightarrow> string + string option" where
  "try_extensions F p [] = Inr None"
| "try_extensions F p (ext # exts) =
     (case fs_exists F (p @ ext) of
        Inl e \<Rightarrow> Inl e
      | Inr True \<Rightarrow> Inr (Some (p @ ext))
      | Inr False \<Rightarrow> try_extensions F p exts)"

definition extensions :: "string list" where
  "extensions = [''.mjs'', ''.js'']"

definition read_module :: "fs \<Rightarrow> string \<Rightarrow> byte list \<Rightarrow> bool \<times> byte list" where
  "read_module F p buffer =
     (if fs_bad F p then (False, buffer)
      else (True, convertShebangToJSComment (buffer @ (case fs_open F p of None \<Rightarrow> [] | Some b \<Rightarrow> b))))"

fun fetchModuleFromLocalFileSystem :: "nat \<Rightarrow> fs \<Rightarrow> string \<Rightarrow> byte list \<Rightarrow> (bool \<times> byte list) option" where
  "fetchModuleFromLocalFileSystem 0 F p buffer = None"
| "fetchModuleFromLocalFileSystem (Suc n) F p buffer =
     (case fs_exists F p of
        Inl e \<Rightarrow> Some (False, buffer)
      | Inr False \<Rightarrow>
          (case try_extensions F p extensions of
             Inl e \<Rightarrow> Some (False, buffer)
           | Inr None \<Rightarrow> Some (False, buffer)
           | Inr (Some q) \<Rightarrow> fetchModuleFromLocalFileSystem n F q buffer)
      | Inr True \<Rightarrow>
          (case fs_is_directory F p of
             Inl e \<Rightarrow> Some (False, buffer)
           | Inr True \<Rightarrow> fetchModuleFromLocalFileSystem n F (path_append F p ''index'') buffer
           | Inr False \<Rightarrow> Some (read_module F p buffer)))"

text \<open>
  \<open>libcurl\<close>: whether the global and the session initialisation succeed, how many of the six \<open>setopt\<close> calls
  succeed, and the pieces of the body that are received, with what the transfer would end with when the callback takes
  them all. The result carries the number of sessions that were opened and not cleaned up.
\<close>

record curl =
  global_init :: bool
  easy_init :: bool
  setopts :: "bool list"
  perform :: "string \<Rightarrow> bool \<times> byte list list"

text \<open>
  \<open>curlWriteCallback\<close> appends a piece to the buffer (\<open>None\<close>: a null pointer) and returns how much it took; \<open>libcurl\<close> ends a
  transfer with an error when that is not the size of the piece.
\<close>

definition curlWriteCallback :: "byte list \<Rightarrow> byte list option \<Rightarrow> nat \<times> byte list option" where
  "curlWriteCallback piece userdata =
     (case userdata of None \<Rightarrow> (0, None) | Some buf \<Rightarrow> (length piece, Some (buf @ piece)))"

fun curl_transfer :: "byte list list \<Rightarrow> bool \<Rightarrow> byte list \<Rightarrow> bool \<times> byte list" where
  "curl_transfer [] ok buffer = (ok, buffer)"
| "curl_transfer (piece # pieces) ok buffer =
     (case curlWriteCallback piece (Some buffer) of
        (n, userdata) \<Rightarrow>
          (let buffer1 = (case userdata of None \<Rightarrow> buffer | Some b \<Rightarrow> b)
           in if n \<noteq> length piece then (False, buffer1) else curl_transfer pieces ok buffer1))"

lemma curl_transfer_eq: "curl_transfer pieces ok buffer = (ok, buffer @ concat pieces)"
  by (induction pieces arbitrary: buffer) (simp_all add: curlWriteCallback_def)

definition fetchModuleFromURL :: "curl \<Rightarrow> bool \<Rightarrow> string \<Rightarrow> byte list \<Rightarrow> bool \<times> byte list \<times> int \<times> bool" where
  "fetchModuleFromURL C init url buffer =
     (if \<not> init \<and> \<not> global_init C then (False, buffer, 0, init)
      else if \<not> easy_init C then (False, buffer, 0, True)
      else
        (let sessions = (1 :: int) in
         if \<not> list_all (\<lambda>ok. ok) (setopts C) then (False, buffer, sessions - 1, True)
         else
           (let (outcome, pieces) = perform C url; (ok, buffer1) = curl_transfer pieces outcome buffer
            in if \<not> ok then (False, buffer1, sessions - 1, True)
               else (True, convertShebangToJSComment buffer1, sessions - 1, True))))"

section \<open>The hooks of the engine\<close>

datatype property_key = SymbolKey nat | StringKey string

definition queueTaskToEventLoop :: "nat \<Rightarrow> sched \<Rightarrow> (nat \<times> sched) res" where
  "queueTaskToEventLoop microtask s = scheduleTask (Some [Host microtask]) s"

text \<open>\<open>importModule\<close>: the key that is imported, or the error of the rejected promise.\<close>

definition moduleLoaderImportModule :: "string option \<Rightarrow> jsval + string \<Rightarrow> jsval + string" where
  "moduleLoaderImportModule sourceOrigin moduleNameValue =
     (case sourceOrigin of
        None \<Rightarrow> Inl (ErrorObj ''Could not resolve the module specifier.'')
      | Some referrer \<Rightarrow>
          (case moduleNameValue of
             Inl e \<Rightarrow> Inl e
           | Inr moduleName \<Rightarrow>
               (case extractDirectoryName referrer of
                  None \<Rightarrow> Inl (ErrorObj (''Could not resolve the referrer name '' @ [CHR 0x27] @ referrer @ [CHR 0x27] @ ''.''))
                | Some directoryName \<Rightarrow> Inr (resolvePath directoryName (ModuleName moduleName)))))"

definition moduleLoaderResolve ::
  "fs \<Rightarrow> string \<Rightarrow> property_key \<Rightarrow> property_key option \<Rightarrow> jsval + property_key" where
  "moduleLoaderResolve F scriptPath key referrerValue =
     (let cwd_error = ErrorObj ''Could not resolve the current working directory.''
      in case key of
           SymbolKey n \<Rightarrow> Inr key
         | StringKey k \<Rightarrow>
             (case referrerValue of
                None \<Rightarrow>
                  (case extractDirectoryName scriptPath of
                     None \<Rightarrow> Inl cwd_error
                   | Some dir \<Rightarrow> Inr (StringKey (resolvePath dir (ModuleName k))))
              | Some referrer \<Rightarrow>
                  (let url = (case parseURL k of
                                Inr u \<Rightarrow> u
                              | Inl _ \<Rightarrow> \<lparr>protocol = [], domain = [], port = [], path = k, query = []\<rparr>);
                       name = ModuleName (path_append F (domain url) (path url))
                   in if protocol url \<noteq> [] then Inr (StringKey k)
                      else
                        (case referrer of
                           SymbolKey n \<Rightarrow>
                             (case extractDirectoryName scriptPath of
                                None \<Rightarrow> Inl cwd_error
                              | Some dir \<Rightarrow> Inr (StringKey (resolvePath dir name)))
                         | StringKey r \<Rightarrow>
                             (case extractDirectoryName r of
                                None \<Rightarrow> Inl (ErrorObj (''Could not resolve the referrer name '' @ [CHR 0x27] @ r @ [CHR 0x27] @ ''.''))
                              | Some dir \<Rightarrow> Inr (StringKey (resolvePath dir name)))))))"

text \<open>
  \<open>fetch\<close>: the source bytes and whether a syntax error was reported, or the error; a syntax error does not
  reject. \<open>None\<close> when the fuel runs out.
\<close>

definition moduleLoaderFetch ::
  "nat \<Rightarrow> fs \<Rightarrow> curl \<Rightarrow> bool \<Rightarrow> (byte list \<Rightarrow> bool) \<Rightarrow> jsval + string \<Rightarrow> (jsval + byte list \<times> bool) option" where
  "moduleLoaderFetch fuel F C init checkModuleSyntax key =
     (case key of
        Inl e \<Rightarrow> Some (Inl e)
      | Inr moduleKey \<Rightarrow>
          (let quoted = [CHR 0x27] @ moduleKey @ [CHR 0x27] @ ''.'';
               loaded = (\<lambda>buffer. Inr (buffer, \<not> checkModuleSyntax buffer))
           in if isURL moduleKey then
                (case fetchModuleFromURL C init moduleKey [] of
                   (ok, buffer, _) \<Rightarrow>
                     Some (if ok then loaded buffer else Inl (ErrorObj (''Could not open URL '' @ quoted))))
              else
                (case fetchModuleFromLocalFileSystem fuel F moduleKey [] of
                   None \<Rightarrow> None
                 | Some (ok, buffer) \<Rightarrow>
                     Some (if ok then loaded buffer else Inl (ErrorObj (''Could not open file '' @ quoted))))))"

definition moduleLoaderCreateImportMetaProperties :: "fs \<Rightarrow> property_key \<Rightarrow> (string \<times> property_key) list" where
  "moduleLoaderCreateImportMetaProperties F key =
     [(''filename'', key), (''url'', key)] @
     (case key of SymbolKey n \<Rightarrow> [] | StringKey k \<Rightarrow> [(''dirname'', StringKey (remove_filename F k))])"

end
