(* ===== verification/ModuleProps.thy ===== *)
theory ModuleProps
  imports ModuleLoader
begin

text \<open>The properties of the module loader: resolution normalises, composes and is stable; what a fetch finds.\<close>

section \<open>Splitting and joining\<close>

lemma split_at_not_empty [simp]: "split_at c s \<noteq> []"
  by (cases s) (auto split: list.splits)

lemma split_at_pieces: "p \<in> set (split_at c s) \<Longrightarrow> c \<notin> set p"
  by (induction s arbitrary: p) (auto split: if_splits list.splits)

lemma split_at_append: "split_at c (a @ c # b) = split_at c a @ split_at c b"
  by (induction a) (auto split: list.splits)

lemma split_at_single: "c \<notin> set p \<Longrightarrow> split_at c p = [p]"
  by (induction p) auto

lemma join_snoc: "ps \<noteq> [] \<Longrightarrow> join_pieces (ps @ [f]) = join_pieces ps @ sep # f"
  by (induction ps rule: join_pieces.induct) auto

lemma split_join:
  "ps \<noteq> [] \<Longrightarrow> (\<And>p. p \<in> set ps \<Longrightarrow> sep \<notin> set p) \<Longrightarrow> split_at sep (join_pieces ps) = ps"
  by (induction ps rule: join_pieces.induct) (auto simp: split_at_single split_at_append)

text \<open>A clean piece names a file or a directory: it is neither empty, \<open>.\<close> nor \<open>..\<close>.\<close>

definition clean :: "string \<Rightarrow> bool" where
  "clean p \<longleftrightarrow> p \<noteq> [] \<and> p \<noteq> ''.'' \<and> p \<noteq> ''..'' \<and> sep \<notin> set p"

lemma resolve_clean: "clean q \<Longrightarrow> resolve_piece q ps = ps @ [q]"
  by (simp add: clean_def resolve_piece_def)

lemma fold_resolve_clean: "(\<And>q. q \<in> set qs \<Longrightarrow> clean q) \<Longrightarrow> fold resolve_piece qs ps = ps @ qs"
  by (induction qs arbitrary: ps) (auto simp: resolve_clean)

lemma fold_resolve_keeps_clean:
  "(\<And>p. p \<in> set ps \<Longrightarrow> clean p) \<Longrightarrow> (\<And>q. q \<in> set qs \<Longrightarrow> sep \<notin> set q) \<Longrightarrow>
    p \<in> set (fold resolve_piece qs ps) \<Longrightarrow> clean p"
proof (induction qs arbitrary: ps)
  case (Cons q qs)
  have "clean x" if "x \<in> set (resolve_piece q ps)" for x
    using that Cons.prems(1,2) by (auto simp: resolve_piece_def clean_def dest: in_set_butlastD split: if_splits)
  with Cons.IH [of "resolve_piece q ps"] Cons.prems(2,3) show ?case by simp
qed simp

definition clean_dir :: "DirectoryName \<Rightarrow> bool" where
  "clean_dir d \<longleftrightarrow> rootName d = [sep] \<and> (\<forall>p \<in> set (split_at sep (queryName d)). clean p)"

text \<open>The directory a name leads to, as the list of its components.\<close>

definition resolved :: "DirectoryName \<Rightarrow> ModuleName \<Rightarrow> string list" where
  "resolved d m = fold resolve_piece m (if startsWithRoot m then [] else split_at sep (queryName d))"

lemma resolvePath_resolved: "resolvePath d m = rootName d @ join_pieces (resolved d m)"
  by (simp add: resolvePath_def resolved_def Let_def)

lemma resolved_clean: "clean_dir d \<Longrightarrow> p \<in> set (resolved d (ModuleName m)) \<Longrightarrow> clean p"
  unfolding resolved_def ModuleName_def clean_dir_def
  by (erule fold_resolve_keeps_clean [rotated 2]) (auto dest: split_at_pieces split: if_splits)

lemma starts_append: "startsWithRoot (ModuleName (a @ sep # b)) = startsWithRoot (ModuleName a)"
  by (simp add: startsWithRoot_def ModuleName_def split_at_append nth_append)

lemma resolved_append: "resolved d (ModuleName (a @ sep # b)) = fold resolve_piece (ModuleName b) (resolved d (ModuleName a))"
  unfolding resolved_def starts_append by (simp add: ModuleName_def split_at_append)

section \<open>Directories\<close>

lemma find_char_append: "c \<notin> set a \<Longrightarrow> find_char c (a @ c # b) = Some (length a)"
  by (induction a) auto

lemma find_char_None: "find_char c s = None \<longleftrightarrow> c \<notin> set s"
  by (induction s) auto

lemma reverse_find_last: "c \<notin> set f \<Longrightarrow> reverse_find c (a @ c # f) = Some (length a)"
  using find_char_append [of c "rev f" "rev a"] by (simp add: reverse_find_def)

lemma extract_root: "\<exists>d. extractDirectoryName (sep # r) = Some d \<and> rootName d = [sep]"
proof -
  obtain i where "reverse_find sep (sep # r) = Some i"
    using find_char_None [of sep "rev r @ [sep]"] by (fastforce simp: reverse_find_def)
  then show ?thesis by (simp add: extractDirectoryName_def)
qed

lemma extract_resolved:
  assumes "ps \<noteq> []" "clean f"
  shows "extractDirectoryName (sep # join_pieces (ps @ [f])) = Some \<lparr>rootName = [sep], queryName = join_pieces ps\<rparr>"
proof -
  have "reverse_find sep (sep # join_pieces (ps @ [f])) = Some (Suc (length (join_pieces ps)))"
    using reverse_find_last [of sep f "sep # join_pieces ps"] assms by (simp add: join_snoc clean_def)
  then show ?thesis using assms by (simp add: extractDirectoryName_def join_snoc)
qed

text \<open>
  C37. Resolution normalises and composes: from a normal directory, every name resolves to an absolute path
  without empty, \<open>.\<close> and \<open>..\<close> components; and what a module at \<open>a/f\<close> imports as \<open>b\<close> is what its importer
  would reach as \<open>a/b\<close>, as long as the module is not directly in the root.
\<close>

theorem resolution_composes:
  assumes "clean_dir d" "clean f" "resolved d (ModuleName a) \<noteq> []" "\<not> startsWithRoot (ModuleName b)"
  shows "\<exists>d'. extractDirectoryName (resolvePath d (ModuleName (a @ sep # f))) = Some d' \<and> clean_dir d' \<and>
    resolvePath d' (ModuleName b) = resolvePath d (ModuleName (a @ sep # b)) \<and>
    (\<forall>p \<in> set (resolved d' (ModuleName b)). clean p)"
proof -
  let ?ps = "resolved d (ModuleName a)"
  let ?d' = "\<lparr>rootName = [sep], queryName = join_pieces ?ps\<rparr>"
  have root: "rootName d = [sep]" using assms(1) by (simp add: clean_dir_def)
  have ps: "clean p" if "p \<in> set ?ps" for p by (rule resolved_clean [OF assms(1) that])
  then have s: "split_at sep (join_pieces ?ps) = ?ps"
    using assms(3) by (intro split_join) (auto simp: clean_def)
  then have d': "clean_dir ?d'" using ps by (simp add: clean_dir_def)
  have "ModuleName f = [f]" using assms(2) by (simp add: ModuleName_def split_at_single clean_def)
  then have "resolved d (ModuleName (a @ sep # f)) = ?ps @ [f]"
    using resolve_clean [OF assms(2)] by (simp add: resolved_append)
  then have "extractDirectoryName (resolvePath d (ModuleName (a @ sep # f))) = Some ?d'"
    using extract_resolved [OF assms(3,2)] root by (simp add: resolvePath_resolved)
  moreover have "resolved ?d' (ModuleName b) = resolved d (ModuleName (a @ sep # b))"
    using assms(4) s by (simp add: resolved_append) (simp add: resolved_def)
  moreover have "\<forall>p \<in> set (resolved ?d' (ModuleName b)). clean p"
    using resolved_clean [OF d'] by blast
  ultimately show ?thesis using d' root by (auto simp: resolvePath_resolved)
qed

theorem resolution_composes_witness:
  "\<exists>d'. extractDirectoryName (resolvePath \<lparr>rootName = [sep], queryName = ''app''\<rparr> (ModuleName ''./lib/m.js'')) = Some d' \<and>
    resolvePath d' (ModuleName ''../x.js'') = ''/app/x.js''"
proof -
  let ?d = "\<lparr>rootName = [sep], queryName = ''app''\<rparr>"
  have 1: "clean_dir ?d" "clean ''m.js''" "\<not> startsWithRoot (ModuleName ''../x.js'')"
    by (simp_all add: clean_dir_def clean_def sep_def startsWithRoot_def ModuleName_def)
  have 2: "resolved ?d (ModuleName ''./lib'') \<noteq> []"
    by (simp add: resolved_def startsWithRoot_def ModuleName_def sep_def resolve_piece_def)
  have 3: "resolvePath ?d (ModuleName (''./lib'' @ sep # ''../x.js'')) = ''/app/x.js''"
    by (simp add: resolvePath_def startsWithRoot_def ModuleName_def sep_def resolve_piece_def)
  have 4: "''./lib'' @ sep # ''m.js'' = ''./lib/m.js''" by (simp add: sep_def)
  from resolution_composes [OF 1(1,2) 2 1(3)] show ?thesis unfolding 3 4 by blast
qed

text \<open>A module directly in the root is the exception: its directory has one empty component.\<close>

lemma root_module_doubles_separator:
  "\<exists>d. extractDirectoryName ''/m.js'' = Some d \<and> resolvePath d (ModuleName ''./x.js'') = ''//x.js''"
  by (simp add: extractDirectoryName_def reverse_find_def sep_def resolvePath_def ModuleName_def startsWithRoot_def
      resolve_piece_def)

section \<open>Keys\<close>

text \<open>\<open>path::append\<close> as \<open>boost::filesystem\<close> documents it for the empty left path.\<close>

definition append_empty :: "fs \<Rightarrow> bool" where
  "append_empty F \<longleftrightarrow> (\<forall>p. path_append F [] p = p)"

lemma parse_absolute:
  assumes "CHR '' '' \<notin> set r" "CHR ''#'' \<notin> set r" "CHR ''?'' \<notin> set r"
  shows "parseURL (sep # r) = Inr \<lparr>protocol = [], domain = [], port = [], path = sep # r, query = []\<rparr>"
proof -
  have m: "match_protocol (sep # r) = ([], sep # r)" by (simp add: match_protocol_def alnum_def sep_def)
  have r: "\<forall>x \<in> set r. x \<noteq> CHR ''#'' \<and> x \<noteq> CHR ''?''" using assms(2,3) by auto
  then have w: "takeWhile (\<lambda>c. c \<noteq> CHR ''#'' \<and> c \<noteq> CHR ''?'') r = r"
      "dropWhile (\<lambda>c. c \<noteq> CHR ''#'' \<and> c \<noteq> CHR ''?'') r = []"
    by (simp_all only: takeWhile_eq_all_conv dropWhile_eq_Nil_conv)
  have s: "sep \<noteq> CHR ''#''" "sep \<noteq> CHR ''?''" "sep \<noteq> CHR '':''" "CHR '' '' \<noteq> sep" by (simp_all add: sep_def)
  show ?thesis using assms(1) s r by (simp add: parseURL_def m Let_def w optional_def)
qed

text \<open>
  Keys are stable: a key that resolution has produced resolves to itself, from whatever module it is
  asked for again, so a module is loaded under one key only.
\<close>

theorem resolved_key_stable:
  assumes "append_empty F" "ps \<noteq> []" "\<forall>p \<in> set ps. clean p"
    and "set (join_pieces ps) \<inter> {CHR '' '', CHR ''#'', CHR ''?''} = {}"
  shows "moduleLoaderResolve F scriptPath (StringKey (sep # join_pieces ps)) (Some (StringKey (sep # r))) =
    Inr (StringKey (sep # join_pieces ps))"
proof -
  let ?k = "sep # join_pieces ps"
  have u: "parseURL ?k = Inr \<lparr>protocol = [], domain = [], port = [], path = ?k, query = []\<rparr>"
    using assms(4) by (intro parse_absolute) auto
  have a: "path_append F [] ?k = ?k" using assms(1) by (simp add: append_empty_def)
  obtain d where d: "extractDirectoryName (sep # r) = Some d" "rootName d = [sep]" using extract_root by blast
  have m: "ModuleName ?k = [] # ps"
    using split_join [OF assms(2)] assms(3) by (simp add: ModuleName_def clean_def)
  have "resolved d ([] # ps) = ps"
    using fold_resolve_clean [of ps "[]"] assms(3)
    by (simp add: resolved_def startsWithRoot_def resolve_piece_def)
  then have "resolvePath d (ModuleName ?k) = ?k" by (simp add: resolvePath_resolved m d(2))
  then show ?thesis using a d by (simp add: moduleLoaderResolve_def u Let_def)
qed

definition sample_fs :: "(string \<rightharpoonup> byte list) \<Rightarrow> string list \<Rightarrow> fs" where
  "sample_fs files dirs =
     \<lparr>fs_exists = (\<lambda>p. Inr (files p \<noteq> None \<or> p \<in> set dirs)), fs_is_directory = (\<lambda>p. Inr (p \<in> set dirs)),
      fs_open = files, fs_bad = (\<lambda>p. False),
      path_append = (\<lambda>a b. if a = [] then b else a @ (if take 1 b = [sep] then b else sep # b)),
      remove_filename = (\<lambda>p. rev (drop 1 (dropWhile (\<lambda>c. c \<noteq> sep) (rev p))))\<rparr>"

theorem resolved_key_stable_witness:
  "moduleLoaderResolve (sample_fs Map.empty []) [] (StringKey (sep # join_pieces [''a'', ''b.js'']))
     (Some (StringKey (sep # ''z''))) = Inr (StringKey (sep # join_pieces [''a'', ''b.js'']))"
  by (rule resolved_key_stable) (auto simp: append_empty_def sample_fs_def clean_def sep_def)

text \<open>Not every key is a path: what follows a question mark is cut off, and so is a port.\<close>

lemma query_is_lost:
  "moduleLoaderResolve (sample_fs Map.empty []) [] (StringKey ''./a?b.js'') (Some (StringKey ''/d/e'')) = Inr (StringKey ''/d/a'')"
  by code_simp

section \<open>Fetching\<close>

definition plain_file :: "fs \<Rightarrow> string \<Rightarrow> byte list \<Rightarrow> bool" where
  "plain_file F p b \<longleftrightarrow>
     fs_exists F p = Inr True \<and> fs_is_directory F p = Inr False \<and> \<not> fs_bad F p \<and> fs_open F p = Some b"

definition missing :: "fs \<Rightarrow> string \<Rightarrow> bool" where
  "missing F p \<longleftrightarrow> fs_exists F p = Inr False"

text \<open>The file a name stands for: itself, or with \<open>.mjs\<close>, or with \<open>.js\<close>, the first that exists.\<close>

definition locates :: "fs \<Rightarrow> string \<Rightarrow> byte list \<Rightarrow> bool" where
  "locates F p b \<longleftrightarrow>
     plain_file F p b \<or> missing F p \<and> plain_file F (p @ ''.mjs'') b \<or>
     missing F p \<and> missing F (p @ ''.mjs'') \<and> plain_file F (p @ ''.js'') b"

lemma shebang_length: "length (convertShebangToJSComment b) = length b"
  by (simp add: convertShebangToJSComment_def)

lemma fetch_plain:
  "plain_file F p b \<Longrightarrow> fetchModuleFromLocalFileSystem (Suc n) F p [] = Some (True, convertShebangToJSComment b)"
  by (simp add: plain_file_def read_module_def)

lemma fetch_locates:
  assumes "locates F p b"
  shows "fetchModuleFromLocalFileSystem (Suc (Suc n)) F p [] = Some (True, convertShebangToJSComment b)"
proof -
  have "fetchModuleFromLocalFileSystem (Suc (Suc n)) F p [] = fetchModuleFromLocalFileSystem (Suc n) F q []"
    if "missing F p" "try_extensions F p extensions = Inr (Some q)" for q
    using that by (simp add: missing_def)
  moreover have "try_extensions F p extensions = Inr (Some (p @ ''.mjs''))" if "plain_file F (p @ ''.mjs'') b"
    using that by (simp add: extensions_def plain_file_def)
  moreover have "try_extensions F p extensions = Inr (Some (p @ ''.js''))"
    if "missing F (p @ ''.mjs'')" "plain_file F (p @ ''.js'') b"
    using that by (simp add: extensions_def plain_file_def missing_def)
  ultimately show ?thesis using assms fetch_plain [of F _ b] unfolding locates_def by metis
qed



text \<open>
  A file that cannot be opened is loaded as an empty module: \<open>bad\<close> does not report a failure to open.
\<close>

lemma unreadable_file_is_empty_module:
  "fs_exists F p = Inr True \<Longrightarrow> fs_is_directory F p = Inr False \<Longrightarrow> fs_open F p = None \<Longrightarrow> \<not> fs_bad F p \<Longrightarrow>
    fetchModuleFromLocalFileSystem (Suc n) F p [] = Some (True, [])"
  by (simp add: read_module_def convertShebangToJSComment_def)

text \<open>A module fetched over the network is all of its pieces, in order.\<close>

lemma url_fetch_concatenates:
  assumes "init \<or> global_init C" "easy_init C" "list_all (\<lambda>ok. ok) (setopts C)" "perform C url = (True, pieces)"
  shows "fetchModuleFromURL C init url [] = (True, convertShebangToJSComment (concat pieces), 0, True)"
  using assms by (auto simp: fetchModuleFromURL_def curl_transfer_eq Let_def)

text \<open>A fetch over the network cleans up every session it opens, whatever fails.\<close>

lemma url_sessions_closed: "fst (snd (snd (fetchModuleFromURL C init url buffer))) = 0"
  by (simp add: fetchModuleFromURL_def Let_def split: prod.splits)

end
