(* ===== verification/Promises.thy ===== *)
theory Promises
  imports Emitter
begin

text \<open>
  Native promises (\<open>src/globals/promise.cpp\<close>): how an executor written in C++ settles a promise of the
  engine and which protections it holds meanwhile, the detour through a task for callers that run inside a
  coroutine, and \<open>Promise.all\<close>, \<open>resolve\<close> and \<open>reject\<close>.
\<close>

section \<open>The promise and its capability\<close>

text \<open>
  The engine gives the executor two functions; the first call of either settles the promise, later calls
  have no effect. \<open>pr_carrier\<close> is the object that carries the executor. \<open>pr_throws\<close> says which values make the
  resolving function throw.
\<close>

record promise =
  pr_carrier :: jsval
  pr_resolve :: jsval
  pr_reject :: jsval
  pr_throws :: "jsval \<Rightarrow> jsval option"
  pr_state :: "settle option"

definition engine_settle :: "settle \<Rightarrow> promise \<Rightarrow> promise" where
  "engine_settle s pr = (if pr_state pr = None then pr\<lparr>pr_state := Some s\<rparr> else pr)"

definition unprotect_all :: "promise \<Rightarrow> protects \<Rightarrow> protects" where
  "unprotect_all pr p =
     JSValueUnprotect (pr_carrier pr) (JSValueUnprotect (pr_reject pr) (JSValueUnprotect (pr_resolve pr) p))"

text \<open>
  The handlers given to the executor. From a coroutine (\<open>yields\<close>) they protect the value, settle in a
  scheduled task and wait for it; the task gives the value back as well.
\<close>

definition resolve_handler :: "bool \<Rightarrow> jsval \<Rightarrow> promise \<times> protects \<Rightarrow> promise \<times> protects" where
  "resolve_handler yields v = (\<lambda>(pr, p).
     (let p1 = (if yields then JSValueProtect v p else p);
          pr1 = (case pr_throws pr v of None \<Rightarrow> engine_settle (Resolved v) pr | Some e \<Rightarrow> engine_settle (Rejected e) pr);
          p2 = unprotect_all pr p1
      in (pr1, if yields then JSValueUnprotect v p2 else p2)))"

definition reject_handler :: "bool \<Rightarrow> jsval \<Rightarrow> promise \<times> protects \<Rightarrow> promise \<times> protects" where
  "reject_handler yields v = (\<lambda>(pr, p).
     (let p1 = (if yields then JSValueProtect v p else p);
          pr1 = engine_settle (Rejected v) pr;
          p2 = unprotect_all pr p1
      in (pr1, if yields then JSValueUnprotect v p2 else p2)))"

text \<open>
  An executor: the calls it makes of its handlers, with \<open>canYield\<close> at the time of each, and the exception it
  ends with. Calls after it has returned (from a task or from an asynchronous operation) are \<open>later_calls\<close>.
\<close>

datatype executor_call = CallResolve bool jsval | CallReject bool jsval

fun run_call :: "executor_call \<Rightarrow> promise \<times> protects \<Rightarrow> promise \<times> protects" where
  "run_call (CallResolve y v) st = resolve_handler y v st"
| "run_call (CallReject y v) st = reject_handler y v st"

definition later_calls :: "executor_call list \<Rightarrow> promise \<times> protects \<Rightarrow> promise \<times> protects" where
  "later_calls cs st = fold run_call cs st"

text \<open>\<open>None\<close> is the null executor: the constructor throws.\<close>

definition createPromise ::
  "(executor_call list \<times> string option) option \<Rightarrow> promise \<times> protects \<Rightarrow> (promise \<times> protects) res" where
  "createPromise executor = (\<lambda>(pr, p).
     case executor of
       None \<Rightarrow> Inl (Exn ''promise executor is null'')
     | Some (calls, thrown) \<Rightarrow>
         (let p1 = JSValueProtect (pr_reject pr) (JSValueProtect (pr_resolve pr) (JSValueProtect (pr_carrier pr) p));
              (pr2, p2) = later_calls calls (pr, p1)
          in Inr (case thrown of
                    None \<Rightarrow> (pr2, p2)
                  | Some m \<Rightarrow> (engine_settle (Rejected (ErrorObj m)) pr2, unprotect_all pr2 p2))))"

section \<open>Callers inside a coroutine\<close>

text \<open>
  \<open>createPromise\<close>, \<open>all\<close>, \<open>resolve\<close> and \<open>reject\<close> called where \<open>canYield\<close> holds schedule a task that does the
  work \<open>w\<close> and wait for it: \<open>Some f\<close> with the flag the caller waits for; elsewhere they do it at once.
\<close>

definition promise_detour :: "nat \<Rightarrow> nat \<Rightarrow> sched \<Rightarrow> (nat option option \<times> sched) res" where
  "promise_detour th w s =
     (if canYield th s then
        rbind (scheduleTask (Some [Host w]) s) (\<lambda>(t, s1).
        rbind (task_await t s1) (\<lambda>(f, s2). Inr (Some f, s2)))
      else Inr (None, s))"

definition Promise_resolve :: "jsval \<Rightarrow> settle" where
  "Promise_resolve v = Resolved v"

definition Promise_reject :: "jsval \<Rightarrow> settle" where
  "Promise_reject v = Rejected v"

definition Promise_all :: "settle list \<Rightarrow> settle" where
  "Promise_all promises = (if promises = [] then Promise_resolve (Array []) else promise_all promises)"

section \<open>Properties\<close>

definition distinct_handles :: "promise \<Rightarrow> bool" where
  "distinct_handles pr \<longleftrightarrow> distinct [pr_carrier pr, pr_resolve pr, pr_reject pr]"

definition handles :: "promise \<Rightarrow> jsval set" where
  "handles pr = {pr_carrier pr, pr_resolve pr, pr_reject pr}"

fun call_outcome :: "promise \<Rightarrow> executor_call \<Rightarrow> settle" where
  "call_outcome pr (CallResolve y v) = (case pr_throws pr v of None \<Rightarrow> Resolved v | Some e \<Rightarrow> Rejected e)"
| "call_outcome pr (CallReject y v) = Rejected v"

lemma unprotect_all_count:
  "distinct_handles pr \<Longrightarrow> unprotect_all pr p h = p h - (if h \<in> handles pr then 1 else 0)"
  by (auto simp: unprotect_all_def JSValueUnprotect_def distinct_handles_def handles_def)

lemma engine_settle_fields [simp]:
  "pr_carrier (engine_settle s pr) = pr_carrier pr" "pr_resolve (engine_settle s pr) = pr_resolve pr"
  "pr_reject (engine_settle s pr) = pr_reject pr" "pr_throws (engine_settle s pr) = pr_throws pr"
  "pr_state (engine_settle s pr) = (case pr_state pr of None \<Rightarrow> Some s | Some x \<Rightarrow> Some x)"
  by (auto simp: engine_settle_def split: option.splits)

definition same_handles :: "promise \<Rightarrow> promise \<Rightarrow> bool" where
  "same_handles pr pr' \<longleftrightarrow> pr_carrier pr' = pr_carrier pr \<and> pr_resolve pr' = pr_resolve pr \<and>
     pr_reject pr' = pr_reject pr \<and> pr_throws pr' = pr_throws pr"

lemma run_call_effect:
  assumes "distinct_handles pr" "run_call c (pr, p) = (pr', p')"
  shows "same_handles pr pr' \<and> p' h = p h - (if h \<in> handles pr then 1 else 0) \<and>
    pr_state pr' = (case pr_state pr of None \<Rightarrow> Some (call_outcome pr c) | Some x \<Rightarrow> Some x)"
proof -
  have u: "JSValueUnprotect v (unprotect_all pr (JSValueProtect v p)) h = unprotect_all pr p h" for v
    by (simp add: unprotect_all_def JSValueUnprotect_def JSValueProtect_def)
  show ?thesis
    using assms(2) unprotect_all_count [OF assms(1), of p h] u
    by (cases c) (auto simp: resolve_handler_def reject_handler_def Let_def same_handles_def split: option.splits if_splits)
qed

lemma later_calls_effect:
  "distinct_handles pr \<Longrightarrow> later_calls cs (pr, p) = (pr', p') \<Longrightarrow>
    same_handles pr pr' \<and> p' h = p h - (if h \<in> handles pr then int (length cs) else 0) \<and>
    pr_state pr' = (case pr_state pr of Some x \<Rightarrow> Some x | None \<Rightarrow> (case cs of [] \<Rightarrow> None | c # _ \<Rightarrow> Some (call_outcome pr c)))"
proof (induction cs arbitrary: pr p)
  case (Cons c cs)
  obtain pr1 p1 where r: "run_call c (pr, p) = (pr1, p1)" by fastforce
  note e = run_call_effect [OF Cons.prems(1) r, of h]
  have d: "distinct_handles pr1" "handles pr1 = handles pr"
    using e Cons.prems(1) by (auto simp: same_handles_def distinct_handles_def handles_def)
  have "later_calls cs (pr1, p1) = (pr', p')" using Cons.prems(2) r by (simp add: later_calls_def)
  from Cons.IH [OF d(1) this] e d(2) show ?case
    by (auto simp: same_handles_def split: option.splits)
qed (simp add: later_calls_def same_handles_def split: option.splits)

text \<open>
  A native promise takes the outcome of the first settlement, be it a call of a handler or an exception
  of the executor, and every settlement gives back one protection of the carrier and of the two resolving
  functions: they are balanced exactly when there is one settlement, leak when there is none, and are given
  back too often when an executor throws after it has settled.
\<close>

theorem createPromise_protection:
  assumes "distinct_handles pr" "pr_state pr = None" "h \<in> handles pr"
  shows "\<exists>pr' p'. createPromise (Some (calls, thrown)) (pr, p) = Inr (pr', p') \<and>
    p' h = p h + 1 - int (length calls) - (if thrown = None then 0 else 1) \<and>
    pr_state pr' = (case calls of c # _ \<Rightarrow> Some (call_outcome pr c)
                    | [] \<Rightarrow> map_option (\<lambda>m. Rejected (ErrorObj m)) thrown)"
proof -
  define p1 where "p1 = JSValueProtect (pr_reject pr) (JSValueProtect (pr_resolve pr) (JSValueProtect (pr_carrier pr) p))"
  have p1: "p1 h = p h + 1"
    using assms(1,3) by (auto simp: p1_def JSValueProtect_def distinct_handles_def handles_def)
  obtain pr2 p2 where l: "later_calls calls (pr, p1) = (pr2, p2)" by fastforce
  note e = later_calls_effect [OF assms(1) l, of h]
  have d: "distinct_handles pr2" "handles pr2 = handles pr"
    using e assms(1) by (auto simp: same_handles_def distinct_handles_def handles_def)
  have "createPromise (Some (calls, thrown)) (pr, p) =
      Inr (case thrown of None \<Rightarrow> (pr2, p2) | Some m \<Rightarrow> (engine_settle (Rejected (ErrorObj m)) pr2, unprotect_all pr2 p2))"
    using l by (simp add: createPromise_def p1_def Let_def)
  with e d p1 assms(2,3) unprotect_all_count [OF d(1), of p2 h] show ?thesis
    by (cases thrown) (auto split: list.splits)
qed

definition sample_promise :: promise where
  "sample_promise = \<lparr>pr_carrier = Object 1, pr_resolve = Object 2, pr_reject = Object 3, pr_throws = (\<lambda>v. None), pr_state = None\<rparr>"

theorem createPromise_protection_witness:
  "\<exists>pr' p'. createPromise (Some ([CallResolve False Null], Some ''late'')) (sample_promise, \<lambda>v. 0) = Inr (pr', p') \<and>
    p' (Object 1) = -1 \<and> pr_state pr' = Some (Resolved Null)"
  using createPromise_protection [of sample_promise "Object 1" "[CallResolve False Null]" "Some ''late''" "\<lambda>v. 0"]
  by (simp add: sample_promise_def distinct_handles_def handles_def)

end
