(* ===== verification/Globals.thy ===== *)
theory Globals
  imports Promises
begin

text \<open>
  The context and its globals (\<open>src/context.cpp\<close>), the lazily made objects of the \<open>Nexus\<close> namespace
  (\<open>src/globals/*.cpp\<close>), the timeouts (\<open>src/globals/global.cpp\<close>), \<open>console\<close>, \<open>Nexus.Scheduler\<close>,
  \<open>Nexus.FileSystem\<close> and the JavaScript class of tasks (\<open>src/classes/task.cpp\<close>).
\<close>

section \<open>The context\<close>

text \<open>
  \<open>own_property\<close> reads an own property of the global object; \<open>next_object\<close> is the allocator of the engine,
  so that two objects it makes differ.
\<close>

record nx_context =
  myGlobals :: "string \<Rightarrow> jsval option"
  own_property :: "string \<Rightarrow> jsval option"
  ctx_protects :: protects
  next_object :: nat

definition getGlobal :: "string \<Rightarrow> nx_context \<Rightarrow> jsval option" where
  "getGlobal name c = myGlobals c name"

definition setGlobal :: "string \<Rightarrow> jsval \<Rightarrow> nx_context \<Rightarrow> jsval \<times> nx_context" where
  "setGlobal name value c =
     (value, c\<lparr>ctx_protects := JSValueProtect value (ctx_protects c), myGlobals := (myGlobals c)(name \<mapsto> value)\<rparr>)"

definition getOrInitGlobal :: "string \<Rightarrow> nx_context \<Rightarrow> jsval option \<times> nx_context" where
  "getOrInitGlobal name c =
     (case myGlobals c name of
        Some v \<Rightarrow> (Some v, c)
      | None \<Rightarrow>
          (case own_property c name of
             None \<Rightarrow> (None, c)
           | Some v \<Rightarrow>
               if v = Undefined \<or> v = Null then (None, c)
               else (case setGlobal name v c of (r, c') \<Rightarrow> (Some r, c'))))"

text \<open>The destructor unprotects what the map holds, in the order \<open>keys\<close> of its iteration.\<close>

definition Context_destroy :: "string list \<Rightarrow> nx_context \<Rightarrow> protects" where
  "Context_destroy keys c =
     fold (\<lambda>k p. case myGlobals c k of None \<Rightarrow> p | Some v \<Rightarrow> JSValueUnprotect v p) keys (ctx_protects c)"

definition make_object :: "nx_context \<Rightarrow> jsval \<times> nx_context" where
  "make_object c = (Object (next_object c), c\<lparr>next_object := Suc (next_object c)\<rparr>)"

section \<open>The getters of the namespaces\<close>

text \<open>
  A getter looks its name up among the globals and returns what is there; else it makes the constructor or
  object and sets it. A row is the property, the name looked up and the name set.
\<close>

type_synonym getter = "string \<times> string \<times> string"

definition lazy_get :: "getter \<Rightarrow> nx_context \<Rightarrow> jsval \<times> nx_context" where
  "lazy_get g c =
     (case g of (property, lookup, stored) \<Rightarrow>
        (case getGlobal lookup c of
           Some v \<Rightarrow> (v, c)
         | None \<Rightarrow>
             (case make_object c of (v, c1) \<Rightarrow> (case setGlobal stored v c1 of (r, c2) \<Rightarrow> (v, c2)))))"

definition IO_Properties :: "getter list" where
  "IO_Properties =
     [(''Filter'', ''Nexus.IO.Filter'', ''Nexus.IO.Filter''),
      (''Device'', ''Nexus.IO.Device'', ''Nexus.IO.Device''),
      (''SourceDevice'', ''Nexus.IO.SourceDevice'', ''Nexus.IO.SourceDevice''),
      (''SinkDevice'', ''Nexus.IO.SinkDevice'', ''Nexus.IO.SinkDevice''),
      (''PullSourceDevice'', ''Nexus.IO.PullSourceDevice'', ''Nexus.IO.PullSourceDevice''),
      (''PushSourceDevice'', ''Nexus.IO.PushSourceDevice'', ''Nexus.IO.PushSourceDevice''),
      (''FilePullDevice'', ''Nexus.IO.FilePullDevice'', ''Nexus.IO.FilePullDevice''),
      (''FilePushDevice'', ''Nexus.IO.FilePushDevice'', ''Nexus.IO.FilePushDevice''),
      (''FileSinkDevice'', ''Nexus.IO.FileSinkDevice'', ''Nexus.IO.FileSinkDevice''),
      (''ReadableStream'', ''Nexus.IO.ReadableStream'', ''Nexus.IO.ReadableStream''),
      (''WritableStream'', ''Nexus.IO.WritableStream'', ''Nexus.IO.WritableStream''),
      (''EncodingConversionFilter'', ''Nexus.IO.EncodingConversionFilter'', ''Nexus.IO.EncodingConversionFilter''),
      (''UTF8StringFilter'', ''Nexus.IO.UTF8StringFilter'', ''Nexus.IO.UTF8StringFilter'')]"

definition Net_Properties :: "getter list" where
  "Net_Properties =
     [(''SocketDevice'', ''Nexus.Net.SocketDevice'', ''Nexus.Net.Socket''),
      (''UDPSocket'', ''Nexus.Net.UDPSocket'', ''Nexus.IO.UDPSocket''),
      (''TCP'', ''Nexus.Net.TCP'', ''Nexus.Net.TCP''),
      (''HTTP'', ''Nexus.Net.HTTP'', ''Nexus.Net.HTTP'')]"

definition TCP_Properties :: "getter list" where
  "TCP_Properties = [(''Acceptor'', ''Nexus.Net.TCP.Acceptor'', ''Nexus.Net.TCP.Acceptor'')]"

definition HTTP_Properties :: "getter list" where
  "HTTP_Properties = [(''Server'', ''Nexus.Net.HTTP.Server'', ''Nexus.Net.HTTP.Server'')]"

definition HTTP2_Properties :: "getter list" where
  "HTTP2_Properties = [(''Server'', ''Nexus.Net.HTTP2.Server'', ''Nexus.Net.HTTP2.Server'')]"

definition Nexus_Get :: getter where
  "Nexus_Get = (''Nexus'', ''Nexus'', ''Nexus'')"

definition EventEmitter_Get :: getter where
  "EventEmitter_Get = (''EventEmitter'', ''EventEmitter'', ''EventEmitter'')"

definition Scheduler_Get :: getter where
  "Scheduler_Get = (''Scheduler'', ''Nexus.Scheduler'', ''Nexus.Scheduler'')"

definition IO_Get :: getter where
  "IO_Get = (''IO'', ''Nexus.IO'', ''Nexus.IO'')"

definition Net_Get :: getter where
  "Net_Get = (''Net'', ''Nexus.Net'', ''Nexus.Net'')"

definition FileSystem_Get :: getter where
  "FileSystem_Get = (''FileSystem'', ''Nexus.FileSystem'', ''Nexus.FileSystem'')"

definition Console_Get :: getter where
  "Console_Get = (''console'', ''console'', ''console'')"

definition Context_Get :: getter where
  "Context_Get = (''Context'', ''Nexus.Context'', ''Nexus.Context'')"

definition all_getters :: "getter list" where
  "all_getters =
     [Nexus_Get, EventEmitter_Get, Scheduler_Get, IO_Get, Net_Get, FileSystem_Get, Console_Get, Context_Get] @
     IO_Properties @ Net_Properties @ TCP_Properties @ HTTP_Properties @ HTTP2_Properties"

text \<open>
  \<open>Promise\<close>, \<open>Loader\<close> and \<open>Module\<close> are made by a script that is part of the binary: \<open>evaluated\<close> is its
  value or its exception. \<open>to_object\<close> is the conversion, which is also tried on the null value of a script that threw
  (\<open>None\<close>); its error takes the place of that of the script in \<open>*exception\<close>.
\<close>

definition script_get :: "string \<Rightarrow> jsval + jsval \<Rightarrow> (jsval option \<Rightarrow> jsval + jsval) \<Rightarrow> nx_context \<Rightarrow> jscall \<times> nx_context" where
  "script_get name evaluated to_object c =
     (case getGlobal name c of
        Some v \<Rightarrow> ((v, None), c)
      | None \<Rightarrow>
          (let (value, thrown) = (case evaluated of Inl e \<Rightarrow> (None, Some e) | Inr v \<Rightarrow> (Some v, None))
           in case to_object value of
                Inl e \<Rightarrow> ((Undefined, Some e), c)
              | Inr ob \<Rightarrow>
                  (case thrown of
                     Some e \<Rightarrow> ((Undefined, Some e), c)
                   | None \<Rightarrow> (case setGlobal name ob c of (r, c') \<Rightarrow> ((r, None), c')))))"

definition Loader_Get :: "jsval + jsval \<Rightarrow> (jsval option \<Rightarrow> jsval + jsval) \<Rightarrow> nx_context \<Rightarrow> jscall \<times> nx_context" where
  "Loader_Get = script_get ''Loader''"

definition Module_Get :: "jsval + jsval \<Rightarrow> (jsval option \<Rightarrow> jsval + jsval) \<Rightarrow> nx_context \<Rightarrow> jscall \<times> nx_context" where
  "Module_Get = script_get ''Nexus.Module''"

text \<open>
  \<open>console.inspect\<close> is made by a script, too, but returned as it is, and its exception is thrown again as a text.
  \<open>threadId\<close> is the text \<open>boost\<close> prints for the thread.
\<close>

definition console_inspect ::
  "engine \<Rightarrow> jsval + jsval \<Rightarrow> (jsval \<Rightarrow> exn + jsval) \<Rightarrow> nx_context \<Rightarrow> (jscall \<times> nx_context) res" where
  "console_inspect en evaluated to_object c =
     (case getGlobal ''console.inspect'' c of
        Some v \<Rightarrow> Inr ((v, None), c)
      | None \<Rightarrow>
          (let made = (case evaluated of
                         Inl e \<Rightarrow> rbind (Value_toString en e) (\<lambda>m. Inl (Exn m))
                       | Inr v \<Rightarrow> rbind (to_object v) (\<lambda>ob. Inr (v, ob)))
           in case made of
                Inr (v, ob) \<Rightarrow> Inr ((v, None), snd (setGlobal ''console.inspect'' ob c))
              | Inl (Exn m) \<Rightarrow> Inr (JSWrapException (Exn m), c)
              | Inl x \<Rightarrow> Inl x))"

definition Scheduler_threadId :: "string \<Rightarrow> jscall" where
  "Scheduler_threadId thread = (String thread, None)"

section \<open>Timeouts\<close>

text \<open>
  \<open>globalTimeouts\<close> as the list of its entries; the ids are positive and the loop of \<open>setTimeout\<close> takes the
  first that is free.
\<close>

type_synonym timeouts = "(int \<times> nat) list"

function free_id :: "int \<Rightarrow> int list \<Rightarrow> int" where
  "free_id n ids = (if n \<in> set ids then free_id (n + 1) ids else n)"
  by pat_completeness auto
termination
proof (relation "measure (\<lambda>(n, ids). length (filter (\<lambda>k. n \<le> k) ids))")
  show "((n + 1, ids), (n, ids)) \<in> measure (\<lambda>(n, ids). length (filter (\<lambda>k. n \<le> k) ids))" if "n \<in> set ids" for n :: int and ids
  proof -
    have "filter (\<lambda>k. n + 1 \<le> k) ids = filter (\<lambda>k. k \<noteq> n) (filter (\<lambda>k. n \<le> k) ids)"
      by (simp add: conj_commute) (rule filter_cong, auto)
    moreover have "n \<in> set (filter (\<lambda>k. n \<le> k) ids)" using that by simp
    then have "length (filter (\<lambda>k. k \<noteq> n) (filter (\<lambda>k. n \<le> k) ids)) < length (filter (\<lambda>k. n \<le> k) ids)"
      by (rule length_filter_less) simp
    ultimately show ?thesis by simp
  qed
qed simp

declare free_id.simps [simp del]

text \<open>
  \<open>setTimeout\<close>: the closure keeps the first two arguments and the rest protected; the function is protected
  once more. \<open>timer\<close> names the timer, \<open>w\<close> the call of the function.
\<close>

definition setTimeout ::
  "engine \<Rightarrow> nat \<Rightarrow> nat \<Rightarrow> jsval list \<Rightarrow> timeouts \<Rightarrow> protects \<Rightarrow> sched \<Rightarrow> (jscall \<times> timeouts \<times> protects \<times> sched) res" where
  "setTimeout en timer w as tms p s =
     (if length as < 2 then
        Inr ((Undefined, Some (ErrorObj ''invalid arguments passed to setTimeout'')), tms, p, s)
      else
        (let p1 = JSValueProtect (arg as 0) (snd (ProtectedArguments (drop 2 as) (snd (ProtectedArguments (take 2 as) p))));
             scheduled = rbind (Value_toNumber en (arg as 1)) (\<lambda>n.
                         rbind (to_integer 0 (2 ^ 32 - 1) n) (\<lambda>ms. scheduleTask_timed timer (Some [Host w]) s))
         in case scheduled of
              Inr (t, s1) \<Rightarrow>
                (let i = free_id 1 (map fst tms)
                 in Inr ((Number (Fin (of_int i)), None), (i, t) # tms, p1, s1))
            | Inl (Exn m) \<Rightarrow>
                Inr (JSWrapException (Exn m), tms,
                     ProtectedArguments_destroy (drop 2 as) (ProtectedArguments_destroy (take 2 as) p1), s)
            | Inl x \<Rightarrow> Inl x))"

text \<open>When the closure is destroyed its copies give their protections back.\<close>

definition timeout_closure_destroy :: "jsval list \<Rightarrow> protects \<Rightarrow> protects" where
  "timeout_closure_destroy as p = ProtectedArguments_destroy (drop 2 as) (ProtectedArguments_destroy (take 2 as) p)"

definition clearTimeout :: "engine \<Rightarrow> jsval list \<Rightarrow> timeouts \<Rightarrow> sched \<Rightarrow> (jscall \<times> timeouts \<times> sched) res" where
  "clearTimeout en as tms s =
     (if length as \<noteq> 1 then Inr ((Undefined, None), tms, s)
      else
        (let cleared = rbind (Value_toNumber en (arg as 0)) (\<lambda>n.
                       rbind (to_int32 n) (\<lambda>i.
                       let tms1 = filter (\<lambda>(k, t). k \<noteq> i) tms
                       in case map_of tms i of
                            None \<Rightarrow> Inr (tms1, s)
                          | Some t \<Rightarrow> rbind (task_abort t s) (\<lambda>s1. Inr (tms1, s1))))
         in case cleared of
              Inr (tms1, s1) \<Rightarrow> Inr ((Undefined, None), tms1, s1)
            | Inl (Exn m) \<Rightarrow> Inr (JSWrapException (Exn m), tms, s)
            | Inl x \<Rightarrow> Inl x))"

section \<open>console\<close>

text \<open>The text a call appends to the output, or the exception. \<open>obj_get\<close> reads \<open>constructor\<close>, \<open>message\<close>, \<open>stack\<close>.\<close>

fun log_args :: "(jsval \<Rightarrow> string res) \<Rightarrow> jsval list \<Rightarrow> string res" where
  "log_args text_of [] = Inr []"
| "log_args text_of [v] = text_of v"
| "log_args text_of (v # w # vs) =
     rbind (text_of v) (\<lambda>s. rbind (log_args text_of (w # vs)) (\<lambda>rest. Inr (s @ '' '' @ rest)))"

definition console_log :: "engine \<Rightarrow> jsval list \<Rightarrow> string \<Rightarrow> (jscall \<times> string) res" where
  "console_log en as out =
     (case log_args (Value_toString en) as of
        Inr s \<Rightarrow> Inr ((Undefined, None), out @ s @ [CHR 0x0A])
      | Inl (Exn m) \<Rightarrow> Inr ((Undefined, Some (ErrorObj m)), out)
      | Inl x \<Rightarrow> Inl x)"

definition property_text :: "engine \<Rightarrow> jsval \<Rightarrow> string \<Rightarrow> string res" where
  "property_text en v name =
     (case GetProperty en v name of
        Inl e \<Rightarrow> rbind (Value_toString en e) (\<lambda>m. Inl (Exn m))
      | Inr x \<Rightarrow> Value_toString en x)"

definition error_text :: "engine \<Rightarrow> jsval \<Rightarrow> string res" where
  "error_text en v =
     (if JSValueGetType v = kObject then
        (case GetProperty en v ''constructor'' of
           Inl e \<Rightarrow> rbind (Value_toString en e) (\<lambda>m. Inl (Exn m))
         | Inr c \<Rightarrow>
             rbind (property_text en c ''name'') (\<lambda>name.
             if name = ''Error'' then
               rbind (property_text en v ''message'') (\<lambda>message.
               rbind (property_text en v ''stack'') (\<lambda>stack. Inr (message @ [CHR 0x0A] @ stack)))
             else Value_toString en v))
      else Value_toString en v)"

definition console_error :: "engine \<Rightarrow> jsval list \<Rightarrow> string \<Rightarrow> (jscall \<times> string) res" where
  "console_error en as err =
     (case log_args (error_text en) as of
        Inr s \<Rightarrow> Inr ((Undefined, None), err @ s @ [CHR 0x0A])
      | Inl (Exn m) \<Rightarrow> Inr ((Undefined, Some (ErrorObj m)), err)
      | Inl x \<Rightarrow> Inl x)"

section \<open>Nexus.Scheduler\<close>

text \<open>
  The JavaScript class \<open>Task\<close>: \<open>wt_task\<close> is \<open>myTask\<close>. An argument of \<open>schedule\<close> is \<open>AsTask\<close> when the object is an
  instance of the class.
\<close>

record wrapped_task =
  wt_task :: "nat option"

datatype schedulable = AsTask wrapped_task | AsOther

definition Scheduler_concurrency :: "sched \<Rightarrow> jsval" where
  "Scheduler_concurrency s = Number (Fin (of_nat (unat (concurrency s))))"

text \<open>
  \<open>schedule\<close>: the task of a function holds the scheduler (the default of \<open>NX::Task\<close>) and keeps a handle of the
  function; its closure also unprotects the function when it has run. Only the protection of that handle is
  counted here, not the one that moving the handle into the closure adds. A wrapper without a task hands a null
  pointer to the scheduler.
\<close>

definition Scheduler_schedule ::
  "engine \<Rightarrow> nat \<Rightarrow> jsval list \<Rightarrow> schedulable \<Rightarrow> protects \<Rightarrow> sched \<Rightarrow> (jscall \<times> protects \<times> sched) res" where
  "Scheduler_schedule en w as cls p s =
     (if length as \<noteq> 1 then
        Inr ((Undefined, Some (ErrorObj ''Scheduler.schedule called without an argument'')), p, s)
      else if \<not> has_type as 0 kObject then
        Inr ((Undefined, Some (ErrorObj ''invalid argument passed to Scheduler.schedule'')), p, s)
      else if IsFunction en (arg as 0) then
        (case new_task TaskK True [Host w] s of
           (t, s1) \<Rightarrow> Inr ((Undefined, None), JSValueProtect (arg as 0) p, snd (scheduleAbstractTask t s1)))
      else
        (case cls of
           AsTask wt \<Rightarrow>
             (case wt_task wt of
                Some t \<Rightarrow> Inr ((Undefined, None), p, snd (scheduleAbstractTask t s))
              | None \<Rightarrow> Inl (UB ''a null task is scheduled''))
         | AsOther \<Rightarrow> Inr ((Undefined, Some (ErrorObj ''argument must be a function or Task instance'')), p, s)))"

text \<open>What the closure of \<open>schedule\<close> does with the protections: at its end, and when it is destroyed.\<close>

definition schedule_closure_end :: "jsval \<Rightarrow> protects \<Rightarrow> protects" where
  "schedule_closure_end f p = JSValueUnprotect f p"

definition schedule_closure_destroy :: "jsval \<Rightarrow> protects \<Rightarrow> protects" where
  "schedule_closure_destroy f p = JSValueUnprotect f p"

text \<open>
  \<open>Task\<close>'s constructor: its closure copies \<open>thisObject\<close> while that is still null, so the protection of the new
  object is never given back (the closure unprotects the null value). The task is not scheduled.
\<close>

definition Task_Constructor :: "nat \<Rightarrow> jsval \<Rightarrow> jsval \<Rightarrow> protects \<Rightarrow> sched \<Rightarrow> wrapped_task \<times> protects \<times> sched" where
  "Task_Constructor w fun_object this p s =
     (case new_task TaskK True [Host w] s of
        (t, s1) \<Rightarrow> (\<lparr>wt_task = Some t\<rparr>, JSValueProtect this (JSValueProtect fun_object p), s1))"

text \<open>\<open>wrapTask\<close>: the handlers \<open>done\<close> and \<open>cancelled\<close> emit the event and clear the wrapper's pointer.\<close>

definition wrapTask :: "nat \<Rightarrow> nat \<Rightarrow> nat \<Rightarrow> jsval \<Rightarrow> protects \<Rightarrow> sched \<Rightarrow> (wrapped_task \<times> protects \<times> sched) res" where
  "wrapTask t completed aborted this p s =
     rbind (addCompletionHandler t (HostHandler completed) s) (\<lambda>s1.
     rbind (addCancellationHandler t (HostHandler aborted) s1) (\<lambda>s2.
     Inr (\<lparr>wt_task = Some t\<rparr>, JSValueProtect this p, s2)))"

definition wrapper_handler ::
  "engine \<Rightarrow> string \<Rightarrow> jsval \<Rightarrow> wrapped_task \<times> emitter \<times> protects \<Rightarrow> (wrapped_task \<times> emitter \<times> protects) res" where
  "wrapper_handler en event this = (\<lambda>(wt, m, p).
     rbind (emitFast en event [] m) (\<lambda>(calls, thrown, m').
     Inr (wt\<lparr>wt_task := None\<rparr>, m', JSValueUnprotect this p)))"

definition Task_status :: "wrapped_task \<Rightarrow> sched \<Rightarrow> status res" where
  "Task_status wt s =
     (case wt_task wt of None \<Rightarrow> Inr UNKNOWN | Some t \<Rightarrow> with_task t (\<lambda>k s. Inr (myStatus k)) s)"

fun status_string :: "status \<Rightarrow> string" where
  "status_string CREATED = ''created''"
| "status_string ABORTED = ''aborted''"
| "status_string ACTIVE = ''active''"
| "status_string INACTIVE = ''inactive''"
| "status_string FINISHED = ''finished''"
| "status_string PENDING = ''pending''"
| "status_string UNKNOWN = ''unknown''"

definition js_status :: "wrapped_task option \<Rightarrow> sched \<Rightarrow> jscall res" where
  "js_status wt s =
     (case wt of
        None \<Rightarrow> Inr (Undefined, Some (ErrorObj ''invalid `this` value''))
      | Some x \<Rightarrow> rbind (Task_status x s) (\<lambda>st. Inr (String (status_string st), None)))"

text \<open>\<open>abort\<close> does not check the cast of \<open>this\<close>.\<close>

definition js_abort :: "wrapped_task option \<Rightarrow> sched \<Rightarrow> (jscall \<times> sched) res" where
  "js_abort wt s =
     (case wt of
        None \<Rightarrow> Inl (UB ''call on a null pointer'')
      | Some x \<Rightarrow>
          (case wt_task x of
             None \<Rightarrow> Inr ((Boolean False, None), s)
           | Some t \<Rightarrow> rbind (task_abort t s) (\<lambda>s1. Inr ((Boolean True, None), s1))))"

section \<open>Nexus.FileSystem\<close>

text \<open>
  What the class asks of \<open>boost::filesystem\<close>: the status of a path (its type, whether that is
  \<open>file_not_found\<close>, the permissions), the time of the last write, \<open>append\<close> and \<open>absolute\<close>. \<open>Inl\<close> is the
  exception.
\<close>

record file_ops =
  fo_status :: "string \<Rightarrow> string + nat \<times> bool \<times> nat"
  fo_last_write_time :: "string \<Rightarrow> string + int"
  fo_append :: "string \<Rightarrow> string \<Rightarrow> string"
  fo_absolute :: "string \<Rightarrow> string + string"

record stats =
  st_type :: nat
  st_permissions :: "nat option"
  st_lastModified :: "int option"

text \<open>\<open>stat\<close>: the object the promise resolves with; \<open>lastModified\<close> in milliseconds. The argument is not checked.\<close>

definition fs_stat :: "engine \<Rightarrow> file_ops \<Rightarrow> jsval list \<Rightarrow> (jsval + stats) res" where
  "fs_stat en fo as =
     (if as = [] then Inl (UB ''read past the end of the arguments'')
      else
        (let result =
           rbind (Value_toString en (arg as 0)) (\<lambda>filePath.
           case fo_status fo filePath of
             Inl m \<Rightarrow> Inl (Exn m)
           | Inr (type, not_found, perms) \<Rightarrow>
               if not_found then Inr \<lparr>st_type = type, st_permissions = None, st_lastModified = None\<rparr>
               else
                 (case fo_last_write_time fo filePath of
                    Inl m \<Rightarrow> Inl (Exn m)
                  | Inr lastMod \<Rightarrow>
                      Inr \<lparr>st_type = type, st_permissions = Some perms, st_lastModified = Some (lastMod * 1000)\<rparr>))
         in case result of
              Inr st \<Rightarrow> Inr (Inr st)
            | Inl (Exn m) \<Rightarrow> Inr (Inl (ErrorObj m))
            | Inl x \<Rightarrow> Inl x))"

fun append_args :: "engine \<Rightarrow> file_ops \<Rightarrow> string \<Rightarrow> jsval list \<Rightarrow> string res" where
  "append_args en fo p [] = Inr p"
| "append_args en fo p (v # vs) = rbind (Value_toString en v) (\<lambda>s. append_args en fo (fo_append fo p s) vs)"

definition fs_join :: "engine \<Rightarrow> file_ops \<Rightarrow> jsval list \<Rightarrow> jscall res" where
  "fs_join en fo as =
     (case as of
        [] \<Rightarrow> Inr (String [], None)
      | v # vs \<Rightarrow>
          (case rbind (Value_toString en v) (\<lambda>p. append_args en fo p vs) of
             Inr p \<Rightarrow> Inr (String p, None)
           | Inl (Exn m) \<Rightarrow> Inr (Undefined, Some (ErrorObj m))
           | Inl x \<Rightarrow> Inl x))"

definition fs_absolute :: "engine \<Rightarrow> file_ops \<Rightarrow> jsval list \<Rightarrow> jscall res" where
  "fs_absolute en fo as =
     (case as of
        [] \<Rightarrow> Inr (String [], None)
      | v # vs \<Rightarrow>
          (let result = rbind (Value_toString en v) (\<lambda>p.
                        rbind (append_args en fo p vs) (\<lambda>q.
                        case fo_absolute fo q of Inl m \<Rightarrow> Inl (Exn m) | Inr a \<Rightarrow> Inr a))
           in case result of
                Inr p \<Rightarrow> Inr (String p, None)
              | Inl (Exn m) \<Rightarrow> Inr (Undefined, Some (ErrorObj m))
              | Inl x \<Rightarrow> Inl x))"

end
