(* ===== verification/SchedulerRefine.thy ===== *)
theory SchedulerRefine
  imports SchedulerInv
begin

text \<open>
  The contract of the draining loop: \<open>drainTasks\<close> implements a first-in-first-out queue of jobs.
  A job is the closure that is left to run and what the completion handlers write when it is
  done. The abstract machine \<open>drain_spec\<close> knows no task object, no status and no counter; the
  refinement lemma says that the loop terminates, writes the trace of the abstract machine, frees
  every task it ran and leaves the counters as the queue is (empty). It is about \<open>tame\<close> closures:
  those that do not throw, abort, pause or await, and yield only in a coroutine.
\<close>

section \<open>The abstract machine\<close>

type_synonym job = "act list \<times> nat list"

text \<open>What a closure writes, the closures it schedules, and what it leaves when it yields.\<close>

fun run_spec :: "act list \<Rightarrow> nat list \<times> act list list \<times> act list option" where
  "run_spec (Host n # as) = (let (tr, sp, r) = run_spec as in (n # tr, sp, r))"
| "run_spec (SpawnTask b # as) = (let (tr, sp, r) = run_spec as in (tr, b # sp, r))"
| "run_spec (SpawnCoroutine b # as) = (let (tr, sp, r) = run_spec as in (tr, b # sp, r))"
| "run_spec (Yield # as) = ([], [], Some as)"
| "run_spec _ = ([], [], None)"

fun tame :: "kind \<Rightarrow> act list \<Rightarrow> bool" where
  "tame k [] = True"
| "tame k (Host n # as) = tame k as"
| "tame k (SpawnTask b # as) = (tame TaskK b \<and> tame k as)"
| "tame k (SpawnCoroutine b # as) = (tame CoroutineK b \<and> tame k as)"
| "tame k (Yield # as) = (k = CoroutineK \<and> tame k as)"
| "tame k _ = False"

fun acts_size :: "act list \<Rightarrow> nat" where
  "acts_size (SpawnTask b # as) = Suc (acts_size b + acts_size as)"
| "acts_size (SpawnCoroutine b # as) = Suc (acts_size b + acts_size as)"
| "acts_size (a # as) = Suc (acts_size as)"
| "acts_size [] = 0"

definition new_jobs :: "act list list \<Rightarrow> job list" where
  "new_jobs bs = map (\<lambda>b. (b, [])) bs"

definition jobs_size :: "job list \<Rightarrow> nat" where
  "jobs_size js = (\<Sum>j\<leftarrow>js. Suc (acts_size (fst j)))"

lemma jobs_size_simps [simp]:
  "jobs_size [] = 0"
  "jobs_size (j # js) = Suc (acts_size (fst j)) + jobs_size js"
  "jobs_size (js @ js') = jobs_size js + jobs_size js'"
  by (simp_all add: jobs_size_def)

lemma run_spec_size:
  "run_spec as = (tr, sp, r) \<Longrightarrow>
    jobs_size (new_jobs sp) + (case r of None \<Rightarrow> 0 | Some as' \<Rightarrow> Suc (acts_size as')) \<le> acts_size as"
  by (induction as arbitrary: tr sp r rule: run_spec.induct)
    (fastforce simp: new_jobs_def jobs_size_def Let_def split: prod.splits)+

definition step_jobs :: "job \<Rightarrow> job list \<Rightarrow> nat list \<times> job list" where
  "step_jobs j js =
     (case run_spec (fst j) of (tr, sp, r) \<Rightarrow>
        (case r of
           None \<Rightarrow> (tr @ snd j, js @ new_jobs sp)
         | Some as \<Rightarrow> (tr, js @ new_jobs sp @ [(as, snd j)])))"

lemma step_jobs_size: "jobs_size (snd (step_jobs j js)) < jobs_size (j # js)"
  using run_spec_size [of "fst j"]
  by (fastforce simp: step_jobs_def split: prod.splits option.splits)

function drain_spec :: "job list \<Rightarrow> nat list" where
  "drain_spec [] = []"
| "drain_spec (j # js) = fst (step_jobs j js) @ drain_spec (snd (step_jobs j js))"
  by pat_completeness auto
termination
  by (relation "measure jobs_size") (simp_all only: wf_measure in_measure step_jobs_size)

function drain_count :: "job list \<Rightarrow> nat" where
  "drain_count [] = 0"
| "drain_count (j # js) = Suc (drain_count (snd (step_jobs j js)))"
  by pat_completeness auto
termination
  by (relation "measure jobs_size") (simp_all only: wf_measure in_measure step_jobs_size)

section \<open>The abstraction relation\<close>

fun host_out :: "handler list \<Rightarrow> nat list" where
  "host_out [] = []"
| "host_out (HostHandler n # hs) = n # host_out hs"
| "host_out (_ # hs) = host_out hs"

definition ready :: "(nat \<Rightarrow> task option) \<Rightarrow> nat \<Rightarrow> job \<Rightarrow> bool" where
  "ready h t j \<longleftrightarrow> (\<exists>k. h t = Some k \<and>
     (myStatus k = INACTIVE \<or> (myStatus k = PENDING \<and> myKind k = CoroutineK)) \<and>
     tame (myKind k) (myHandler k) \<and> j = (myHandler k, host_out (myCompletionHandlers k)))"

definition drain_ok :: "nat \<Rightarrow> sched \<Rightarrow> job list \<Rightarrow> bool" where
  "drain_ok th s js \<longleftrightarrow>
     list_all2 (ready (heap s)) (myTaskQueue s) js \<and> distinct (myTaskQueue s) \<and>
     myCurrentTask s th = None \<and> dom (heap s) \<subseteq> {..<nextTask s} \<and> \<not> myPauseTasks s \<and>
     myTaskCount s = of_nat (length js)"

text \<open>The live tasks that are not queued: the loop neither frees nor adds one.\<close>

definition unqueued :: "sched \<Rightarrow> nat set" where
  "unqueued s = dom (heap s) - set (myTaskQueue s)"

section \<open>Running a tame closure\<close>

definition spawned :: "kind \<Rightarrow> bool \<Rightarrow> act list \<Rightarrow> task" where
  "spawned k h b = \<lparr>myKind = k, myHolds = h, myHandler = b, myCancellationHandlers = [],
     myCompletionHandlers = [], myCoroutine = False, myStatus = INACTIVE\<rparr>"

text \<open>Everything one scheduling call changes.\<close>

definition scheduled :: "sched \<Rightarrow> task \<Rightarrow> sched \<Rightarrow> bool" where
  "scheduled s k s' \<longleftrightarrow>
     heap s' = (heap s)(nextTask s \<mapsto> k) \<and> nextTask s' = Suc (nextTask s) \<and>
     myTaskQueue s' = myTaskQueue s @ [nextTask s] \<and> myTaskCount s' = myTaskCount s + 1 \<and>
     myActiveTaskCount s' = myActiveTaskCount s \<and> myCurrentTask s' = myCurrentTask s \<and>
     myPauseTasks s' = myPauseTasks s \<and> trace s' = trace s \<and>
     myThreadInitQueue s' = myThreadInitQueue s \<and> groups s' = groups s"

lemma scheduled_dom:
  assumes "scheduled s k s'" "dom (heap s) \<subseteq> {..<nextTask s}"
  shows "dom (heap s') \<subseteq> {..<nextTask s'}"
proof -
  have h: "heap s' = (heap s)(nextTask s \<mapsto> k)" and n: "nextTask s' = Suc (nextTask s)"
    using assms(1) by (simp_all only: scheduled_def simp_thms)
  show ?thesis
    unfolding h n dom_fun_upd lessThan_Suc using assms(2) by (simp add: subset_insertI2)
qed

lemma scheduleTask_scheduled:
  "\<exists>s'. scheduleTask (Some b) s = Inr (nextTask s, s') \<and> scheduled s (spawned TaskK True b) s'"
  by (simp add: scheduleTask_def new_task_def Let_def Holder_def hold_def scheduleAbstractTask_def
      scheduled_def spawned_def)

lemma scheduleCoroutine_scheduled:
  "\<exists>s'. scheduleCoroutine (Some b) s = Inr (nextTask s, s') \<and> scheduled s (spawned CoroutineK False b) s'"
  by (simp add: scheduleCoroutine_def new_task_def Let_def Holder_def scheduleAbstractTask_def
      scheduled_def spawned_def)

text \<open>What running a closure of task \<open>t\<close> does: the trace, the spawned tasks, the status of \<open>t\<close>.\<close>

definition ran :: "nat \<Rightarrow> nat list \<Rightarrow> act list list \<Rightarrow> act list option \<Rightarrow> sched \<Rightarrow> sched \<Rightarrow> bool" where
  "ran t tr sp r s s' \<longleftrightarrow>
     (let n = nextTask s; new = [n..<n + length sp] in
      trace s' = trace s @ tr \<and> nextTask s' = n + length sp \<and>
      myTaskQueue s' = myTaskQueue s @ new \<and> list_all2 (ready (heap s')) new (new_jobs sp) \<and>
      (\<forall>u < n. u \<noteq> t \<longrightarrow> heap s' u = heap s u) \<and> dom (heap s') = dom (heap s) \<union> set new \<and>
      heap s' t = (if r = None then heap s t
                   else map_option (\<lambda>k. k\<lparr>myStatus := PENDING\<rparr>) (heap s t)) \<and>
      myTaskCount s' = myTaskCount s + of_nat (length sp) \<and>
      myActiveTaskCount s' = myActiveTaskCount s \<and> myCurrentTask s' = myCurrentTask s \<and>
      myPauseTasks s' = myPauseTasks s)"

lemma ran_spawn:
  assumes sch: "scheduled s (spawned k h b) s1" and r: "ran t tr sp r s1 s'"
    and b: "tame k b" and t: "t < nextTask s"
  shows "ran t tr (b # sp) r s s'"
proof -
  let ?n = "nextTask s"
  have up: "[?n..<?n + length (b # sp)] = ?n # [Suc ?n..<Suc ?n + length sp]"
    by (simp add: upt_rec)
  have hn: "heap s' ?n = Some (spawned k h b)"
    using sch r t by (auto simp: scheduled_def ran_def Let_def)
  then have "ready (heap s') ?n (b, [])"
    using b by (simp add: ready_def spawned_def)
  moreover have "\<forall>u < ?n. u \<noteq> t \<longrightarrow> heap s' u = heap s u"
    using sch r by (auto simp: scheduled_def ran_def Let_def)
  moreover have "heap s1 t = heap s t" using sch t by (simp add: scheduled_def)
  ultimately show ?thesis
    using sch r unfolding ran_def Let_def up
    by (auto simp: scheduled_def new_jobs_def)
qed

lemma run_acts_tame:
  assumes "tame (myKind k) as" "myCurrentTask s th = Some t" "heap s t = Some k"
    "myStatus k \<noteq> ABORTED" "dom (heap s) \<subseteq> {..<nextTask s}" "run_spec as = (tr, sp, r)"
  shows "\<exists>s'. run_acts th as s = Inr (s', r) \<and> ran t tr sp r s s' \<and>
    (\<forall>as'. r = Some as' \<longrightarrow> tame (myKind k) as' \<and> myKind k = CoroutineK)"
  using assms
proof (induction as arbitrary: s tr sp r rule: run_spec.induct)
  case (1 n as)
  let ?s = "s\<lparr>trace := trace s @ [n]\<rparr>"
  obtain tr' where tr': "run_spec as = (tr', sp, r)" "tr = n # tr'"
    using "1.prems"(6) by (auto simp: Let_def split: prod.splits)
  have "\<exists>s'. run_acts th as ?s = Inr (s', r) \<and> ran t tr' sp r ?s s' \<and>
      (\<forall>as'. r = Some as' \<longrightarrow> tame (myKind k) as' \<and> myKind k = CoroutineK)"
    using "1.prems" tr' by (intro "1.IH") auto
  then show ?case by (auto simp: ran_def Let_def tr')
next
  case (2 b as)
  obtain s1 where s1: "scheduleTask (Some b) s = Inr (nextTask s, s1)"
    and sch: "scheduled s (spawned TaskK True b) s1" using scheduleTask_scheduled by blast
  obtain sp' where sp': "run_spec as = (tr, sp', r)" "sp = b # sp'"
    using "2.prems"(6) by (auto simp: Let_def split: prod.splits)
  have t: "t < nextTask s" using "2.prems" by auto
  have "\<exists>s'. run_acts th as s1 = Inr (s', r) \<and> ran t tr sp' r s1 s' \<and>
      (\<forall>as'. r = Some as' \<longrightarrow> tame (myKind k) as' \<and> myKind k = CoroutineK)"
    using "2.prems" sp' sch t
    by (intro "2.IH" scheduled_dom [OF sch]) (simp_all add: scheduled_def)
  then show ?case using ran_spawn [OF sch _ _ t] "2.prems"(1) s1 sp' by auto
next
  case (3 b as)
  obtain s1 where s1: "scheduleCoroutine (Some b) s = Inr (nextTask s, s1)"
    and sch: "scheduled s (spawned CoroutineK False b) s1" using scheduleCoroutine_scheduled by blast
  obtain sp' where sp': "run_spec as = (tr, sp', r)" "sp = b # sp'"
    using "3.prems"(6) by (auto simp: Let_def split: prod.splits)
  have t: "t < nextTask s" using "3.prems" by auto
  have "\<exists>s'. run_acts th as s1 = Inr (s', r) \<and> ran t tr sp' r s1 s' \<and>
      (\<forall>as'. r = Some as' \<longrightarrow> tame (myKind k) as' \<and> myKind k = CoroutineK)"
    using "3.prems" sp' sch t
    by (intro "3.IH" scheduled_dom [OF sch]) (simp_all add: scheduled_def)
  then show ?case using ran_spawn [OF sch _ _ t] "3.prems"(1) s1 sp' by auto
next
  case (4 as)
  then show ?case
    by (auto simp: yield_def canYield_def task_yield_def with_task_def store_def ran_def new_jobs_def)
qed (auto simp: ran_def new_jobs_def)


section \<open>One turn of the loop\<close>

lemma makeCurrent_same: "myCurrentTask s th = Some t \<Longrightarrow> makeCurrent th t s = s"
  by (simp add: makeCurrent_def fun_upd_idem)

lemma run_handlers_frame [nx_frame]:
  "heap (run_handlers hs s) = heap s"
  "myTaskQueue (run_handlers hs s) = myTaskQueue s"
  "myTaskCount (run_handlers hs s) = myTaskCount s"
  "myActiveTaskCount (run_handlers hs s) = myActiveTaskCount s"
  "nextTask (run_handlers hs s) = nextTask s"
  "myCurrentTask (run_handlers hs s) = myCurrentTask s"
  "myPauseTasks (run_handlers hs s) = myPauseTasks s"
  "trace (run_handlers hs s) = trace s @ host_out hs"
proof (induction hs arbitrary: s)
  case (Cons h hs)
  { case 1 show ?case using Cons.IH(1) by (cases h) (simp_all add: run_handlers_def) }
  { case 2 show ?case using Cons.IH(2) by (cases h) (simp_all add: run_handlers_def) }
  { case 3 show ?case using Cons.IH(3) by (cases h) (simp_all add: run_handlers_def) }
  { case 4 show ?case using Cons.IH(4) by (cases h) (simp_all add: run_handlers_def) }
  { case 5 show ?case using Cons.IH(5) by (cases h) (simp_all add: run_handlers_def) }
  { case 6 show ?case using Cons.IH(6) by (cases h) (simp_all add: run_handlers_def) }
  { case 7 show ?case using Cons.IH(7) by (cases h) (simp_all add: run_handlers_def) }
  { case 8 show ?case using Cons.IH(8) by (cases h) (simp_all add: run_handlers_def) }
qed (simp_all add: run_handlers_def)

text \<open>Two task objects that differ only in their status and in whether the coroutine is built.\<close>

definition same_task :: "task \<Rightarrow> task \<Rightarrow> bool" where
  "same_task k k' \<longleftrightarrow> myKind k' = myKind k \<and> myHolds k' = myHolds k \<and> myHandler k' = myHandler k \<and>
     myCompletionHandlers k' = myCompletionHandlers k \<and>
     myCancellationHandlers k' = myCancellationHandlers k"

lemma task_create_current:
  assumes "heap s t = Some k" "myStatus k = INACTIVE" "myCurrentTask s th = Some t"
  shows "\<exists>k'. task_create th t s = Inr (s\<lparr>heap := (heap s)(t \<mapsto> k')\<rparr>) \<and> same_task k k' \<and> myStatus k' = CREATED"
proof (cases "myKind k")
  case TaskK
  with assms show ?thesis
    by (intro exI [of _ "k\<lparr>myStatus := CREATED\<rparr>"]) (simp add: task_create_def with_task_def store_def same_task_def)
next
  case CoroutineK
  then have "task_create th t s = Inr (s\<lparr>heap := (heap s)(t \<mapsto> k\<lparr>myStatus := CREATED, myCoroutine := True\<rparr>)\<rparr>)"
    using assms by (simp add: task_create_def with_task_def store_def makeCurrent_same)
  then show ?thesis by (auto simp: same_task_def)
qed

lemma task_enter_current:
  assumes k: "heap s t = Some k" "myStatus k \<noteq> ABORTED" and c: "myCurrentTask s th = Some t"
    and tame: "tame (myKind k) (myHandler k)" and dom: "dom (heap s) \<subseteq> {..<nextTask s}"
    and sp: "run_spec (myHandler k) = (tr, sp, r)"
  shows "\<exists>s1. task_enter th t s = Inr (case r of None \<Rightarrow> store t FINISHED s1 | Some as \<Rightarrow> set_handler t as s1) \<and>
     ran t tr sp r (store t ACTIVE s) s1 \<and> (\<forall>as. r = Some as \<longrightarrow> tame (myKind k) as \<and> myKind k = CoroutineK)"
proof -
  let ?a = "store t ACTIVE s"
  have a: "heap ?a = (heap s)(t \<mapsto> k\<lparr>myStatus := ACTIVE\<rparr>)" "nextTask ?a = nextTask s" "myCurrentTask ?a th = Some t"
    using k c by (simp_all add: store_def)
  moreover have "dom (heap ?a) \<subseteq> {..<nextTask ?a}" using dom k a by auto
  ultimately obtain s1 where "run_acts th (myHandler k) ?a = Inr (s1, r)" "ran t tr sp r ?a s1"
    "\<forall>as. r = Some as \<longrightarrow> tame (myKind k) as \<and> myKind k = CoroutineK"
    using run_acts_tame [of "k\<lparr>myStatus := ACTIVE\<rparr>" "myHandler k" ?a th t tr sp r] tame sp by auto
  moreover from this have "task_enter th t s =
      Inr (case r of None \<Rightarrow> store t FINISHED s1 | Some as \<Rightarrow> set_handler t as s1)"
    using k makeCurrent_same [OF a(3)] by (cases r) (simp_all add: task_enter_def with_task_def)
  ultimately show ?thesis by blast
qed

lemma ready_mono: "ready h t j \<Longrightarrow> h' t = h t \<Longrightarrow> ready h' t j"
  by (simp add: ready_def)


text \<open>
  What one turn does to a state whose popped task is \<open>t\<close>: the tasks \<open>ts\<close> are pushed and carry the
  jobs the abstract step adds, \<open>t\<close> is freed unless it is among them, every other task is untouched.
\<close>

definition turn :: "nat \<Rightarrow> nat \<Rightarrow> job \<Rightarrow> nat list \<Rightarrow> sched \<Rightarrow> sched \<Rightarrow> bool" where
  "turn th t j ts s s' \<longleftrightarrow>
     trace s' = trace s @ fst (step_jobs j []) \<and> myTaskQueue s' = myTaskQueue s @ ts \<and>
     list_all2 (ready (heap s')) ts (snd (step_jobs j [])) \<and> distinct ts \<and>
     set ts \<inter> (dom (heap s) - {t}) = {} \<and> (\<forall>u \<in> dom (heap s) - {t}. heap s' u = heap s u) \<and>
     dom (heap s') = (dom (heap s) - {t}) \<union> set ts \<and> dom (heap s') \<subseteq> {..<nextTask s'} \<and>
     myTaskCount s' = myTaskCount s + of_nat (length ts) \<and> myCurrentTask s' th = None \<and>
     myActiveTaskCount s' = myActiveTaskCount s \<and> myPauseTasks s' = myPauseTasks s"

lemma ran_dom:
  assumes r: "ran t tr sp r s s'" and t: "t \<in> dom (heap s)" and dom: "dom (heap s) \<subseteq> {..<nextTask s}"
  shows "dom (heap s') \<subseteq> {..<nextTask s'}"
    and "set [nextTask s..<nextTask s + length sp] \<inter> dom (heap s) = {}"
    and "u \<in> dom (heap s) - {t} \<Longrightarrow> heap s' u = heap s u"
proof -
  have d: "dom (heap s') = dom (heap s) \<union> set [nextTask s..<nextTask s + length sp]"
    and n: "nextTask s' = nextTask s + length sp"
    and u: "\<forall>u < nextTask s. u \<noteq> t \<longrightarrow> heap s' u = heap s u"
    using r unfolding ran_def Let_def by blast+
  have "{..<nextTask s} \<subseteq> {..<nextTask s'}" "set [nextTask s..<nextTask s + length sp] \<subseteq> {..<nextTask s'}"
    by (auto simp: n)
  with dom show "dom (heap s') \<subseteq> {..<nextTask s'}" unfolding d by (meson Un_least subset_trans)
  show "set [nextTask s..<nextTask s + length sp] \<inter> dom (heap s) = {}"
    unfolding disjoint_iff set_upt atLeastLessThan_iff
  proof (intro allI impI notI)
    fix x assume "nextTask s \<le> x \<and> x < nextTask s + length sp" "x \<in> dom (heap s)"
    with dom have "nextTask s \<le> x" "x < nextTask s" by (auto simp only: lessThan_iff dest: subsetD)
    then show False by simp
  qed
  show "heap s' u = heap s u" if "u \<in> dom (heap s) - {t}" using that dom u by blast
qed

text \<open>The end of a turn, for a closure that returned and for one that yielded.\<close>

lemma turn_finished:
  assumes ran: "ran t tr sp None s s1" and k: "heap s t = Some k"
    and dom: "dom (heap s) \<subseteq> {..<nextTask s}" and j: "run_spec (fst j) = (tr, sp, None)"
    and out: "snd j = host_out (myCompletionHandlers k)"
  shows "\<exists>s'. rbind (task_exit t (release_current th (store t FINISHED s1))) (delete_task t) = Inr s' \<and>
    turn th t j [nextTask s..<nextTask s + length sp] s s'"
proof -
  let ?new = "[nextTask s..<nextTask s + length sp]"
  let ?s2 = "release_current th (store t FINISHED s1)"
  let ?s3 = "run_handlers (myCompletionHandlers k) ?s2"
  define s' where "s' = Holder_destroy (myHolds k) (?s3\<lparr>heap := (heap ?s3)(t := None)\<rparr>)"
  have s1k: "heap s1 t = Some k" using ran k by (simp add: ran_def Let_def)
  then have ex: "rbind (task_exit t ?s2) (delete_task t) = Inr s'"
    by (simp add: task_exit_def with_task_def delete_task_def s'_def store_def release_current_def nx_frame)
  have fields: "heap s' = (heap s1)(t := None)" "myTaskQueue s' = myTaskQueue s1" "nextTask s' = nextTask s1"
      "trace s' = trace s1 @ snd j" "myTaskCount s' = myTaskCount s1" "myCurrentTask s' th = None"
      "myActiveTaskCount s' = myActiveTaskCount s1" "myPauseTasks s' = myPauseTasks s1"
    using s1k by (simp_all add: s'_def Holder_destroy_def release_def nx_frame store_def release_current_def out)
  note d = ran_dom [OF ran _ dom]
  have t: "t \<in> dom (heap s)" using k by auto
  then have tn: "t \<notin> set ?new" using d(2) by blast
  have "list_all2 (ready (heap s1)) ?new (new_jobs sp)" using ran by (simp add: ran_def Let_def)
  then have "list_all2 (ready (heap s')) ?new (new_jobs sp)"
    using tn by (auto elim!: list.rel_mono_strong ready_mono simp: fields)
  moreover have "step_jobs j [] = (tr @ snd j, new_jobs sp)" using j by (simp add: step_jobs_def)
  moreover have "dom (heap s') = (dom (heap s) - {t}) \<union> set ?new"
    using ran tn by (auto simp: fields ran_def Let_def)
  moreover have "dom (heap s') \<subseteq> {..<nextTask s'}" using d(1) [OF t] by (auto simp: fields)
  moreover have "\<forall>u \<in> dom (heap s) - {t}. heap s' u = heap s u" using d(3) [OF t] by (simp add: fields)
  ultimately have "turn th t j ?new s s'"
    using ran d(2) [OF t] unfolding turn_def ran_def Let_def by (auto simp: fields)
  with ex show ?thesis by blast
qed


lemma turn_yielded:
  assumes ran: "ran t tr sp (Some as) s s1" and k: "heap s t = Some k"
    and dom: "dom (heap s) \<subseteq> {..<nextTask s}" and j: "run_spec (fst j) = (tr, sp, Some as)"
    and out: "snd j = host_out (myCompletionHandlers k)" and tame: "tame (myKind k) as" "myKind k = CoroutineK"
  shows "\<exists>s3. s3 = set_handler t as s1 \<and> heap s3 t = Some (k\<lparr>myStatus := PENDING, myHandler := as\<rparr>) \<and>
    myCurrentTask s3 = myCurrentTask s \<and>
    (let s4 = release_current th (s3\<lparr>myTaskQueue := myTaskQueue s3 @ [t]\<rparr>) in
     turn th t j ([nextTask s..<nextTask s + length sp] @ [t]) s (s4\<lparr>myTaskCount := myTaskCount s4 + 1\<rparr>))"
proof -
  let ?new = "[nextTask s..<nextTask s + length sp]"
  let ?k = "k\<lparr>myStatus := PENDING, myHandler := as\<rparr>"
  define s3 where "s3 = set_handler t as s1"
  have s1k: "heap s1 t = Some (k\<lparr>myStatus := PENDING\<rparr>)" using ran k by (simp add: ran_def Let_def)
  then have fields: "heap s3 = (heap s1)(t \<mapsto> ?k)" "myTaskQueue s3 = myTaskQueue s1" "nextTask s3 = nextTask s1"
      "trace s3 = trace s1" "myTaskCount s3 = myTaskCount s1" "myCurrentTask s3 = myCurrentTask s1"
      "myActiveTaskCount s3 = myActiveTaskCount s1" "myPauseTasks s3 = myPauseTasks s1"
    by (simp_all add: s3_def set_handler_def)
  note d = ran_dom [OF ran _ dom]
  have t: "t \<in> dom (heap s)" using k by auto
  then have tn: "t \<notin> set ?new" using d(2) by blast
  have "list_all2 (ready (heap s1)) ?new (new_jobs sp)" using ran by (simp add: ran_def Let_def)
  then have "list_all2 (ready (heap s3)) ?new (new_jobs sp)"
    using tn by (auto elim!: list.rel_mono_strong ready_mono simp: fields)
  moreover have "ready (heap s3) t (as, snd j)"
    using tame out by (simp add: fields ready_def)
  moreover have "step_jobs j [] = (tr, new_jobs sp @ [(as, snd j)])" using j by (simp add: step_jobs_def)
  moreover have "dom (heap s3) = (dom (heap s) - {t}) \<union> set (?new @ [t])"
    using ran t by (auto simp: fields ran_def Let_def)
  moreover have "dom (heap s3) \<subseteq> {..<nextTask s3}" using d(1) [OF t] s1k by (auto simp: fields)
  moreover have "\<forall>u \<in> dom (heap s) - {t}. heap s3 u = heap s u" using d(3) [OF t] by (simp add: fields)
  ultimately have "let s4 = release_current th (s3\<lparr>myTaskQueue := myTaskQueue s3 @ [t]\<rparr>) in
     turn th t j (?new @ [t]) s (s4\<lparr>myTaskCount := myTaskCount s4 + 1\<rparr>)"
    using ran d(2) [OF t] tn unfolding turn_def ran_def Let_def
    by (auto simp: fields release_current_def intro!: list_all2_appendI)
  moreover have "myCurrentTask s3 = myCurrentTask s" using ran by (simp add: fields ran_def Let_def)
  ultimately show ?thesis using s3_def fields(1) by auto
qed


lemma turn_cong:
  assumes "turn th t j ts s1 s'" "dom (heap s1) = dom (heap s)" "\<forall>u. u \<noteq> t \<longrightarrow> heap s1 u = heap s u"
    "trace s1 = trace s" "myTaskQueue s1 = myTaskQueue s" "myTaskCount s1 = myTaskCount s"
    "myActiveTaskCount s1 = myActiveTaskCount s" "myPauseTasks s1 = myPauseTasks s"
  shows "turn th t j ts s s'"
  using assms unfolding turn_def by (elim conjE, intro conjI) (simp_all del: Un_subset_iff)

text \<open>The part of a turn from \<open>enter\<close> on.\<close>

definition enter_turn :: "nat \<Rightarrow> nat \<Rightarrow> sched \<Rightarrow> sched res" where
  "enter_turn th t s = rbind (task_enter th t s) (\<lambda>s2. rbind (current_status th s2) (\<lambda>st2.
       if st2 = PENDING then
         let s3 = release_current th (s2\<lparr>myTaskQueue := myTaskQueue s2 @ [t]\<rparr>)
         in Inr (s3\<lparr>myTaskCount := myTaskCount s3 + 1\<rparr>)
       else rbind (task_exit t (release_current th s2)) (delete_task t)))"

lemma process_task_inactive:
  "current_status th s = Inr INACTIVE \<Longrightarrow> task_create th t s = Inr s1 \<Longrightarrow> current_status th s1 = Inr CREATED
    \<Longrightarrow> process_task th t s = enter_turn th t s1"
  by (simp add: process_task_def enter_turn_def)

lemma process_task_pending:
  "current_status th s = Inr PENDING \<Longrightarrow> process_task th t s = enter_turn th t s"
  by (simp add: process_task_def enter_turn_def)

lemma entered:
  assumes k: "heap s t = Some k" "myStatus k = CREATED \<or> myStatus k = PENDING" and c: "myCurrentTask s th = Some t"
    and j: "tame (myKind k) (myHandler k)" "j = (myHandler k, host_out (myCompletionHandlers k))"
    and dom: "dom (heap s) \<subseteq> {..<nextTask s}"
  shows "\<exists>s' ts. enter_turn th t s = Inr s' \<and> turn th t j ts s s'"
proof -
  let ?a = "store t ACTIVE s" and ?k = "k\<lparr>myStatus := ACTIVE\<rparr>"
  obtain tr sp r where sp: "run_spec (myHandler k) = (tr, sp, r)" by (metis prod_cases3)
  from k(2) have "myStatus k \<noteq> ABORTED" by auto
  from task_enter_current [OF k(1) this c j(1) dom sp] obtain s1 where
    en: "task_enter th t s = Inr (case r of None \<Rightarrow> store t FINISHED s1 | Some as \<Rightarrow> set_handler t as s1)"
    and ran: "ran t tr sp r ?a s1" and y: "\<forall>as. r = Some as \<longrightarrow> tame (myKind k) as \<and> myKind k = CoroutineK"
    by blast
  have a: "heap ?a t = Some ?k" "dom (heap ?a) \<subseteq> {..<nextTask ?a}" "myCurrentTask ?a = myCurrentTask s"
    using k(1) dom by (auto simp: store_def)
  have s1k: "\<exists>k1. heap s1 t = Some k1" "myCurrentTask s1 th = Some t"
    using ran a c by (auto simp: ran_def Let_def)
  have cong: "turn th t j ts ?a s' \<Longrightarrow> turn th t j ts s s'" for ts s'
    by (erule turn_cong) (use k(1) in \<open>auto simp: store_def\<close>)
  show ?thesis
  proof (cases r)
    case None
    obtain s' where "rbind (task_exit t (release_current th (store t FINISHED s1))) (delete_task t) = Inr s'"
      and "turn th t j [nextTask ?a..<nextTask ?a + length sp] ?a s'"
      using turn_finished [OF ran [unfolded None] a(1,2), of j] sp None j(2) by auto
    moreover have "current_status th (store t FINISHED s1) = Inr FINISHED"
      using s1k by (auto simp: current_status_def with_task_def store_def)
    ultimately have "enter_turn th t s = Inr s'" "turn th t j [nextTask ?a..<nextTask ?a + length sp] s s'"
      using en None cong by (simp_all add: enter_turn_def)
    then show ?thesis by blast
  next
    case (Some as)
    from turn_yielded [OF ran [unfolded Some] a(1,2), of j] sp Some j(2) y obtain s3 where
      "s3 = set_handler t as s1" and s3: "heap s3 t = Some (?k\<lparr>myStatus := PENDING, myHandler := as\<rparr>)"
      "myCurrentTask s3 = myCurrentTask ?a" and
      tn: "let s4 = release_current th (s3\<lparr>myTaskQueue := myTaskQueue s3 @ [t]\<rparr>) in
       turn th t j ([nextTask ?a..<nextTask ?a + length sp] @ [t]) ?a (s4\<lparr>myTaskCount := myTaskCount s4 + 1\<rparr>)"
      by auto
    moreover have "current_status th s3 = Inr PENDING"
      using s3 a(3) c by (simp add: current_status_def with_task_def)
    ultimately have "enter_turn th t s = Inr (let s4 = release_current th (s3\<lparr>myTaskQueue := myTaskQueue s3 @ [t]\<rparr>)
        in s4\<lparr>myTaskCount := myTaskCount s4 + 1\<rparr>)"
      using en Some by (simp add: enter_turn_def Let_def)
    then show ?thesis using cong tn by (auto simp: Let_def)
  qed
qed

lemma process_task_ready:
  assumes t: "ready (heap s) t j" and c: "myCurrentTask s th = Some t" and dom: "dom (heap s) \<subseteq> {..<nextTask s}"
  shows "\<exists>s' ts. process_task th t s = Inr s' \<and> turn th t j ts s s'"
proof -
  obtain k where k: "heap s t = Some k" "myStatus k = INACTIVE \<or> (myStatus k = PENDING \<and> myKind k = CoroutineK)"
    "tame (myKind k) (myHandler k)" "j = (myHandler k, host_out (myCompletionHandlers k))"
    using t by (auto simp: ready_def)
  have st: "current_status th s = Inr (myStatus k)" using c k(1) by (simp add: current_status_def with_task_def)
  show ?thesis
  proof (cases "myStatus k = INACTIVE")
    case True
    then obtain k' where cr: "task_create th t s = Inr (s\<lparr>heap := (heap s)(t \<mapsto> k')\<rparr>)"
      and k': "same_task k k'" "myStatus k' = CREATED" using task_create_current [OF k(1) _ c] by blast
    let ?s1 = "s\<lparr>heap := (heap s)(t \<mapsto> k')\<rparr>"
    have "current_status th ?s1 = Inr CREATED" using c k' by (simp add: current_status_def with_task_def)
    then have p: "process_task th t s = enter_turn th t ?s1"
      using st True cr by (simp add: process_task_inactive)
    have "dom (heap ?s1) \<subseteq> {..<nextTask ?s1}" using dom k(1) by auto
    then obtain s' ts where "enter_turn th t ?s1 = Inr s'" "turn th t j ts ?s1 s'"
      using entered [of ?s1 t k' th j] k k' c unfolding same_task_def by (simp, blast)
    moreover from this(2) have "turn th t j ts s s'"
      by (rule turn_cong) (use k(1) in auto)
    ultimately show ?thesis using p by auto
  next
    case False
    with k(2) have pd: "myStatus k = PENDING" by blast
    with entered [OF k(1) _ c k(3,4) dom] st show ?thesis by (simp add: process_task_pending)
  qed
qed


lemma list_all2_ready_dom: "list_all2 (ready h) ts js \<Longrightarrow> set ts \<subseteq> dom h"
  by (induction rule: list_all2_induct) (auto simp: ready_def)

lemma step_jobs_append: "step_jobs j js = (fst (step_jobs j []), js @ snd (step_jobs j []))"
  by (simp add: step_jobs_def split: prod.splits option.splits)

lemma drain_step_ok:
  assumes ok: "drain_ok th s (j # js)" and q: "myTaskQueue s = t # q"
  shows "\<exists>s'. drain_step th t q s = Inr s' \<and> drain_ok th s' (snd (step_jobs j js)) \<and>
    trace s' = trace s @ fst (step_jobs j js) \<and> unqueued s' = unqueued s \<and>
    myActiveTaskCount s' = myActiveTaskCount s \<and> (\<forall>u \<in> unqueued s. heap s' u = heap s u)"
proof -
  let ?s = "s\<lparr>myTaskQueue := q, myActiveTaskCount := myActiveTaskCount s + 1, myTaskCount := myTaskCount s - 1,
      myCurrentTask := (myCurrentTask s)(th := Some t)\<rparr>"
  from ok q have t: "ready (heap s) t j" and qs: "list_all2 (ready (heap s)) q js" "distinct q" "t \<notin> set q"
    and cur: "myCurrentTask s th = None" and dom: "dom (heap s) \<subseteq> {..<nextTask s}" "\<not> myPauseTasks s"
    and cnt: "myTaskCount s = of_nat (length (j # js))"
    by (auto simp: drain_ok_def)
  have "makeCurrent th t (s\<lparr>myTaskQueue := q, myActiveTaskCount := myActiveTaskCount s + 1,
      myTaskCount := myTaskCount s - 1\<rparr>) = ?s" by (simp add: makeCurrent_def)
  moreover obtain s1 ts where p: "process_task th t ?s = Inr s1" and tn: "turn th t j ts ?s s1"
    using process_task_ready [of ?s t j th] t dom by auto
  ultimately have st: "drain_step th t q s = Inr (s1\<lparr>myActiveTaskCount := myActiveTaskCount s1 - 1\<rparr>)"
    by (simp add: drain_step_def Let_def)
  let ?s' = "s1\<lparr>myActiveTaskCount := myActiveTaskCount s1 - 1\<rparr>"
  have qd: "set q \<subseteq> dom (heap s) - {t}" using list_all2_ready_dom [OF qs(1)] qs(3) by blast
  have "list_all2 (ready (heap s1)) q js"
    using qs(1) by (rule list.rel_mono_strong) (use tn qd in \<open>auto simp: turn_def intro: ready_mono\<close>)
  then have "list_all2 (ready (heap s1)) (q @ ts) (js @ snd (step_jobs j []))"
    using tn by (auto simp: turn_def intro: list_all2_appendI)
  moreover have "distinct (q @ ts)" using tn qs qd by (auto simp: turn_def)
  moreover have "length ts = length (snd (step_jobs j []))"
    using tn by (auto simp: turn_def dest: list_all2_lengthD)
  ultimately have ok': "drain_ok th ?s' (snd (step_jobs j js))"
    using tn dom cnt unfolding drain_ok_def step_jobs_append [of j js] turn_def
    by (elim conjE) (simp del: Un_subset_iff)
  have "t \<in> dom (heap s)" using t by (auto simp: ready_def)
  then have "unqueued ?s' = unqueued s" using tn q qs(3) qd by (auto simp: unqueued_def turn_def)
  moreover have "trace ?s' = trace s @ fst (step_jobs j js)"
    using tn by (simp add: turn_def step_jobs_append [of j js])
  moreover have "myActiveTaskCount ?s' = myActiveTaskCount s" using tn by (simp add: turn_def)
  moreover have "\<forall>u \<in> unqueued s. heap ?s' u = heap s u" using tn q by (auto simp: unqueued_def turn_def)
  ultimately show ?thesis using st ok' by blast
qed

section \<open>The loop\<close>

lemma drain_loop_ok:
  "drain_ok th s js \<Longrightarrow> \<exists>s'. drain_loop th n s = Some (Inr (n + drain_count js, s')) \<and> drain_ok th s' [] \<and>
    trace s' = trace s @ drain_spec js \<and> unqueued s' = unqueued s \<and>
    myActiveTaskCount s' = myActiveTaskCount s \<and> (\<forall>u \<in> unqueued s. heap s' u = heap s u)"
proof (induction js arbitrary: s n rule: drain_spec.induct)
  case 1
  then show ?case by (auto simp: drain_loop.simps [of th n s] drain_ok_def)
next
  case (2 j js)
  from "2.prems" obtain t q where q: "myTaskQueue s = t # q" by (auto simp: drain_ok_def list_all2_Cons2)
  obtain s1 where s1: "drain_step th t q s = Inr s1" "drain_ok th s1 (snd (step_jobs j js))"
    "trace s1 = trace s @ fst (step_jobs j js)" "unqueued s1 = unqueued s" "myActiveTaskCount s1 = myActiveTaskCount s"
    "\<forall>u \<in> unqueued s. heap s1 u = heap s u"
    using drain_step_ok [OF "2.prems" q] by blast
  then have "drain_loop th n s = drain_loop th (Suc n) s1"
    using q by (simp add: drain_loop.simps [of th n s] drain_ok_def)
  with "2.IH" [OF s1(2), of "Suc n"] s1 show ?case by auto
qed

text \<open>The jobs that the queue of a state stands for, computed.\<close>

definition jobs_of :: "sched \<Rightarrow> job list" where
  "jobs_of s = map (\<lambda>t. case heap s t of None \<Rightarrow> ([], [])
     | Some k \<Rightarrow> (myHandler k, host_out (myCompletionHandlers k))) (myTaskQueue s)"

end
