(* ===== verification/SchedulerConc.thy ===== *)
theory SchedulerConc
  imports Scheduler
begin

text \<open>
  The counters of the scheduler under concurrency. \<open>Scheduler.thy\<close> runs one thread; here any number
  of threads run \<open>drainTasks\<close> and \<open>scheduleAbstractTask\<close> at once and every operation on an atomic
  variable or on the lock-free queue is a step of its own, in the order of the source. What a
  closure does is left open: while it runs it may schedule any number of tasks, yield or return.
\<close>

section \<open>The machine\<close>

text \<open>
  Where a thread stands. \<open>Outside\<close>: between two turns, or in code outside the loop;
  \<open>OutsideCounted\<close>: in \<open>scheduleAbstractTask\<close> after \<open>myTaskCount++\<close>, before the push; \<open>Popped\<close>,
  \<open>Activated\<close>, \<open>Running\<close>: after \<open>pop\<close>, after \<open>myActiveTaskCount++\<close>, after \<open>myTaskCount--\<close>;
  \<open>RunningCounted\<close>: the closure is in \<open>scheduleAbstractTask\<close>; \<open>Repushed\<close>: the pending task is back
  in the queue, \<open>myTaskCount++\<close> still to come; \<open>Leaving\<close>: only \<open>myActiveTaskCount--\<close> is left.
\<close>

datatype pc = Outside | OutsideCounted | Popped | Activated | Running | RunningCounted | Repushed | Leaving

record conc =
  c_queue :: nat
  c_taskCount :: usize
  c_activeCount :: usize
  c_threads :: "pc list"

definition at_pc :: "conc \<Rightarrow> nat \<Rightarrow> pc \<Rightarrow> bool" where
  "at_pc c i p \<longleftrightarrow> i < length (c_threads c) \<and> c_threads c ! i = p"

definition goto :: "nat \<Rightarrow> pc \<Rightarrow> conc \<Rightarrow> conc" where
  "goto i p c = c\<lparr>c_threads := (c_threads c)[i := p]\<rparr>"

inductive cstep :: "conc \<Rightarrow> conc \<Rightarrow> bool" where
  count: "at_pc c i Outside \<Longrightarrow> cstep c (goto i OutsideCounted (c\<lparr>c_taskCount := c_taskCount c + 1\<rparr>))"
| push: "at_pc c i OutsideCounted \<Longrightarrow> cstep c (goto i Outside (c\<lparr>c_queue := c_queue c + 1\<rparr>))"
| pop: "at_pc c i Outside \<Longrightarrow> c_queue c > 0 \<Longrightarrow> cstep c (goto i Popped (c\<lparr>c_queue := c_queue c - 1\<rparr>))"
| activate: "at_pc c i Popped \<Longrightarrow> cstep c (goto i Activated (c\<lparr>c_activeCount := c_activeCount c + 1\<rparr>))"
| uncount: "at_pc c i Activated \<Longrightarrow> cstep c (goto i Running (c\<lparr>c_taskCount := c_taskCount c - 1\<rparr>))"
| run_count: "at_pc c i Running \<Longrightarrow> cstep c (goto i RunningCounted (c\<lparr>c_taskCount := c_taskCount c + 1\<rparr>))"
| run_push: "at_pc c i RunningCounted \<Longrightarrow> cstep c (goto i Running (c\<lparr>c_queue := c_queue c + 1\<rparr>))"
| repush: "at_pc c i Running \<Longrightarrow> cstep c (goto i Repushed (c\<lparr>c_queue := c_queue c + 1\<rparr>))"
| recount: "at_pc c i Repushed \<Longrightarrow> cstep c (goto i Leaving (c\<lparr>c_taskCount := c_taskCount c + 1\<rparr>))"
| finish: "at_pc c i Running \<Longrightarrow> cstep c (goto i Leaving c)"
| leave: "at_pc c i Leaving \<Longrightarrow> cstep c (goto i Outside (c\<lparr>c_activeCount := c_activeCount c - 1\<rparr>))"

definition conc_init :: "nat \<Rightarrow> conc" where
  "conc_init n = \<lparr>c_queue = 0, c_taskCount = 0, c_activeCount = 0, c_threads = replicate n Outside\<rparr>"

inductive creach :: "nat \<Rightarrow> conc \<Rightarrow> bool" for n where
  init: "creach n (conc_init n)"
| step: "creach n c \<Longrightarrow> cstep c c' \<Longrightarrow> creach n c'"

definition c_remaining :: "conc \<Rightarrow> usize" where
  "c_remaining c = c_taskCount c + c_activeCount c"

section \<open>The invariant of the counters\<close>

text \<open>
  What a thread contributes to each counter beside the queue, as integers: a repushed task is in
  the queue before it is counted, so the contribution to \<open>myTaskCount\<close> can be negative.
\<close>

primrec task_part :: "pc \<Rightarrow> int" where
  "task_part Outside = 0"
| "task_part OutsideCounted = 1"
| "task_part Popped = 1"
| "task_part Activated = 1"
| "task_part Running = 0"
| "task_part RunningCounted = 1"
| "task_part Repushed = -1"
| "task_part Leaving = 0"

primrec active_part :: "pc \<Rightarrow> int" where
  "active_part Outside = 0"
| "active_part OutsideCounted = 0"
| "active_part Popped = 0"
| "active_part Activated = 1"
| "active_part Running = 1"
| "active_part RunningCounted = 1"
| "active_part Repushed = 1"
| "active_part Leaving = 1"

text \<open>The tasks a thread has in hand: popped and neither finished nor pushed back.\<close>

primrec in_hand :: "pc \<Rightarrow> nat" where
  "in_hand Outside = 0"
| "in_hand OutsideCounted = 0"
| "in_hand Popped = 1"
| "in_hand Activated = 1"
| "in_hand Running = 1"
| "in_hand RunningCounted = 1"
| "in_hand Repushed = 0"
| "in_hand Leaving = 0"

definition sum_parts :: "(pc \<Rightarrow> int) \<Rightarrow> conc \<Rightarrow> int" where
  "sum_parts f c = (\<Sum>p\<leftarrow>c_threads c. f p)"

definition tasks_in_hand :: "conc \<Rightarrow> nat" where
  "tasks_in_hand c = (\<Sum>p\<leftarrow>c_threads c. in_hand p)"

definition counters_inv :: "nat \<Rightarrow> conc \<Rightarrow> bool" where
  "counters_inv n c \<longleftrightarrow> length (c_threads c) = n \<and>
     c_taskCount c = of_int (int (c_queue c) + sum_parts task_part c) \<and>
     c_activeCount c = of_int (sum_parts active_part c)"

lemma sum_list_update_int:
  fixes f :: "'a \<Rightarrow> int"
  shows "i < length xs \<Longrightarrow> (\<Sum>p\<leftarrow>xs[i := q]. f p) = (\<Sum>p\<leftarrow>xs. f p) - f (xs ! i) + f q"
  by (induction xs arbitrary: i) (auto split: nat.split)

lemma goto_fields [simp]:
  "c_queue (goto i p c) = c_queue c" "c_taskCount (goto i p c) = c_taskCount c"
  "c_activeCount (goto i p c) = c_activeCount c" "length (c_threads (goto i p c)) = length (c_threads c)"
  by (simp_all add: goto_def)

lemma sum_parts_goto: "at_pc c i p \<Longrightarrow> c_threads c' = c_threads c \<Longrightarrow> sum_parts f (goto i q c') = sum_parts f c - f p + f q"
  by (simp add: sum_parts_def goto_def at_pc_def sum_list_update_int)

lemma counters_inv_step: "cstep c c' \<Longrightarrow> counters_inv n c \<Longrightarrow> counters_inv n c'"
  by (induction rule: cstep.induct) (simp_all add: counters_inv_def sum_parts_goto of_nat_diff)

lemma counters_inv_reach: "creach n c \<Longrightarrow> counters_inv n c"
proof (induction rule: creach.induct)
  case init
  show ?case by (simp add: counters_inv_def conc_init_def sum_parts_def sum_list_replicate)
next
  case (step c c')
  then show ?case by (blast intro: counters_inv_step)
qed

inductive_cases cstep_elim: "cstep c c'"

text \<open>\<open>remaining\<close> over the integers lies between the outstanding tasks and twice the threads above the queue.\<close>

lemma part_bounds:
  "int (in_hand p) \<le> task_part p + active_part p" "task_part p + active_part p \<le> 2"
  by (cases p; simp)+

lemma sum_parts_bounds:
  "int (tasks_in_hand c) \<le> sum_parts task_part c + sum_parts active_part c"
  "sum_parts task_part c + sum_parts active_part c \<le> 2 * int (length (c_threads c))"
proof -
  have "int (\<Sum>p\<leftarrow>ps. in_hand p) \<le> (\<Sum>p\<leftarrow>ps. task_part p) + (\<Sum>p\<leftarrow>ps. active_part p) \<and>
      (\<Sum>p\<leftarrow>ps. task_part p) + (\<Sum>p\<leftarrow>ps. active_part p) \<le> 2 * int (length ps)" for ps
  proof (induction ps)
    case (Cons p ps)
    then show ?case using part_bounds [of p] by simp
  qed simp
  then show "int (tasks_in_hand c) \<le> sum_parts task_part c + sum_parts active_part c"
    "sum_parts task_part c + sum_parts active_part c \<le> 2 * int (length (c_threads c))"
    by (simp_all add: tasks_in_hand_def sum_parts_def)
qed

lemma remaining_value:
  assumes "creach n c" "c_queue c + 2 * n < 2 ^ 64"
  shows "int (unat (c_remaining c)) = int (c_queue c) + sum_parts task_part c + sum_parts active_part c"
proof -
  let ?r = "int (c_queue c) + sum_parts task_part c + sum_parts active_part c"
  have inv: "counters_inv n c" using assms(1) by (rule counters_inv_reach)
  then have r: "c_remaining c = of_int ?r"
    by (simp add: counters_inv_def c_remaining_def)
  have "0 \<le> ?r" "?r < 2 ^ 64"
    using sum_parts_bounds [of c] inv assms(2) by (auto simp: counters_inv_def)
  then have "uint (c_remaining c) = ?r" unfolding r by (rule uint_of_int_small)
  then show ?thesis unfolding uint_nat .
qed

end
