(* ===== verification/SchedulerProps.thy ===== *)
theory SchedulerProps
  imports SchedulerRefine SchedulerConc TaskGroup
begin

text \<open>The properties of the scheduler, its counters and the task groups.\<close>

section \<open>Draining\<close>

text \<open>
  C2. The draining loop implements a first-in-first-out queue of jobs: on a queue of inactive or
  pending tasks whose closures neither throw, abort, pause nor await, \<open>drainTasks\<close> returns without
  undefined behaviour, has run the closures in the order of the abstract queue machine (a task
  that yields goes to the back, behind the tasks it scheduled), leaves the queue empty, the counter
  of queued tasks at zero and the counter of active tasks as it was, and has freed exactly the
  tasks it ran and those they scheduled.
\<close>

theorem drainTasks_fifo:
  assumes "drain_ok th s js"
  shows "\<exists>s'. drainTasks th s = Some (Inr (drain_count js, s')) \<and> trace s' = trace s @ drain_spec js \<and>
    myTaskQueue s' = [] \<and> queued s' = 0 \<and> active s' = active s \<and> myCurrentTask s' th = None \<and>
    dom (heap s') = dom (heap s) - set (myTaskQueue s)"
proof -
  obtain s' where s': "drain_loop th 0 s = Some (Inr (0 + drain_count js, s'))" "drain_ok th s' []"
    "trace s' = trace s @ drain_spec js" "unqueued s' = unqueued s" "myActiveTaskCount s' = myActiveTaskCount s"
    using drain_loop_ok [OF assms] by blast
  then have "drainTasks th s = Some (Inr (drain_count js, s'))"
    using assms by (simp add: drainTasks_def drain_ok_def)
  with s' show ?thesis by (auto simp: drain_ok_def unqueued_def queued_def active_def)
qed

definition sample_sched :: "sched" where
  "sample_sched =
     (case scheduleCoroutine (Some [Host 11, Yield, Host 12]) (new_scheduler 2) of
        Inl e \<Rightarrow> new_scheduler 2
      | Inr (t, s1) \<Rightarrow>
          (case scheduleTask (Some [Host 13, SpawnTask [Host 14]]) s1 of
             Inl e \<Rightarrow> s1
           | Inr (u, s2) \<Rightarrow> s2))"

lemma sample_sched_eq:
  "heap sample_sched = [0 \<mapsto> spawned CoroutineK False [Host 11, Yield, Host 12],
     1 \<mapsto> spawned TaskK True [Host 13, SpawnTask [Host 14]]]"
  "myTaskQueue sample_sched = [0, 1]" "nextTask sample_sched = 2" "myTaskCount sample_sched = 2"
  "myCurrentTask sample_sched = (\<lambda>_. None)" "myPauseTasks sample_sched = False" "trace sample_sched = []"
  "myActiveTaskCount sample_sched = 0" "hold_inv 0 sample_sched" "myThreadInitQueue sample_sched = []"
proof -
  let ?s0 = "new_scheduler 2"
  obtain s1 where s1: "scheduleCoroutine (Some [Host 11, Yield, Host 12]) ?s0 = Inr (nextTask ?s0, s1)"
    "scheduled ?s0 (spawned CoroutineK False [Host 11, Yield, Host 12]) s1"
    using scheduleCoroutine_scheduled by blast
  obtain s2 where s2: "scheduleTask (Some [Host 13, SpawnTask [Host 14]]) s1 = Inr (nextTask s1, s2)"
    "scheduled s1 (spawned TaskK True [Host 13, SpawnTask [Host 14]]) s2"
    using scheduleTask_scheduled by blast
  have eq: "sample_sched = s2" using s1(1) s2(1) by (simp add: sample_sched_def)
  have "hold_inv 0 ?s0" by (simp add: hold_inv_def held_def new_scheduler_def)
  then show "hold_inv 0 sample_sched"
    unfolding eq using s1(1) s2(1) by (blast intro: hold.I_scheduleTask hold.I_scheduleCoroutine)
  show "heap sample_sched = [0 \<mapsto> spawned CoroutineK False [Host 11, Yield, Host 12],
     1 \<mapsto> spawned TaskK True [Host 13, SpawnTask [Host 14]]]"
    "myTaskQueue sample_sched = [0, 1]" "nextTask sample_sched = 2" "myTaskCount sample_sched = 2"
    "myCurrentTask sample_sched = (\<lambda>_. None)" "myPauseTasks sample_sched = False" "trace sample_sched = []"
    "myActiveTaskCount sample_sched = 0" "myThreadInitQueue sample_sched = []"
    unfolding eq using s1(2) s2(2) by (simp_all add: scheduled_def new_scheduler_def)
qed

definition sample_jobs :: "job list" where
  "sample_jobs = [([Host 11, Yield, Host 12], []), ([Host 13, SpawnTask [Host 14]], [])]"

lemma sample_drain_ok: "drain_ok 0 sample_sched sample_jobs"
proof -
  have "ready (heap sample_sched) 0 ([Host 11, Yield, Host 12], [])"
    "ready (heap sample_sched) 1 ([Host 13, SpawnTask [Host 14]], [])"
    by (simp_all add: ready_def sample_sched_eq spawned_def)
  moreover have "dom (heap sample_sched) \<subseteq> {..<nextTask sample_sched}"
    by (simp add: sample_sched_eq)
  moreover have "myTaskCount sample_sched = of_nat (length sample_jobs)"
    by (simp add: sample_sched_eq sample_jobs_def)
  ultimately show ?thesis
    by (simp add: drain_ok_def sample_jobs_def sample_sched_eq(2,5,6))
qed

lemma sample_drain_spec: "drain_spec sample_jobs = [11, 13, 12, 14]"
  by (simp add: sample_jobs_def step_jobs_def new_jobs_def)

theorem drainTasks_fifo_witness:
  "\<exists>s'. drainTasks 0 sample_sched = Some (Inr (drain_count sample_jobs, s')) \<and>
    trace s' = [11, 13, 12, 14] \<and> heap s' = Map.empty"
  using drainTasks_fifo [OF sample_drain_ok] by (auto simp: sample_sched_eq sample_drain_spec)

text \<open>
  C12. When the main loop \<open>joinPool\<close> returns, no task that holds the scheduler is alive: for every
  closure, every I/O service and every drain callback that use the scheduler only through
  operations that keep the hold count exact, as long as fewer than \<open>2 ^ 64\<close> tasks are alive.
\<close>

theorem joinPool_no_live_holder:
  assumes "joinPool poll_one cb th s = Some (Inr s')" "hold_inv 0 s"
    and poll: "\<And>s. hold_inv 0 s \<Longrightarrow> hold_inv 0 (snd (poll_one s))"
    and cb: "\<And>s. hold_inv 0 s \<Longrightarrow> hold_inv 0 (cb s)" and small: "card (dom (heap s')) < 2 ^ 64"
  shows "\<forall>t k. heap s' t = Some k \<longrightarrow> \<not> myHolds k"
proof -
  have inv: "hold_inv 0 s'" "myHoldCount s' = 0"
    using hold.I_joinPool [OF assms(1,2) refl poll cb] by auto
  have "finite (dom (heap s'))"
    using inv(1) finite_subset [of _ "{..<nextTask s'}"] by (auto simp: hold_inv_def)
  moreover have "held s' \<subseteq> dom (heap s')" by (auto simp: held_def)
  ultimately have "card (held s') < 2 ^ 64"
    using card_mono small by (meson le_less_trans)
  then have "(of_nat (card (held s')) :: usize) = 0 \<longleftrightarrow> card (held s') = 0"
    by (rule of_nat_eq_0_iff_small)
  then have "held s' = {}" using inv finite_held [OF inv(1)] by (simp add: hold_inv_def)
  then show ?thesis by (auto simp: held_def)
qed

lemma sample_joinPool:
  "\<exists>s'. joinPool (Pair False) id 0 sample_sched = Some (Inr s') \<and> heap s' = Map.empty"
proof -
  let ?s = "sample_sched\<lparr>myThreadCount := myThreadCount sample_sched + 1\<rparr>"
  have "drain_ok 0 ?s sample_jobs" using sample_drain_ok by (simp add: drain_ok_def)
  then obtain s1 where s1: "drain_loop 0 0 ?s = Some (Inr (0 + drain_count sample_jobs, s1))"
    "drain_ok 0 s1 []" "unqueued s1 = unqueued ?s" using drain_loop_ok by blast
  then have h: "heap s1 = Map.empty"
    by (auto simp: unqueued_def drain_ok_def sample_sched_eq split: if_splits)
  have "dispatch_loop (Pair False) 0 ?s = (if myServiceStopped s1 then Some (Inr s1) else dispatch_loop (Pair False) 0 s1)"
    using s1(1) by (simp add: dispatch_loop.simps [of _ _ ?s] queued_def sample_sched_eq drainTasks_def)
  also have "\<dots> = Some (Inr s1)"
    using s1(2) by (simp add: dispatch_loop.simps [of _ _ s1] queued_def drain_ok_def)
  finally have dl: "dispatch_loop (Pair False) 0 ?s = Some (Inr s1)" .
  have d: "dispatcher (Pair False) 0 sample_sched = Some (Inr (s1\<lparr>myThreadCount := myThreadCount s1 - 1\<rparr>))"
    using dl by (simp add: dispatcher_def sample_sched_eq(10))
  have "hold_inv 0 (s1\<lparr>myThreadCount := myThreadCount s1 - 1\<rparr>)"
    by (rule hold.I_dispatcher [OF d sample_sched_eq(9)]) simp
  then have "myHoldCount s1 = 0" using h by (simp add: hold_inv_def held_def)
  then show ?thesis using d h by (simp add: joinPool.simps [of _ _ _ sample_sched])
qed

theorem joinPool_no_live_holder_witness:
  "\<exists>s'. joinPool (Pair False) id 0 sample_sched = Some (Inr s') \<and> (\<forall>t k. heap s' t = Some k \<longrightarrow> \<not> myHolds k)"
proof -
  obtain s' where s': "joinPool (Pair False) id 0 sample_sched = Some (Inr s')" "heap s' = Map.empty"
    using sample_joinPool by blast
  have "\<forall>t k. heap s' t = Some k \<longrightarrow> \<not> myHolds k"
    by (rule joinPool_no_live_holder [OF s'(1) sample_sched_eq(9)]) (simp_all add: s'(2))
  with s'(1) show ?thesis by blast
qed

text \<open>
  Under any interleaving of the worker threads, \<open>remaining()\<close> never reports fewer tasks than
  are outstanding (queued, or popped and not yet finished), so a zero means that there is none.
\<close>

theorem remaining_never_undercounts:
  assumes "creach n c" "c_queue c + 2 * n < 2 ^ 64"
  shows "c_queue c + tasks_in_hand c \<le> unat (c_remaining c)"
  using remaining_value [OF assms] sum_parts_bounds(1) [of c] by linarith

lemma sample_creach: "creach 1 \<lparr>c_queue = 1, c_taskCount = 1, c_activeCount = 0, c_threads = [Outside]\<rparr>"
proof -
  let ?c0 = "conc_init 1"
  let ?c1 = "goto 0 OutsideCounted (?c0\<lparr>c_taskCount := c_taskCount ?c0 + 1\<rparr>)"
  have "cstep ?c0 ?c1" by (rule cstep.count) (simp add: at_pc_def conc_init_def)
  then have "creach 1 ?c1" by (rule creach.step [OF creach.init])
  moreover have "cstep ?c1 (goto 0 Outside (?c1\<lparr>c_queue := c_queue ?c1 + 1\<rparr>))"
    by (rule cstep.push) (simp add: at_pc_def conc_init_def goto_def)
  ultimately have "creach 1 (goto 0 Outside (?c1\<lparr>c_queue := c_queue ?c1 + 1\<rparr>))" by (rule creach.step)
  then show ?thesis by (simp add: goto_def conc_init_def)
qed

theorem remaining_never_undercounts_witness:
  "(1::nat) \<le> unat (c_remaining \<lparr>c_queue = 1, c_taskCount = 1, c_activeCount = 0, c_threads = [Outside]\<rparr>)"
  using remaining_never_undercounts [OF sample_creach] by (simp add: tasks_in_hand_def)

text \<open>
  \<open>queued()\<close> alone gives no such guarantee: because a pending task is pushed back before
  \<open>myTaskCount\<close> is incremented, another worker can pop it first, and with two workers the counter
  is reached at \<open>2 ^ 64 - 1\<close> while no task is queued.
\<close>

lemma queued_wraps_below_zero:
  "\<exists>c. creach 2 c \<and> c_queue c = 0 \<and> c_taskCount c = 2 ^ 64 - 1"
proof -
  define s where "s = (\<lambda>q t a p0 p1. \<lparr>c_queue = q, c_taskCount = t, c_activeCount = a, c_threads = [p0, p1]\<rparr>)"
  note [simp] = s_def at_pc_def goto_def
  have st: "creach 2 c \<Longrightarrow> cstep c d \<Longrightarrow> d = c' \<Longrightarrow> creach 2 c'" for c d c' using creach.step by metis
  have "creach 2 (s 0 0 0 Outside Outside)"
    using creach.init [of 2] by (simp add: conc_init_def numeral_2_eq_2)
  then have "creach 2 (s 0 1 0 OutsideCounted Outside)" by (rule st) (rule cstep.count [of _ 0], auto)
  then have "creach 2 (s 1 1 0 Outside Outside)" by (rule st) (rule cstep.push [of _ 0], auto)
  then have "creach 2 (s 0 1 0 Popped Outside)" by (rule st) (rule cstep.pop [of _ 0], auto)
  then have "creach 2 (s 0 1 1 Activated Outside)" by (rule st) (rule cstep.activate [of _ 0], auto)
  then have "creach 2 (s 0 0 1 Running Outside)" by (rule st) (rule cstep.uncount [of _ 0], auto)
  then have "creach 2 (s 1 0 1 Repushed Outside)" by (rule st) (rule cstep.repush [of _ 0], auto)
  then have "creach 2 (s 0 0 1 Repushed Popped)" by (rule st) (rule cstep.pop [of _ 1], auto)
  then have "creach 2 (s 0 0 2 Repushed Activated)" by (rule st) (rule cstep.activate [of _ 1], auto)
  then have "creach 2 (s 0 (- 1) 2 Repushed Running)" by (rule st) (rule cstep.uncount [of _ 1], auto)
  then show ?thesis by (intro exI [of _ "s 0 (- 1) 2 Repushed Running"]) simp
qed

section \<open>Scheduling, aborting, groups\<close>

text \<open>
  Scheduling a task puts it at the back of the queue, counts it and starts worker threads until
  the thread group has reached its maximum; but the size of the group counts threads that have
  exited too, so once the group has its maximal size no thread is started whatever the queue holds.
\<close>

theorem scheduleAbstractTask_effect:
  assumes "myTaskCount s \<noteq> - 1"
  shows "scheduleAbstractTask t s = (t, s\<lparr>myTaskQueue := myTaskQueue s @ [t], myTaskCount := myTaskCount s + 1,
    myThreadGroup := max (myThreadGroup s) (unat (myMaxThreads s))\<rparr>)"
proof -
  have "myTaskCount s + 1 > 0" using assms by (metis add_eq_0_iff2 word_gt_0)
  then show ?thesis by (simp add: scheduleAbstractTask_def balanceThreads_eq)
qed

theorem scheduleAbstractTask_effect_witness:
  "scheduleAbstractTask 7 (new_scheduler 4) = (7, (new_scheduler 4)\<lparr>myTaskQueue := [7], myTaskCount := 1,
    myThreadGroup := 4\<rparr>)"
  using scheduleAbstractTask_effect [of "new_scheduler 4" 7] by (simp add: new_scheduler_def)

text \<open>
  A task that was aborted before its turn never runs: the turn that pops it runs no closure and
  no handler; it only leaves the task in the thread-specific pointer, alive.
\<close>

lemma aborted_task_never_runs:
  assumes "heap s t = Some k" "myStatus k = ABORTED"
  shows "drain_step th t q s =
    Inr (s\<lparr>myTaskQueue := q, myTaskCount := myTaskCount s - 1, myCurrentTask := (myCurrentTask s)(th \<mapsto> t)\<rparr>)"
  using assms
  by (simp add: drain_step_def Let_def makeCurrent_def process_task_def current_status_def with_task_def)

definition aborted_sched :: "sched" where
  "aborted_sched = (new_scheduler 1)\<lparr>myTaskQueue := [0], myTaskCount := 1, nextTask := 1, myHoldCount := 1,
     heap := [0 \<mapsto> (spawned TaskK True [Host 5])\<lparr>myStatus := ABORTED\<rparr>]\<rparr>"

lemma aborted_sched_turn:
  "drain_step 0 0 [] aborted_sched = Inr (aborted_sched\<lparr>myTaskQueue := [], myTaskCount := 0,
     myCurrentTask := [0 \<mapsto> 0]\<rparr>)"
  using aborted_task_never_runs [of aborted_sched 0 "(spawned TaskK True [Host 5])\<lparr>myStatus := ABORTED\<rparr>" 0 "[]"]
  by (simp add: aborted_sched_def new_scheduler_def)

text \<open>A task that holds the scheduler and is neither queued nor running any more keeps the main loop going.\<close>

lemma stranded_blocks_exit:
  assumes inv: "hold_inv 0 s1" and str: "stranded t None s1"
    and poll: "\<And>s. hold_inv 0 s \<Longrightarrow> hold_inv 0 (snd (poll_one s))"
      "\<And>s. stranded t None s \<Longrightarrow> stranded t None (snd (poll_one s))"
    and cb: "\<And>s. hold_inv 0 s \<Longrightarrow> hold_inv 0 (cb s)" "\<And>s. stranded t None s \<Longrightarrow> stranded t None (cb s)"
    and join: "joinPool poll_one cb th s1 = Some (Inr s')"
  shows "2 ^ 64 \<le> card (dom (heap s'))"
proof (rule ccontr)
  assume small: "\<not> 2 ^ 64 \<le> card (dom (heap s'))"
  have "stranded t None s'" using stranded.I_joinPool [OF join str refl poll(2) cb(2)] by blast
  then have h: "t \<in> held s'" by (simp add: stranded_def)
  have hi: "hold_inv 0 s'" "myHoldCount s' = 0" using hold.I_joinPool [OF join inv refl poll(1) cb(1)] by auto
  have fin: "finite (dom (heap s'))"
    using hi(1) finite_subset [of _ "{..<nextTask s'}"] by (auto simp: hold_inv_def)
  moreover have "held s' \<subseteq> dom (heap s')" by (auto simp: held_def)
  ultimately have "card (held s') < 2 ^ 64" using card_mono small by (meson le_less_trans not_le)
  then have "card (held s') = 0" using hi of_nat_eq_0_iff_small [of "card (held s')"] by (simp add: hold_inv_def)
  then show False using h finite_held [OF hi(1)] by simp
qed

lemma drain_step_strands:
  assumes q: "myTaskQueue s = t # q" "t \<notin> set q" and k: "heap s t = Some k" "myStatus k = ABORTED" "myHolds k"
    and inv: "hold_inv 0 s" and step: "drain_step th t q s = Inr s1"
  shows "stranded t None s1 \<and> hold_inv 0 s1"
proof
  have "s1 = s\<lparr>myTaskQueue := q, myTaskCount := myTaskCount s - 1, myCurrentTask := (myCurrentTask s)(th \<mapsto> t)\<rparr>"
    using step k by (simp add: drain_step_def Let_def makeCurrent_def process_task_def current_status_def with_task_def)
  then show "stranded t None s1" using q k inv by (auto simp: stranded_def held_def hold_inv_def)
  show "hold_inv 0 s1" by (rule hold.I_drain_step [OF inv q(1) step])
qed

text \<open>
  C13. Nobody deletes that task, because the thread-specific pointer has no cleanup function: when it
  holds the scheduler, as every task of \<open>scheduleTask\<close> does, the main loop never returns
  afterwards (as long as fewer than \<open>2 ^ 64\<close> tasks are alive), whatever else is scheduled.
\<close>

theorem aborted_holder_blocks_exit:
  assumes q: "myTaskQueue s = t # q" "t \<notin> set q" and k: "heap s t = Some k" "myStatus k = ABORTED" "myHolds k"
    and inv: "hold_inv 0 s" and step: "drain_step th t q s = Inr s1"
    and poll: "\<And>s. hold_inv 0 s \<Longrightarrow> hold_inv 0 (snd (poll_one s))"
      "\<And>s. stranded t None s \<Longrightarrow> stranded t None (snd (poll_one s))"
    and cb: "\<And>s. hold_inv 0 s \<Longrightarrow> hold_inv 0 (cb s)" "\<And>s. stranded t None s \<Longrightarrow> stranded t None (cb s)"
    and join: "joinPool poll_one cb th' s1 = Some (Inr s')"
  shows "2 ^ 64 \<le> card (dom (heap s'))"
  by (rule stranded_blocks_exit [OF conjunct2 [OF drain_step_strands [OF q k inv step]]
        conjunct1 [OF drain_step_strands [OF q k inv step]] poll cb join])

theorem aborted_holder_blocks_exit_witness:
  "\<nexists>s'. joinPool (Pair False) id 0 (aborted_sched\<lparr>myTaskQueue := [], myTaskCount := 0, myCurrentTask := [0 \<mapsto> 0]\<rparr>)
      = Some (Inr s') \<and> card (dom (heap s')) < 2 ^ 64"
proof -
  have inv: "hold_inv 0 aborted_sched"
    by (simp add: hold_inv_def held_def aborted_sched_def spawned_def)
  have step: "drain_step 0 0 [] aborted_sched = Inr (aborted_sched\<lparr>myTaskQueue := [], myTaskCount := 0,
     myCurrentTask := [0 \<mapsto> 0]\<rparr>)"
    by (simp add: drain_step_def Let_def makeCurrent_def process_task_def current_status_def with_task_def
        aborted_sched_def new_scheduler_def)
  have "2 ^ 64 \<le> card (dom (heap s'))" if "joinPool (Pair False) id 0 (aborted_sched\<lparr>myTaskQueue := [], myTaskCount := 0,
     myCurrentTask := [0 \<mapsto> 0]\<rparr>) = Some (Inr s')" for s'
    by (rule aborted_holder_blocks_exit [OF _ _ _ _ _ inv step _ _ _ _ that,
          where k = "(spawned TaskK True [Host 5])\<lparr>myStatus := ABORTED\<rparr>"])
      (simp_all add: aborted_sched_def spawned_def)
  then show ?thesis by (meson not_le)
qed

text \<open>
  A task group counts exactly: a group over distinct tasks that no handler counts yet starts
  with the number of tasks that are already done, and every later completion of one of the others
  adds one, so \<open>await\<close> stops waiting precisely when all have completed.
\<close>

theorem TaskGroup_counts_completions:
  assumes "distinct ts" "\<forall>t \<in> set ts. counted_by g s t 0"
    and "distinct es" "set es \<subseteq> {t \<in> set ts. \<not> task_done s t}" "length ts < 2 ^ 64"
  shows "\<exists>G s1 s2. new_TaskGroup g ts s = Inr (G, s1) \<and> exit_all es s1 = Inr s2 \<and>
    groups s2 g = of_nat (length (filter (task_done s) ts) + length es) \<and>
    (group_waiting G s2 \<longleftrightarrow> set es \<noteq> {t \<in> set ts. \<not> task_done s t})"
proof -
  let ?s0 = "s\<lparr>groups := (groups s)(g := 0)\<rparr>" and ?U = "{t \<in> set ts. \<not> task_done s t}"
  let ?G = "\<lparr>tg_tasks = ts, myFinished = g\<rparr>" and ?d = "length (filter (task_done s) ts)"
  have td: "task_done ?s0 = task_done s" "counted_by g ?s0 = counted_by g s"
    by (simp_all add: task_done_def counted_by_def fun_eq_iff)
  obtain s1 where s1: "attach_all g ts ?s0 = Inr s1" "groups s1 g = of_nat ?d"
    "\<forall>t \<in> set ts. counted_by g s1 t (if task_done s t then 0 else 1)"
    using attach_all_result [of ts g ?s0] assms(1,2) by (auto simp: td)
  have "\<forall>t \<in> set es. counted_by g s1 t 1" using s1(3) assms(4) by fastforce
  from exit_all_result [OF this] obtain s2 where s2: "exit_all es s1 = Inr s2"
    "groups s2 g = of_nat (?d + length es)" using s1(2) by auto
  have "length ts = ?d + length (filter (\<lambda>t. \<not> task_done s t) ts)"
    by (simp add: sum_length_filter_compl)
  moreover have U: "length (filter (\<lambda>t. \<not> task_done s t) ts) = card ?U"
    using assms(1) by (metis distinct_card distinct_filter set_filter)
  ultimately have len: "length ts = ?d + card ?U" by simp
  have es: "length es = card (set es)" using assms(3) by (simp add: distinct_card)
  have le: "card (set es) \<le> card ?U" using assms(4) by (intro card_mono) auto
  have "group_waiting ?G s2 \<longleftrightarrow> ?d + length es < length ts"
    using assms(5) le len es
    by (simp add: group_waiting_def s2(2) word_less_nat_alt unat_of_nat_small del: of_nat_add)
  also have "\<dots> \<longleftrightarrow> set es \<noteq> ?U"
    using len es le card_subset_eq [of ?U "set es"] assms(4) by auto
  finally show ?thesis
    using s1(1) s2 by (intro exI [of _ ?G] exI [of _ s1] exI [of _ s2]) (simp add: new_TaskGroup_def attach_def)
qed

definition group_sched :: "sched" where
  "group_sched = (new_scheduler 1)\<lparr>nextTask := 3,
     heap := [0 \<mapsto> spawned TaskK True [], 1 \<mapsto> spawned TaskK True [],
              2 \<mapsto> (spawned TaskK True [])\<lparr>myStatus := FINISHED\<rparr>]\<rparr>"

theorem TaskGroup_counts_completions_witness:
  "\<exists>G s1 s2. new_TaskGroup 0 [0, 1, 2] group_sched = Inr (G, s1) \<and> exit_all [1, 0] s1 = Inr s2 \<and>
    groups s2 0 = 3 \<and> \<not> group_waiting G s2"
proof -
  have d: "task_done group_sched = (\<lambda>t. t = 2)"
    by (auto simp: task_done_def group_sched_def spawned_def fun_eq_iff)
  have "\<forall>t \<in> set [0, 1, 2]. counted_by 0 group_sched t 0"
    by (simp add: counted_by_def group_sched_def spawned_def)
  from TaskGroup_counts_completions [OF _ this, of "[1, 0]"] show ?thesis
    by (auto simp: d)
qed

text \<open>
  But a task that is aborted while it runs and then returns is counted twice, once by its
  cancellation handler and once by its completion handler: a group of two waiting tasks stops
  waiting although the other one has not even started.
\<close>

theorem TaskGroup_counts_aborted_twice:
  assumes "new_TaskGroup g [t, u] s = Inr (G, s1)" "t \<noteq> u" "\<forall>v \<in> {t, u}. counted_by g s v 0"
    and "\<not> task_done s t" "\<not> task_done s u"
  shows "\<exists>s2 s3. task_abort t s1 = Inr s2 \<and> task_exit t s2 = Inr s3 \<and> \<not> group_waiting G s3 \<and>
    \<not> task_done s3 u"
proof -
  let ?s0 = "s\<lparr>groups := (groups s)(g := 0)\<rparr>"
  have td: "task_done ?s0 = task_done s" "counted_by g ?s0 = counted_by g s"
    by (simp_all add: task_done_def counted_by_def fun_eq_iff)
  have G: "G = \<lparr>tg_tasks = [t, u], myFinished = g\<rparr>" and at: "attach_all g [t, u] ?s0 = Inr s1"
    using assms(1) by (auto simp: new_TaskGroup_def attach_def rbind_eq_Inr)
  have s1: "groups s1 g = 0" "counted_by g s1 t 1" "\<not> task_done s1 u"
    using attach_all_result [of "[t, u]" g ?s0] at assms(2-) by (auto simp: td)
  then obtain k where k: "heap s1 t = Some k" "incs g (myCompletionHandlers k) = 1"
    "incs g (myCancellationHandlers k) = 1" by (auto simp: counted_by_def)
  obtain s2 where s2: "task_abort t s1 = Inr s2" using k by (simp add: task_abort_def with_task_def)
  from task_abort_groups [OF s2, of g] k s1 have h2: "heap s2 = (heap s1)(t \<mapsto> k\<lparr>myStatus := ABORTED\<rparr>)"
    "groups s2 g = 1" by auto
  obtain s3 where s3: "task_exit t s2 = Inr s3" using h2 by (simp add: task_exit_def with_task_def)
  from task_exit_groups [OF s3, of g] h2 k have "heap s3 = heap s2" "groups s3 g = 2" by auto
  moreover from this have "\<not> task_done s3 u" using h2 s1(3) assms(2) by (simp add: task_done_def)
  ultimately show ?thesis using s2 s3 by (auto simp: G group_waiting_def)
qed

theorem TaskGroup_counts_aborted_twice_witness:
  "\<exists>G s1 s2 s3. new_TaskGroup 0 [0, 1] group_sched = Inr (G, s1) \<and> task_abort 0 s1 = Inr s2 \<and>
    task_exit 0 s2 = Inr s3 \<and> \<not> group_waiting G s3 \<and> \<not> task_done s3 1"
proof -
  have c: "\<forall>v \<in> {0, 1}. counted_by 0 group_sched v 0" "\<not> task_done group_sched 0" "\<not> task_done group_sched 1"
    by (simp_all add: counted_by_def task_done_def group_sched_def spawned_def)
  obtain G s1 where "new_TaskGroup 0 [0, 1] group_sched = Inr (G, s1)"
    using attach_all_result [of "[0, 1]" 0 "group_sched\<lparr>groups := (groups group_sched)(0 := 0)\<rparr>"] c
    by (auto simp: new_TaskGroup_def attach_def counted_by_def)
  with TaskGroup_counts_aborted_twice [OF this _ c] show ?thesis by auto
qed

end
