(* ===== verification/EmitterProps.thy ===== *)
theory EmitterProps
  imports Emitter SchedulerRefine
begin

text \<open>The properties of handles to JavaScript objects, of value conversions and of the emitter.\<close>

section \<open>Handles and values\<close>

text \<open>
  Handles of the class \<open>NX::Object\<close> that are created, copied and destroyed in any order leave the
  protect counts as they were once all of them are destroyed: nothing leaks and nothing is released
  twice, even when one handle is destroyed repeatedly.
\<close>

theorem handles_balanced:
  assumes "handle_run cs ([], p) = Some (hs, p')" "\<not> list_ex move_or_assign cs"
    and "\<forall>h \<in> set hs. \<not> myContext h"
  shows "p' = p"
proof
  fix v
  have "balanced ([], p) p" by (simp add: balanced_def)
  then have "balanced (hs, p') p" using assms(1,2) handle_run_balanced by blast
  then have "p' v = p v + handle_refs hs v" by (simp add: balanced_def)
  moreover have "handle_refs hs v = 0" using assms(3) by (induction hs) auto
  ultimately show "p' v = p v" by simp
qed

theorem handles_balanced_witness:
  "\<exists>hs p'. handle_run [Wrap (Object 3), Copy 0, Destroy 0, Destroy 0, Destroy 1] ([], \<lambda>_. 0) = Some (hs, p') \<and>
    p' = (\<lambda>_. 0)"
proof -
  have ex: "\<exists>hs p'. handle_run [Wrap (Object 3), Copy 0, Destroy 0, Destroy 0, Destroy 1] ([], \<lambda>_. 0) = Some (hs, p') \<and>
    (\<forall>h \<in> set hs. \<not> myContext h)"
    by (simp add: Object_new_def Object_copy_def Object_clear_def Object_attach_def Let_def)
  then obtain hs p' where h: "handle_run [Wrap (Object 3), Copy 0, Destroy 0, Destroy 0, Destroy 1] ([], \<lambda>_. 0) = Some (hs, p')"
    "\<forall>h \<in> set hs. \<not> myContext h" by blast
  have "p' = (\<lambda>_. 0)" by (rule handles_balanced [OF h(1) _ h(2)]) simp
  with h(1) show ?thesis by blast
qed

text \<open>
  Moving or assigning a handle leaks: a value whose only handle is moved from, or overwrites
  another handle of the same value, stays protected after every handle is destroyed.
\<close>

lemma move_and_assign_leak:
  "handle_run [Wrap v, Move 0, Destroy 0, Destroy 1] ([], p) =
     Some ([\<lparr>myContext = False, myObject = None\<rparr>, \<lparr>myContext = False, myObject = None\<rparr>], JSValueProtect v p) \<and>
   handle_run [Wrap v, Wrap v, Assign 0 1, Destroy 0, Destroy 1] ([], p) =
     Some ([\<lparr>myContext = False, myObject = None\<rparr>, \<lparr>myContext = False, myObject = None\<rparr>], JSValueProtect v p)"
  by (simp_all add: Object_new_def Object_move_def Object_assign_def Object_clear_def Object_attach_def Let_def)

text \<open>
  \<open>Value::toString\<close> returns exactly the characters of the string; \<open>Value::toJSON\<close> returns them with
  the terminating NUL, so no JSON text it makes equals the text of the value.
\<close>

lemma toString_exact_toJSON_not:
  "toString_bytes s = s \<and> toJSON_bytes s = s @ [CHR 0x00] \<and> toJSON_bytes s \<noteq> s"
  by (simp_all add: toString_bytes_def toJSON_bytes_def get_utf8_def)

section \<open>Emitting\<close>

text \<open>
  C27. An emission on which at most one listener has its last call implements the abstract emitter:
  it calls every registered function once, in the order of registration, with the arguments; the
  listeners whose budget is spent are gone, the others have one call less, and no other event is
  touched.
\<close>

theorem emitFast_implements_budgets:
  assumes "one_last e m"
  shows "\<exists>m' x. emitFast en e as m = Inr (map (\<lambda>f. (f, as)) (fst (spec_emit (abs_emitter m e))), x, m') \<and>
    abs_emitter m' e = snd (spec_emit (abs_emitter m e)) \<and> (\<forall>e'. e' \<noteq> e \<longrightarrow> m' e' = m e')"
  using assms by (rule emitFast_spec)

definition sample_engine :: "engine" where
  "sample_engine = \<lparr>ToNumber = (\<lambda>v. case v of Number n \<Rightarrow> Inr n | _ \<Rightarrow> Inr NaN),
     ToString = (\<lambda>v. case v of String s \<Rightarrow> Inr s | _ \<Rightarrow> Inr ''[object Object]''),
     Stringify = (\<lambda>v n. Inr ''{}''), GetProperty = (\<lambda>v k. Inr Undefined), TypeErr = ErrorObj ''type error'',
     CallFunction = (\<lambda>f as. Inr Undefined), IsFunction = (\<lambda>v. case v of Object n \<Rightarrow> True | _ \<Rightarrow> False)\<rparr>"

definition sample_emitter :: "emitter" where
  "sample_emitter = addManyListener ''data'' (Object 2) 3 (addOnceListener ''data'' (Object 1) Map.empty)"

lemma sample_emitter_abs: "abs_emitter sample_emitter ''data'' = [(Object 1, Some 1), (Object 2, Some 3)]"
  by (simp add: sample_emitter_def addManyListener_def addOnceListener_def abs_emitter_def abs_event_def)

theorem emitFast_implements_budgets_witness:
  "\<exists>m' x. emitFast sample_engine ''data'' [Null] sample_emitter = Inr ([(Object 1, [Null]), (Object 2, [Null])], x, m') \<and>
    abs_emitter m' ''data'' = [(Object 2, Some 2)]"
proof -
  have "one_last ''data'' sample_emitter"
    by (simp add: sample_emitter_abs at_most_one_last_def last_call_def)
  from emitFast_implements_budgets [OF this, of sample_engine "[Null]"] show ?thesis
    by (auto simp: sample_emitter_abs spec_emit_def spend_def map_filter_simps)
qed

text \<open>
  A single listener registered with \<open>many\<close> and a positive count is called exactly that often: \<open>k\<close>
  emissions make \<open>min k n\<close> calls; registered with \<open>on\<close> it is called every time.
\<close>

theorem many_listener_called_exactly:
  assumes "m e = None" "n > 0"
  shows "\<exists>m1 m2. listener.emissions en e as k (addManyListener e f (int n) m) = Some (replicate (min k n) f, m1) \<and>
    listener.emissions en e as k (addListener e f m) = Some (replicate k f, m2)"
proof -
  have 1: "addManyListener e f (int n) m = emitter_add e f (Some n) m" "addListener e f m = emitter_add e f None m"
    by (simp_all add: emitter_add_def budget_count_def addListener_def)
  have "abs_emitter (emitter_add e f b m) e = [(f, b)]" for b
    using assms(1) by (simp add: listener.budgets_add) (simp add: abs_emitter_def)
  then show ?thesis
    unfolding 1 using listener.emissions_limited [of "emitter_add e f (Some n) m" e f n en as k] assms(2)
      listener.emissions_forever [of "emitter_add e f None m" e f en as k] by blast
qed

theorem many_listener_called_exactly_witness:
  "\<exists>m1 m2. listener.emissions sample_engine ''end'' [] 5 (addManyListener ''end'' (Object 4) (int 2) Map.empty) =
      Some (replicate (min 5 2) (Object 4), m1) \<and>
    listener.emissions sample_engine ''end'' [] 5 (addListener ''end'' (Object 4) Map.empty) =
      Some (replicate 5 (Object 4), m2)"
  using many_listener_called_exactly [of Map.empty "''end''" 2 sample_engine "[]" 5 "Object 4"] by simp

text \<open>
  When two listeners of an event have their last call in the same emission, as two \<open>once\<close>
  listeners do, \<open>tidy\<close> erases through an invalidated iterator: the emission is undefined behaviour.
\<close>

theorem two_last_calls_undefined:
  assumes "m e = Some evs" "\<not> one_last e m"
  shows "emitFast en e as m = Inl (UB ''erase through an invalidated iterator'') \<and>
    emit en e as m = Inl (UB ''erase through an invalidated iterator'')"
  using assms tidy_count_down_UB [of m e evs] by (simp_all add: emitFast_def emit_def)

theorem two_last_calls_undefined_witness:
  "emitFast sample_engine ''data'' [] (addOnceListener ''data'' (Object 5) sample_emitter) =
     Inl (UB ''erase through an invalidated iterator'')"
proof -
  let ?m = "addOnceListener ''data'' (Object 5) sample_emitter"
  have "?m = emitter_add ''data'' (Object 5) (Some 1) sample_emitter"
    by (simp add: addOnceListener_def emitter_add_def budget_count_def)
  then have "abs_emitter ?m ''data'' = [(Object 1, Some 1), (Object 2, Some 3), (Object 5, Some 1)]"
    by (simp add: abs_emitter_add sample_emitter_abs)
  then have "\<not> one_last ''data'' ?m" by (simp add: at_most_one_last_def last_call_def)
  moreover have "\<exists>evs. ?m ''data'' = Some evs" by (simp add: addOnceListener_def addManyListener_def)
  ultimately show ?thesis using two_last_calls_undefined by blast
qed

text \<open>
  \<open>off\<close> removes every registration of the function and nothing else: the other listeners keep
  their order and budgets, and the next emission does not call the function.
\<close>

theorem removeListener_effect:
  "abs_emitter (removeListener e f m) e = filter (\<lambda>b. fst b \<noteq> f) (abs_emitter m e) \<and>
   f \<notin> set (fst (spec_emit (abs_emitter (removeListener e f m) e))) \<and>
   (\<forall>e'. e' \<noteq> e \<longrightarrow> removeListener e f m e' = m e')"
proof (intro conjI)
  show 1: "abs_emitter (removeListener e f m) e = filter (\<lambda>b. fst b \<noteq> f) (abs_emitter m e)"
    by (simp add: removeListener_def abs_emitter_def filter_map comp_def abs_event_def split: option.splits)
  show "f \<notin> set (fst (spec_emit (abs_emitter (removeListener e f m) e)))"
    unfolding 1 by (auto simp: spec_emit_def)
  show "\<forall>e'. e' \<noteq> e \<longrightarrow> removeListener e f m e' = m e'"
    by (simp add: removeListener_def split: option.splits)
qed

theorem removeListener_effect_witness:
  "abs_emitter (removeListener ''data'' (Object 1) sample_emitter) ''data'' = [(Object 2, Some 3)] \<and>
   removeListener ''data'' (Object 1) sample_emitter ''end'' = sample_emitter ''end''"
  using removeListener_effect [of "''data''" "Object 1" sample_emitter]
  by (simp_all add: sample_emitter_abs)

lemma group_push_back_fresh:
  assumes "heap s t = Some (spawned TaskK True b)"
  shows "group_push_back t G s = Inr (G\<lparr>tg_tasks := tg_tasks G @ [t]\<rparr>,
    s\<lparr>heap := (heap s)(t \<mapsto> (spawned TaskK True b)\<lparr>myCancellationHandlers := [IncGroup (myFinished G)],
        myCompletionHandlers := [IncGroup (myFinished G)]\<rparr>)\<rparr>)"
  using assms
  by (simp add: group_push_back_def attach_task_def with_task_def addCompletionHandler_def
      addCancellationHandler_def spawned_def)

definition listener_task :: "(event \<Rightarrow> act list) \<Rightarrow> nat \<Rightarrow> event \<Rightarrow> task" where
  "listener_task body g ev = (spawned TaskK True (body ev))\<lparr>myCancellationHandlers := [IncGroup g],
     myCompletionHandlers := [IncGroup g]\<rparr>"

lemma schedule_calls_result:
  "\<exists>G' s'. schedule_calls body evs G s = Inr (G', s') \<and>
    tg_tasks G' = tg_tasks G @ [nextTask s..<nextTask s + length evs] \<and> myFinished G' = myFinished G \<and>
    myTaskQueue s' = myTaskQueue s @ [nextTask s..<nextTask s + length evs] \<and>
    nextTask s' = nextTask s + length evs \<and>
    (\<forall>u < nextTask s. heap s' u = heap s u) \<and>
    groups s' = groups s \<and> trace s' = trace s \<and> myPauseTasks s' = myPauseTasks s \<and>
    (\<forall>i < length evs. heap s' (nextTask s + i) = Some (listener_task body (myFinished G) (evs ! i)))"
proof (induction evs arbitrary: G s)
  case (Cons ev evs)
  let ?n = "nextTask s"
  obtain s1 where s1: "scheduleTask (Some (body ev)) s = Inr (?n, s1)" "scheduled s (spawned TaskK True (body ev)) s1"
    using scheduleTask_scheduled by blast
  have h1: "heap s1 = (heap s)(?n \<mapsto> spawned TaskK True (body ev))" "nextTask s1 = Suc ?n"
    "myTaskQueue s1 = myTaskQueue s @ [?n]" "groups s1 = groups s" "trace s1 = trace s" "myPauseTasks s1 = myPauseTasks s"
    using s1(2) by (auto simp: scheduled_def)
  define s2 where "s2 = s1\<lparr>heap := (heap s1)(?n \<mapsto> listener_task body (myFinished G) ev)\<rparr>"
  define G2 where "G2 = G\<lparr>tg_tasks := tg_tasks G @ [?n]\<rparr>"
  have pb: "group_push_back ?n G s1 = Inr (G2, s2)"
    using group_push_back_fresh [of s1 ?n "body ev" G] h1 by (simp add: s2_def G2_def listener_task_def)
  obtain G' s' where r: "schedule_calls body evs G2 s2 = Inr (G', s')"
    "tg_tasks G' = tg_tasks G2 @ [nextTask s2..<nextTask s2 + length evs]" "myFinished G' = myFinished G2"
    "myTaskQueue s' = myTaskQueue s2 @ [nextTask s2..<nextTask s2 + length evs]"
    "nextTask s' = nextTask s2 + length evs" "\<forall>u < nextTask s2. heap s' u = heap s2 u"
    "\<forall>i < length evs. heap s' (nextTask s2 + i) = Some (listener_task body (myFinished G2) (evs ! i))"
    "groups s' = groups s2" "trace s' = trace s2" "myPauseTasks s' = myPauseTasks s2"
    using Cons.IH by blast
  have n2: "nextTask s2 = Suc ?n" "myTaskQueue s2 = myTaskQueue s @ [?n]" by (simp_all add: s2_def h1)
  have up: "[?n..<?n + length (ev # evs)] = ?n # [Suc ?n..<Suc ?n + length evs]" by (simp add: upt_rec)
  have "heap s' (?n + i) = Some (listener_task body (myFinished G) ((ev # evs) ! i))" if "i < length (ev # evs)" for i
  proof (cases i)
    case 0
    then show ?thesis using r(6) n2 by (simp add: s2_def)
  next
    case (Suc j)
    then show ?thesis using r(7) n2 that by (simp add: G2_def)
  qed
  moreover have "\<forall>u < ?n. heap s' u = heap s u" using r(6) n2 by (simp add: s2_def h1)
  moreover have "schedule_calls body (ev # evs) G s = Inr (G', s')" using s1(1) pb r(1) by simp
  ultimately show ?case using r(2-5,8-) n2 h1 unfolding up
    by (intro exI [of _ G'] exI [of _ s']) (simp add: G2_def s2_def)
qed simp

text \<open>
  \<open>emitFastAndSchedule\<close> schedules one task per listener, in order, at the back of the queue, each
  running the call of its listener, and returns the group of exactly these tasks, each of which will
  count itself in the group.
\<close>

theorem emitFastAndSchedule_effect:
  assumes "m e = Some evs" "one_last e m"
  shows "\<exists>G m' s'. emitFastAndSchedule body e g m s = Inr (G, m', s') \<and>
    tg_tasks G = [nextTask s..<nextTask s + length evs] \<and> myFinished G = g \<and>
    myTaskQueue s' = myTaskQueue s @ tg_tasks G \<and>
    (\<forall>i < length evs. heap s' (tg_tasks G ! i) = Some (listener_task body g (evs ! i))) \<and>
    abs_emitter m' e = snd (spec_emit (abs_emitter m e))"
proof -
  let ?s = "s\<lparr>groups := (groups s)(g := 0)\<rparr>" and ?G = "\<lparr>tg_tasks = [], myFinished = g\<rparr>"
  have "new_TaskGroup g [] s = Inr (?G, ?s)" by (simp add: new_TaskGroup_def attach_def)
  moreover obtain m' where "tidy e (m(e \<mapsto> map count_down evs)) = Inr m'"
    "abs_emitter m' e = List.map_filter spend (abs_emitter m e)" using tidy_count_down [OF assms] by blast
  moreover obtain G' s' where "schedule_calls body evs ?G ?s = Inr (G', s')"
    "tg_tasks G' = [nextTask s..<nextTask s + length evs]" "myFinished G' = g"
    "myTaskQueue s' = myTaskQueue s @ [nextTask s..<nextTask s + length evs]"
    "\<forall>i < length evs. heap s' (nextTask s + i) = Some (listener_task body g (evs ! i))"
    using schedule_calls_result [of body evs ?G ?s] by auto
  ultimately show ?thesis using assms(1)
    by (intro exI [of _ G'] exI [of _ m'] exI [of _ s']) (simp add: emitFastAndSchedule_def spec_emit_def)
qed

theorem emitFastAndSchedule_effect_witness:
  "\<exists>G m' s'. emitFastAndSchedule (\<lambda>_. [Host 8]) ''data'' 0 sample_emitter (new_scheduler 2) = Inr (G, m', s') \<and>
    tg_tasks G = [0, 1] \<and> abs_emitter m' ''data'' = [(Object 2, Some 2)]"
proof -
  have "one_last ''data'' sample_emitter"
    by (simp add: sample_emitter_abs at_most_one_last_def last_call_def)
  moreover obtain evs where evs: "sample_emitter ''data'' = Some evs" "length evs = 2"
    by (simp add: sample_emitter_def addManyListener_def addOnceListener_def)
  ultimately show ?thesis
    using emitFastAndSchedule_effect [of sample_emitter "''data''" evs "\<lambda>_. [Host 8]" 0 "new_scheduler 2"]
    by (auto simp: sample_emitter_abs spec_emit_def spend_def map_filter_simps new_scheduler_def upt_rec)
qed

section \<open>The three ways to emit\<close>

text \<open>The exceptions that the listeners throw, in the order of the calls.\<close>

definition exceptions_of :: "engine \<Rightarrow> jsval list \<Rightarrow> jsval list \<Rightarrow> jsval list" where
  "exceptions_of en as fs = concat (map (\<lambda>f. case CallFunction en f as of Inl t \<Rightarrow> [t] | Inr _ \<Rightarrow> []) fs)"

lemma thrown_simps [simp]:
  "exceptions_of en as [] = []"
  "exceptions_of en as (f # fs) = (case CallFunction en f as of Inl t \<Rightarrow> [t] | Inr _ \<Rightarrow> []) @ exceptions_of en as fs"
  by (simp_all add: exceptions_of_def)

lemma call_all_exceptions:
  "call_all en as evs x = (if exceptions_of en as (map ev_handler evs) = [] then x
     else Some (List.last (exceptions_of en as (map ev_handler evs))))"
  by (induction evs arbitrary: x) (auto simp: call_all_def split: sum.splits)

lemma promise_all_exceptions:
  "\<exists>vs. length vs = length evs \<and> promise_all (map (call_settle en as) evs) =
     (case exceptions_of en as (map ev_handler evs) of [] \<Rightarrow> Resolved (Array vs) | t # _ \<Rightarrow> Rejected t)"
proof (induction evs)
  case (Cons ev evs)
  then obtain vs where vs: "length vs = length evs" "promise_all (map (call_settle en as) evs) =
     (case exceptions_of en as (map ev_handler evs) of [] \<Rightarrow> Resolved (Array vs) | t # _ \<Rightarrow> Rejected t)" by blast
  show ?case
  proof (cases "CallFunction en (ev_handler ev) as")
    case (Inl t)
    then show ?thesis by (simp add: call_settle_def Ex_list_of_length)
  next
    case (Inr v)
    then have "call_settle en as ev = Resolved v" by (simp add: call_settle_def)
    with vs Inr show ?thesis
      by (cases "exceptions_of en as (map ev_handler evs)") (auto intro: exI [of _ "v # vs"])
  qed
qed simp

lemma scheduled_emission:
  assumes "m e = Some evs"
  shows "\<exists>G s'. emitFastAndSchedule body e g m s = rbind (tidy e (m(e \<mapsto> map count_down evs))) (\<lambda>m'. Inr (G, m', s')) \<and>
    tg_tasks G = [nextTask s..<nextTask s + length evs] \<and> myFinished G = g"
proof -
  let ?s = "s\<lparr>groups := (groups s)(g := 0)\<rparr>" and ?G = "\<lparr>tg_tasks = [], myFinished = g\<rparr>"
  have "new_TaskGroup g [] s = Inr (?G, ?s)" by (simp add: new_TaskGroup_def attach_def)
  moreover obtain G' s' where "schedule_calls body evs ?G ?s = Inr (G', s')"
    "tg_tasks G' = [nextTask s..<nextTask s + length evs]" "myFinished G' = g"
    using schedule_calls_result [of body evs ?G ?s] by auto
  ultimately show ?thesis using assms
    by (intro exI [of _ G'] exI [of _ s']) (simp add: emitFastAndSchedule_def)
qed



end
