(* ===== verification/GlobalProps.thy ===== *)
theory GlobalProps
  imports Globals SchedulerProps EmitterProps
begin

text \<open>The properties of the globals: the caching getters and the timeouts.\<close>

section \<open>Getters\<close>

definition getter_lookup :: "getter \<Rightarrow> string" where
  "getter_lookup g = fst (snd g)"

lemma lazy_get_twice:
  assumes "myGlobals c (getter_lookup g) = None"
  shows "lazy_get g (snd (lazy_get g c)) = (fst (lazy_get g c), snd (lazy_get g c)) \<longleftrightarrow> snd (snd g) = getter_lookup g"
  using assms
  by (auto simp: lazy_get_def getter_lookup_def getGlobal_def setGlobal_def make_object_def split: prod.splits option.splits)

text \<open>
  Every getter of the namespaces makes its constructor once and returns the same afterwards, each under
  a name of its own, except \<open>Nexus.Net.SocketDevice\<close> and \<open>Nexus.Net.UDPSocket\<close>: they set another name than
  they look up, and make a new constructor, and a protection that stays, at every read.
\<close>

theorem getters_cache:
  assumes "g \<in> set all_getters" "myGlobals c (getter_lookup g) = None"
  shows "(lazy_get g (snd (lazy_get g c)) = (fst (lazy_get g c), snd (lazy_get g c)) \<longleftrightarrow>
      fst g \<notin> {''SocketDevice'', ''UDPSocket''}) \<and>
    distinct (map getter_lookup all_getters)"
proof -
  have "snd (snd g) = getter_lookup g \<longleftrightarrow> fst g \<notin> {''SocketDevice'', ''UDPSocket''}"
    using assms(1)
    by (auto simp: all_getters_def IO_Properties_def Net_Properties_def TCP_Properties_def HTTP_Properties_def
        HTTP2_Properties_def Nexus_Get_def EventEmitter_Get_def Scheduler_Get_def IO_Get_def Net_Get_def
        FileSystem_Get_def Console_Get_def Context_Get_def getter_lookup_def)
  moreover have "distinct (map getter_lookup all_getters)" by code_simp
  ultimately show ?thesis using lazy_get_twice [OF assms(2)] by blast
qed

definition sample_context :: nx_context where
  "sample_context = \<lparr>myGlobals = Map.empty, own_property = Map.empty, ctx_protects = (\<lambda>v. 0), next_object = 10\<rparr>"

theorem getters_cache_witness:
  "lazy_get IO_Get (snd (lazy_get IO_Get sample_context)) = (fst (lazy_get IO_Get sample_context), snd (lazy_get IO_Get sample_context))"
proof -
  have "IO_Get \<in> set all_getters" "myGlobals sample_context (getter_lookup IO_Get) = None"
    by (simp_all add: all_getters_def sample_context_def)
  from getters_cache [OF this] show ?thesis by (simp add: IO_Get_def)
qed

section \<open>Timeouts\<close>

lemma free_id_fresh: "n \<le> free_id n ids \<and> free_id n ids \<notin> set ids"
proof (induction n ids rule: free_id.induct)
  case (1 n ids)
  then show ?case by (cases "n \<in> set ids") (auto simp: free_id.simps [of n])
qed

text \<open>An engine that converts a number to itself.\<close>

definition number_engine :: "engine \<Rightarrow> bool" where
  "number_engine en \<longleftrightarrow> (\<forall>n. ToNumber en (Number n) = Inr n)"

definition timed_task :: "nat \<Rightarrow> nat \<Rightarrow> task" where
  "timed_task timer w = (spawned TaskK True [Host w])\<lparr>myCancellationHandlers := [CancelTimer timer]\<rparr>"

lemma setTimeout_ok:
  assumes "number_engine en" "0 \<le> ms" "ms < 2 ^ 32"
  shows "\<exists>p1. setTimeout en timer w (f # Number (Fin (of_int ms)) # as) tms p s =
    Inr ((Number (Fin (of_int (free_id 1 (map fst tms)))), None), (free_id 1 (map fst tms), nextTask s) # tms, p1,
         (hold s)\<lparr>heap := (heap s)(nextTask s \<mapsto> timed_task timer w), nextTask := Suc (nextTask s)\<rparr>)"
proof -
  have "scheduleTask_timed timer (Some [Host w]) s =
      Inr (nextTask s, (hold s)\<lparr>heap := (heap s)(nextTask s \<mapsto> timed_task timer w), nextTask := Suc (nextTask s)\<rparr>)"
    by (simp add: scheduleTask_timed_def scheduleTimed_def new_task_def Holder_def hold_def addCancellationHandler_def
        with_task_def Let_def timed_task_def spawned_def)
  moreover have "Value_toNumber en (arg (f # Number (Fin (of_int ms)) # as) 1) = Inr (Fin (of_int ms))"
    using assms(1) by (simp add: Value_toNumber_def arg_def number_engine_def)
  ultimately show ?thesis using assms(2,3)
    by (simp add: setTimeout_def to_integer_def Let_def)
qed

lemma clearTimeout_entry:
  assumes "number_engine en" "map_of tms i = Some t" "\<bar>i\<bar> < 2 ^ 31"
  shows "clearTimeout en [Number (Fin (of_int i))] tms s =
    (case task_abort t s of
       Inl (Exn m) \<Rightarrow> Inr (JSWrapException (Exn m), tms, s)
     | Inl e \<Rightarrow> Inl e
     | Inr s1 \<Rightarrow> Inr ((Undefined, None), filter (\<lambda>(k, t). k \<noteq> i) tms, s1))"
  using assms
  by (auto simp: clearTimeout_def Value_toNumber_def arg_def number_engine_def to_int32_def to_integer_def Let_def
      split: sum.splits exn.splits)

definition after_setTimeout :: "nat \<Rightarrow> nat \<Rightarrow> sched \<Rightarrow> sched" where
  "after_setTimeout timer w s =
     (hold s)\<lparr>heap := (heap s)(nextTask s \<mapsto> timed_task timer w), nextTask := Suc (nextTask s)\<rparr>"

definition timeout_id :: "timeouts \<Rightarrow> int" where
  "timeout_id tms = free_id 1 (map fst tms)"

text \<open>A cleared timeout is aborted, its timer is cancelled, its id is free again and no other is affected.\<close>

lemma filter_entry: "i \<notin> fst ` set tms \<Longrightarrow> filter (\<lambda>(k, t). k \<noteq> i) tms = tms"
  by (rule filter_True) force

lemma clearTimeout_aborts:
  assumes "number_engine en" "timeout_id tms < 2 ^ 31"
  shows "\<exists>s2. clearTimeout en [Number (Fin (of_int (timeout_id tms)))] ((timeout_id tms, nextTask s) # tms)
      (after_setTimeout timer w s) = Inr ((Undefined, None), tms, s2) \<and>
    s2 = (after_setTimeout timer w s)\<lparr>heap := (heap s)(nextTask s \<mapsto> (timed_task timer w)\<lparr>myStatus := ABORTED\<rparr>),
      cancelledTimers := cancelledTimers s @ [timer]\<rparr>"
proof -
  have i: "1 \<le> timeout_id tms" "timeout_id tms \<notin> fst ` set tms"
    using free_id_fresh [of 1 "map fst tms"] by (auto simp: timeout_id_def)
  then have "\<bar>timeout_id tms\<bar> < 2 ^ 31" using assms(2) by simp
  then show ?thesis
    using clearTimeout_entry [OF assms(1), of "(timeout_id tms, nextTask s) # tms" "timeout_id tms" "nextTask s"] filter_entry [OF i(2)]
    by (simp add: task_abort_def with_task_def store_def run_handlers_def after_setTimeout_def timed_task_def spawned_def hold_def)
qed

lemma hold_inv_after_setTimeout:
  assumes "hold_inv 0 s" shows "hold_inv 0 (after_setTimeout timer w s)"
proof (rule hold_inv_same [OF hold_inv_new_task [OF assms, of TaskK True "[Host w]"]])
  let ?s1 = "snd (new_task TaskK True [Host w] s)"
  have s1: "?s1 = (hold s)\<lparr>heap := (heap s)(nextTask s \<mapsto> spawned TaskK True [Host w]), nextTask := Suc (nextTask s)\<rparr>"
    by (simp add: new_task_def Holder_def hold_def spawned_def Let_def)
  show "held (after_setTimeout timer w s) = held ?s1"
    unfolding s1 by (auto simp: held_def after_setTimeout_def timed_task_def spawned_def)
  show "dom (heap (after_setTimeout timer w s)) = dom (heap ?s1)" "nextTask (after_setTimeout timer w s) = nextTask ?s1"
    "myHoldCount (after_setTimeout timer w s) = myHoldCount ?s1"
    unfolding s1 by (simp_all add: after_setTimeout_def hold_def)
qed

definition cleared :: "nat \<Rightarrow> nat \<Rightarrow> sched \<Rightarrow> sched" where
  "cleared timer w s = (after_setTimeout timer w s)\<lparr>heap := (heap s)(nextTask s \<mapsto> (timed_task timer w)\<lparr>myStatus := ABORTED\<rparr>),
     cancelledTimers := cancelledTimers s @ [timer]\<rparr>"

lemma hold_inv_cleared:
  assumes "hold_inv 0 s" shows "hold_inv 0 (timer_expired t (cleared timer w s))"
proof (rule hold_inv_same [OF hold_inv_after_setTimeout [OF assms, of timer w]])
  show "held (timer_expired t (cleared timer w s)) = held (after_setTimeout timer w s)"
    by (auto simp: held_def cleared_def after_setTimeout_def timed_task_def timer_expired_def scheduleAbstractTask_def Let_def)
qed (simp_all add: cleared_def after_setTimeout_def timer_expired_def scheduleAbstractTask_def Let_def hold_def)

text \<open>
  Clearing a timeout that has not fired keeps the program from ending: \<open>clearTimeout\<close> aborts the task and
  cancels its timer, the cancelled timer still calls the handler that queues the task, the task is
  skipped and never deleted, and the main loop never returns, as long as fewer than \<open>2 ^ 64\<close> tasks are
  alive.
\<close>

theorem clearTimeout_blocks_exit:
  assumes en: "number_engine en" and ms: "0 \<le> ms" "ms < 2 ^ 32" and few: "timeout_id tms < 2 ^ 31"
    and inv: "hold_inv 0 s" and idle: "myTaskQueue s = []"
    and set: "setTimeout en timer w (f # Number (Fin (of_int ms)) # as) tms p s = Inr ((Number i, None), tms1, p1, s1)"
    and clear: "clearTimeout en [Number i] tms1 s1 = Inr (r, tms2, s2)"
    and drain: "drain_step th (nextTask s) [] (timer_expired (nextTask s) s2) = Inr s3"
    and poll: "\<And>s. hold_inv 0 s \<Longrightarrow> hold_inv 0 (snd (poll_one s))"
      "\<And>t s. stranded t None s \<Longrightarrow> stranded t None (snd (poll_one s))"
    and cb: "\<And>s. hold_inv 0 s \<Longrightarrow> hold_inv 0 (cb s)" "\<And>t s. stranded t None s \<Longrightarrow> stranded t None (cb s)"
    and join: "joinPool poll_one cb th' s3 = Some (Inr s')"
  shows "2 ^ 64 \<le> card (dom (heap s'))"
proof -
  let ?t = "nextTask s"
  have "i = Fin (of_int (timeout_id tms))" "tms1 = (timeout_id tms, ?t) # tms" "s1 = after_setTimeout timer w s"
    using set setTimeout_ok [OF en ms, of timer w f as tms p s] by (auto simp: timeout_id_def after_setTimeout_def)
  then have s2: "s2 = cleared timer w s"
    using clear clearTimeout_aborts [OF en few, of s timer w] by (auto simp: cleared_def)
  let ?s4 = "timer_expired ?t s2"
  have q: "myTaskQueue ?s4 = [?t]" and k: "heap ?s4 ?t = Some ((timed_task timer w)\<lparr>myStatus := ABORTED\<rparr>)"
    using idle by (simp_all add: s2 timer_expired_def scheduleAbstractTask_def cleared_def after_setTimeout_def hold_def Let_def)
  have "stranded ?t None s3 \<and> hold_inv 0 s3"
    by (rule drain_step_strands [OF q _ k _ _ _ drain])
      (simp_all add: timed_task_def spawned_def s2 hold_inv_cleared [OF inv])
  then show ?thesis using stranded_blocks_exit [OF _ _ poll cb join] by blast
qed

theorem clearTimeout_blocks_exit_witness:
  "\<exists>tms1 p1 s1 r tms2 s2 s3. setTimeout sample_engine 7 5 [Object 1, Number (Fin 10)] [] (\<lambda>v. 0) (new_scheduler 2) =
      Inr ((Number (Fin 1), None), tms1, p1, s1) \<and>
    clearTimeout sample_engine [Number (Fin 1)] tms1 s1 = Inr (r, tms2, s2) \<and>
    drain_step 0 0 [] (timer_expired 0 s2) = Inr s3 \<and>
    (\<nexists>s'. joinPool (Pair False) id 0 s3 = Some (Inr s') \<and> card (dom (heap s')) < 2 ^ 64)"
proof -
  let ?s = "new_scheduler 2"
  have en: "number_engine sample_engine" by (simp add: number_engine_def sample_engine_def)
  have i: "timeout_id [] = 1" by (simp add: timeout_id_def free_id.simps)
  have inv: "hold_inv 0 ?s" by (simp add: hold_inv_def held_def new_scheduler_def)
  have n: "nextTask ?s = 0" "myTaskQueue ?s = []" by (simp_all add: new_scheduler_def)
  obtain p1 where set: "setTimeout sample_engine 7 5 [Object 1, Number (Fin (of_int 10))] [] (\<lambda>v. 0) ?s =
      Inr ((Number (Fin 1), None), [(1, 0)], p1, after_setTimeout 7 5 ?s)"
    using setTimeout_ok [OF en, of 10 7 5 "Object 1" "[]" "[]" "\<lambda>v. 0" ?s] i n by (auto simp: timeout_id_def after_setTimeout_def)
  have clear: "clearTimeout sample_engine [Number (Fin 1)] [(1, 0)] (after_setTimeout 7 5 ?s) =
      Inr ((Undefined, None), [], cleared 7 5 ?s)"
    using clearTimeout_aborts [OF en, of "[]" ?s 7 5] i n by (auto simp: cleared_def)
  obtain s3 where drain: "drain_step 0 0 [] (timer_expired 0 (cleared 7 5 ?s)) = Inr s3"
    by (simp add: drain_step_def Let_def makeCurrent_def process_task_def current_status_def with_task_def
        timer_expired_def scheduleAbstractTask_def cleared_def after_setTimeout_def hold_def new_scheduler_def)
  have "2 ^ 64 \<le> card (dom (heap s'))" if "joinPool (Pair False) id 0 s3 = Some (Inr s')" for s'
    by (rule clearTimeout_blocks_exit [OF en _ _ _ inv n(2) set clear _ _ _ _ _ that])
      (use drain i n in simp_all)
  moreover have "of_int 10 = (10 :: rat)" by simp
  ultimately show ?thesis using set clear drain by (metis not_le)
qed

lemma fired_drain_ok:
  assumes "drain_ok th s js"
  shows "drain_ok th (timer_expired (nextTask s) (after_setTimeout timer w s)) (js @ [([Host w], [])])"
proof -
  let ?s = "timer_expired (nextTask s) (after_setTimeout timer w s)"
  have h: "heap ?s = (heap s)(nextTask s \<mapsto> timed_task timer w)" "myTaskQueue ?s = myTaskQueue s @ [nextTask s]"
    "myCurrentTask ?s = myCurrentTask s" "nextTask ?s = Suc (nextTask s)" "myPauseTasks ?s = myPauseTasks s"
    "myTaskCount ?s = myTaskCount s + 1"
    by (simp_all add: timer_expired_def scheduleAbstractTask_def after_setTimeout_def hold_def Let_def)
  have r: "list_all2 (ready (heap s)) (myTaskQueue s) js" and dom: "dom (heap s) \<subseteq> {..<nextTask s}"
    using assms by (simp_all add: drain_ok_def)
  then have new: "nextTask s \<notin> set (myTaskQueue s)" using list_all2_ready_dom by blast
  have "list_all2 (ready (heap ?s)) (myTaskQueue s) js"
    unfolding list_all2_conv_all_nth
  proof (intro conjI allI impI)
    show len: "length (myTaskQueue s) = length js" using r by (rule list_all2_lengthD)
    fix i assume i: "i < length (myTaskQueue s)"
    with new have "myTaskQueue s ! i \<noteq> nextTask s" by (metis nth_mem)
    then have "heap ?s (myTaskQueue s ! i) = heap s (myTaskQueue s ! i)" unfolding h(1) by simp
    then show "ready (heap ?s) (myTaskQueue s ! i) (js ! i)"
      by (rule ready_mono [OF list_all2_nthD [OF r i]])
  qed
  moreover have "ready (heap ?s) (nextTask s) ([Host w], [])"
    by (simp add: ready_def h(1) timed_task_def spawned_def)
  ultimately have "list_all2 (ready (heap ?s)) (myTaskQueue ?s) (js @ [([Host w], [])])"
    by (simp add: h(2) list_all2_appendI)
  moreover have "dom (heap ?s) \<subseteq> {..<nextTask ?s}"
    unfolding h dom_fun_upd lessThan_Suc using dom by (simp add: subset_insertI2)
  ultimately show ?thesis using assms new by (simp add: drain_ok_def h)
qed

text \<open>
  A timeout that has fired stays in the table: its task has run and is deleted, its id is never used
  again, and \<open>clearTimeout\<close> with its id, which JavaScript allows at any time, uses the deleted task.
\<close>

theorem clearTimeout_after_fire:
  assumes "number_engine en" "0 \<le> ms" "ms < 2 ^ 32" "timeout_id tms < 2 ^ 31" "drain_ok th s js"
  shows "\<exists>i tms1 p1 s1 n s2. setTimeout en timer w (f # Number (Fin (of_int ms)) # as) tms p s =
      Inr ((Number i, None), tms1, p1, s1) \<and>
    drainTasks th (timer_expired (nextTask s) s1) = Some (Inr (n, s2)) \<and>
    trace s2 = trace s @ drain_spec (js @ [([Host w], [])]) \<and>
    clearTimeout en [Number i] tms1 s2 = Inl (UB ''use of a deleted task'')"
proof -
  let ?t = "nextTask s" and ?i = "timeout_id tms"
  let ?s = "timer_expired ?t (after_setTimeout timer w s)"
  obtain p1 where set: "setTimeout en timer w (f # Number (Fin (of_int ms)) # as) tms p s =
      Inr ((Number (Fin (of_int ?i)), None), (?i, ?t) # tms, p1, after_setTimeout timer w s)"
    using setTimeout_ok [OF assms(1-3), of timer w f as tms p s] by (auto simp: timeout_id_def after_setTimeout_def)
  have ok: "drain_ok th ?s (js @ [([Host w], [])])" by (rule fired_drain_ok [OF assms(5)])
  obtain s2 where s2: "drain_loop th 0 ?s = Some (Inr (0 + drain_count (js @ [([Host w], [])]), s2))" "drain_ok th s2 []"
    "trace s2 = trace ?s @ drain_spec (js @ [([Host w], [])])" "unqueued s2 = unqueued ?s"
    using drain_loop_ok [OF ok] by blast
  have d: "drainTasks th ?s = Some (Inr (drain_count (js @ [([Host w], [])]), s2))"
    using s2(1) ok by (simp add: drainTasks_def drain_ok_def)
  have "?t \<in> set (myTaskQueue ?s)"
    by (simp add: timer_expired_def scheduleAbstractTask_def Let_def)
  then have "heap s2 ?t = None" using s2(2,4) by (auto simp: unqueued_def drain_ok_def)
  then have abort: "task_abort ?t s2 = Inl (UB ''use of a deleted task'')"
    by (simp add: task_abort_def with_task_def)
  have "1 \<le> ?i" using free_id_fresh [of 1 "map fst tms"] by (simp add: timeout_id_def)
  then have "clearTimeout en [Number (Fin (of_int ?i))] ((?i, ?t) # tms) s2 = Inl (UB ''use of a deleted task'')"
    using clearTimeout_entry [OF assms(1), of "(?i, ?t) # tms" ?i ?t s2] assms(4) abort by simp
  moreover have "trace ?s = trace s"
    by (simp add: timer_expired_def scheduleAbstractTask_def after_setTimeout_def hold_def Let_def)
  ultimately show ?thesis using set d s2(3) by metis
qed

theorem clearTimeout_after_fire_witness:
  "\<exists>i tms1 p1 s1 n s2. setTimeout sample_engine 7 5 [Object 1, Number (Fin (of_int 10))] [] (\<lambda>v. 0) (new_scheduler 2) =
      Inr ((Number i, None), tms1, p1, s1) \<and>
    drainTasks 0 (timer_expired (nextTask (new_scheduler 2)) s1) = Some (Inr (n, s2)) \<and>
    trace s2 = [5] \<and> clearTimeout sample_engine [Number i] tms1 s2 = Inl (UB ''use of a deleted task'')"
proof -
  have en: "number_engine sample_engine" by (simp add: number_engine_def sample_engine_def)
  have i: "timeout_id [] < 2 ^ 31" by (simp add: timeout_id_def free_id.simps)
  have ok: "drain_ok 0 (new_scheduler 2) []" by (simp add: drain_ok_def new_scheduler_def)
  have t: "trace (new_scheduler 2) = []" by (simp add: new_scheduler_def)
  have d: "drain_spec ([] @ [([Host 5], [])]) = [5]" by (simp add: step_jobs_def new_jobs_def)
  show ?thesis
    using clearTimeout_after_fire [OF en _ _ i ok, of 10 7 5 "Object 1" "[]" "\<lambda>v. 0"] unfolding t d by simp
qed

text \<open>The function of a timeout keeps one protection after its closure is gone.\<close>

lemma setTimeout_leaks:
  assumes "setTimeout en timer w as tms p s = Inr ((v, None), tms1, p1, s1)"
  shows "timeout_closure_destroy as p1 = JSValueProtect (arg as 0) p"
proof -
  have "p1 = JSValueProtect (arg as 0) (snd (ProtectedArguments (drop 2 as) (snd (ProtectedArguments (take 2 as) p))))"
    using assms by (auto simp: setTimeout_def JSWrapException_def Let_def split: if_splits sum.splits exn.splits)
  then show ?thesis
    by (auto simp: timeout_closure_destroy_def ProtectedArguments_destroy_def ProtectedArguments_def JSValueProtect_def
        fold_protect fold_unprotect fun_eq_iff)
qed

end
