(* ===== verification/FileDevices.thy ===== *)
theory FileDevices
  imports Device
begin

text \<open>
  The file devices (\<open>src/classes/io/devices/file.cpp\<close>, \<open>include/classes/io/devices/file.h\<close>) over a model of
  the standard library's file streams: contents, position and the state bits, as the C++ standard
  describes \<open>read\<close>, \<open>readsome\<close>, \<open>tellg\<close> and \<open>seekg\<close>. The file does not change behind the device's back.
\<close>

section \<open>File streams\<close>

record fstream =
  content :: "byte list"
  fpos :: nat
  eofbit :: bool
  failbit :: bool
  badbit :: bool
  is_open :: bool
  gcount :: nat

definition open_stream :: "byte list option \<Rightarrow> fstream" where
  "open_stream file =
     \<lparr>content = (case file of None \<Rightarrow> [] | Some c \<Rightarrow> c), fpos = 0, eofbit = False, failbit = (file = None),
      badbit = False, is_open = (file \<noteq> None), gcount = 0\<rparr>"

definition good :: "fstream \<Rightarrow> bool" where
  "good s \<longleftrightarrow> \<not> eofbit s \<and> \<not> failbit s \<and> \<not> badbit s"

definition stream_fail :: "fstream \<Rightarrow> bool" where
  "stream_fail s \<longleftrightarrow> failbit s \<or> badbit s"

definition stream_close :: "fstream \<Rightarrow> fstream" where
  "stream_close s = (if is_open s then s\<lparr>is_open := False\<rparr> else s\<lparr>failbit := True\<rparr>)"

definition available :: "fstream \<Rightarrow> byte list" where
  "available s = (if is_open s then drop (fpos s) (content s) else [])"

definition sentry :: "fstream \<Rightarrow> fstream" where
  "sentry s = (if good s then s else s\<lparr>failbit := True\<rparr>)"

definition stream_read :: "nat \<Rightarrow> fstream \<Rightarrow> byte list \<times> fstream" where
  "stream_read n s =
     (if \<not> good s then ([], (sentry s)\<lparr>gcount := 0\<rparr>)
      else
        (let got = take n (available s);
             s1 = s\<lparr>fpos := fpos s + length got, gcount := length got\<rparr>
         in (got, if length got < n then s1\<lparr>eofbit := True, failbit := True\<rparr> else s1)))"

text \<open>\<open>readsome\<close> takes what \<open>in_avail\<close> reports, which is at most what is left; \<open>k\<close> is that number.\<close>

definition stream_readsome :: "nat \<Rightarrow> nat \<Rightarrow> fstream \<Rightarrow> byte list \<times> fstream" where
  "stream_readsome k n s =
     (if \<not> good s then ([], (sentry s)\<lparr>gcount := 0\<rparr>)
      else let got = take (min k n) (available s)
           in (got, s\<lparr>fpos := fpos s + length got, gcount := length got\<rparr>))"

definition tellg :: "fstream \<Rightarrow> int \<times> fstream" where
  "tellg s = (let s1 = sentry s in (if stream_fail s1 \<or> \<not> is_open s1 then - 1 else int (fpos s1), s1))"

definition seekg :: "int \<Rightarrow> Position \<Rightarrow> fstream \<Rightarrow> fstream" where
  "seekg off from s =
     (let s1 = sentry (s\<lparr>eofbit := False\<rparr>);
          base = (case from of Beginning \<Rightarrow> 0 | Current \<Rightarrow> int (fpos s1) | End \<Rightarrow> int (length (content s1)))
      in if stream_fail s1 then s1
         else if \<not> is_open s1 \<or> base + off < 0 then s1\<lparr>failbit := True\<rparr>
         else s1\<lparr>fpos := nat (base + off)\<rparr>)"

section \<open>FilePullDevice\<close>

record pull_device =
  pd_stream :: fstream
  pd_error :: "string option"

definition new_FilePullDevice :: "(string \<Rightarrow> byte list option) \<Rightarrow> string \<Rightarrow> pull_device res" where
  "new_FilePullDevice fs path =
     (if fs path = None then Inl (Exn (''file '' @ [CHR 0x27] @ path @ [CHR 0x27] @ '' not found''))
      else Inr \<lparr>pd_stream = open_stream (fs path), pd_error = None\<rparr>)"

text \<open>The JavaScript constructor: the device, or the exception and an empty object.\<close>

definition FilePullDevice_Constructor ::
  "(string \<Rightarrow> byte list option) \<Rightarrow> jsval list \<Rightarrow> (pull_device option \<times> jsval option)" where
  "FilePullDevice_Constructor fs as =
     (if as = [] \<or> \<not> has_type as 0 kString then (None, Some (ErrorObj ''argument must be a string path''))
      else
        (case new_FilePullDevice fs (string_of (arg as 0)) of
           Inl e \<Rightarrow> (None, Some (error_of e))
         | Inr d \<Rightarrow> (Some d, None)))"

definition io_error :: string where "io_error = ''Input/output error''"
definition invalid_seek :: string where "invalid_seek = ''Illegal seek''"

definition pull_devicePosition :: "pull_device \<Rightarrow> usize \<times> pull_device" where
  "pull_devicePosition d = (let (p, s) = tellg (pd_stream d) in (of_int p, d\<lparr>pd_stream := s\<rparr>))"

definition pull_deviceRead :: "nat \<Rightarrow> pull_device \<Rightarrow> (byte list \<times> pull_device) res" where
  "pull_deviceRead n d =
     (let (bs, s) = stream_read n (pd_stream d);
          d1 = d\<lparr>pd_stream := s\<rparr>
      in Inr (bs, if \<not> good s then d1\<lparr>pd_error := Some io_error\<rparr> else d1))"

definition pull_deviceSeek :: "usize \<Rightarrow> Position \<Rightarrow> pull_device \<Rightarrow> (usize \<times> pull_device) res" where
  "pull_deviceSeek pos from d =
     (let s = seekg (sint pos) from (pd_stream d);
          d1 = (if \<not> good s then d\<lparr>pd_stream := s, pd_error := Some invalid_seek\<rparr> else d\<lparr>pd_stream := s\<rparr>);
          (p, s2) = tellg s
      in Inr (of_int p, d1\<lparr>pd_stream := s2\<rparr>))"

definition sourceSize :: "pull_device \<Rightarrow> usize \<times> pull_device" where
  "sourceSize d =
     (let (current, s0) = tellg (pd_stream d);
          s1 = seekg 0 Beginning s0
      in if \<not> good s1 then (0, d\<lparr>pd_stream := s1, pd_error := Some invalid_seek\<rparr>)
         else
           (let (beg, s2) = tellg s1; s3 = seekg 0 End s2
            in if \<not> good s3 then (0, d\<lparr>pd_stream := s3, pd_error := Some invalid_seek\<rparr>)
               else
                 (let (end_pos, s4) = tellg s3; s5 = seekg current Beginning s4
                  in if \<not> good s5 then (0, d\<lparr>pd_stream := s5, pd_error := Some invalid_seek\<rparr>)
                     else (of_int (end_pos - beg), d\<lparr>pd_stream := s5\<rparr>))))"

definition pull_deviceBytesAvailable :: "pull_device \<Rightarrow> usize \<times> pull_device" where
  "pull_deviceBytesAvailable d =
     (let (n, d1) = sourceSize d; (p, s) = tellg (pd_stream d1)
      in (n - of_int p, d1\<lparr>pd_stream := s\<rparr>))"

definition pull_ops :: "pull_device source_ops" where
  "pull_ops =
     \<lparr>deviceReady = (\<lambda>d. good (pd_stream d)), deviceOpen = (\<lambda>d. is_open (pd_stream d)),
      deviceClose = (\<lambda>d. Inr (d\<lparr>pd_stream := stream_close (pd_stream d)\<rparr>)), deviceError = pd_error,
      deviceRead = pull_deviceRead, deviceBytesAvailable = Some pull_deviceBytesAvailable\<rparr>"

definition pull_eof :: "pull_device \<Rightarrow> bool" where
  "pull_eof d = eofbit (pd_stream d)"

section \<open>FileSinkDevice\<close>

text \<open>
  The output stream throws when an operation fails. Positions beyond the end of the file leave a hole
  of zero bytes when they are written to.
\<close>

record sink_device =
  sk_content :: "byte list"
  sk_pos :: nat
  sk_failed :: bool
  sk_open :: bool
  sk_error :: "string option"

definition ios_failure :: string where "ios_failure = ''basic_ios::clear: iostream error''"

definition new_FileSinkDevice :: "(string \<Rightarrow> bool) \<Rightarrow> string \<Rightarrow> sink_device res" where
  "new_FileSinkDevice writable path =
     (if writable path
      then Inr \<lparr>sk_content = [], sk_pos = 0, sk_failed = False, sk_open = True, sk_error = None\<rparr>
      else Inl (Exn ''failed opening file''))"

definition new_FileSinkDevice_fd :: "int \<Rightarrow> sink_device" where
  "new_FileSinkDevice_fd fd = \<lparr>sk_content = [], sk_pos = 0, sk_failed = False, sk_open = True, sk_error = None\<rparr>"

text \<open>
  The JavaScript constructor: a bad argument stores the exception but does not return, so it goes on
  to convert the argument to a file descriptor.
\<close>

definition FileSinkDevice_Constructor ::
  "engine \<Rightarrow> (string \<Rightarrow> bool) \<Rightarrow> jsval list \<Rightarrow> (sink_device option \<times> jsval option) res" where
  "FileSinkDevice_Constructor en writable as =
     (let type = JSValueGetType (arg as 0);
          exc = (if as = [] \<or> (type \<noteq> kString \<and> type \<noteq> kNumber)
                 then Some (ErrorObj ''argument must be a string path or file descriptor'') else None);
          made = (if type = kString
                  then new_FileSinkDevice writable (string_of (arg as 0))
                  else rbind (Value_toNumber en (arg as 0)) (\<lambda>n.
                       rbind (to_int32 n) (\<lambda>fd. Inr (new_FileSinkDevice_fd fd))))
      in case made of
           Inr d \<Rightarrow> Inr (Some d, exc)
         | Inl (Exn m) \<Rightarrow> Inr (None, Some (ErrorObj m))
         | Inl e \<Rightarrow> Inl e)"

definition overwrite :: "nat \<Rightarrow> byte list \<Rightarrow> byte list \<Rightarrow> byte list" where
  "overwrite p bs c = take p (c @ replicate (p - length c) 0) @ bs @ drop (p + length bs) c"

definition sink_deviceWrite :: "byte list option \<Rightarrow> sink_device \<Rightarrow> (usize \<times> sink_device) res" where
  "sink_deviceWrite buffer d =
     (if sk_failed d \<or> \<not> sk_open d then Inl (Exn ios_failure)
      else
        (case buffer of
           Some (b # bs) \<Rightarrow>
             Inr (of_nat (length (b # bs)),
                  d\<lparr>sk_content := overwrite (sk_pos d) (b # bs) (sk_content d),
                    sk_pos := sk_pos d + length (b # bs)\<rparr>)
         | _ \<Rightarrow> Inr (0, d)))"

definition sink_devicePosition :: "sink_device \<Rightarrow> usize" where
  "sink_devicePosition d = (if sk_failed d then of_int (- 1) else of_nat (sk_pos d))"

definition sink_deviceSeek :: "usize \<Rightarrow> Position \<Rightarrow> sink_device \<Rightarrow> (usize \<times> sink_device) res" where
  "sink_deviceSeek pos from d =
     (let base = (case from of Beginning \<Rightarrow> 0 | Current \<Rightarrow> int (sk_pos d) | End \<Rightarrow> int (length (sk_content d)));
          target = base + sint pos
      in if sk_failed d \<or> \<not> sk_open d \<or> target < 0 then Inl (Exn ios_failure)
         else Inr (of_int target, d\<lparr>sk_pos := nat target\<rparr>))"

definition FILE_BUFFER_SIZE :: nat where
  "FILE_BUFFER_SIZE = 8 * 1024 * 1024"

definition file_sink_ops :: "sink_device sink_ops" where
  "file_sink_ops =
     \<lparr>deviceReady = (\<lambda>d. \<not> sk_failed d), deviceOpen = sk_open,
      deviceClose = (\<lambda>d. Inr (d\<lparr>sk_open := False\<rparr>)), deviceError = sk_error,
      maxWriteBufferSize = FILE_BUFFER_SIZE, recommendedWriteBufferSize = FILE_BUFFER_SIZE,
      deviceWrite = sink_deviceWrite\<rparr>"

section \<open>FilePushDevice\<close>

text \<open>
  \<open>pushLoops\<close> is the number of scheduled runs of the read handler: every \<open>resume\<close> of a paused device
  schedules one, and each run schedules at most one more. \<open>pushEvents\<close> is what the listeners got.
\<close>

datatype push_event = DataEvent "byte list" | EndEvent | ErrorEvent jsval | PromiseResolved | PromiseRejected jsval

record push_device =
  pushFile :: "byte list option"
  pushState :: State
  pushStream :: fstream
  pushLoops :: nat
  pushEvents :: "push_event list"

definition new_FilePushDevice :: "byte list option \<Rightarrow> push_device" where
  "new_FilePushDevice file =
     \<lparr>pushFile = file, pushState = Paused, pushStream = open_stream file, pushLoops = 0, pushEvents = []\<rparr>"

definition push_deviceReady :: "push_device \<Rightarrow> bool" where
  "push_deviceReady d \<longleftrightarrow> pushState d = Paused \<and> good (pushStream d)"

definition push_resume :: "push_device \<Rightarrow> push_device" where
  "push_resume d =
     (if pushState d = Paused
      then d\<lparr>pushState := Resumed,
             pushStream := (if is_open (pushStream d) then pushStream d else open_stream (pushFile d)),
             pushLoops := pushLoops d + 1\<rparr>
      else d)"

definition push_pause :: "push_device \<Rightarrow> push_device" where
  "push_pause d = (if pushState d = Resumed then d\<lparr>pushState := Paused\<rparr> else d)"

definition push_reset :: "push_device \<Rightarrow> push_device" where
  "push_reset d = d\<lparr>pushStream := seekg 0 Beginning (pushStream d)\<rparr>"

definition emit_push :: "push_event list \<Rightarrow> push_device \<Rightarrow> push_device" where
  "emit_push es d = d\<lparr>pushEvents := pushEvents d @ es\<rparr>"

text \<open>
  One run of the read handler together with the settlement of the promise its \<open>data\<close> emission returns
  (\<open>listeners\<close>: \<open>None\<close> when every listener succeeds, \<open>Some e\<close> the rejection). \<open>k\<close> is what \<open>in_avail\<close>
  reports, \<open>cap\<close> the buffer size. A run takes one from \<open>pushLoops\<close> and gives it back when it reschedules.
\<close>

definition push_read ::
  "nat \<Rightarrow> (byte list \<Rightarrow> jsval option) \<Rightarrow> nat \<Rightarrow> push_device \<Rightarrow> push_device" where
  "push_read cap listeners k d =
     (if pushState d \<noteq> Resumed then d
      else
        (let (some, s1) = stream_readsome k cap (pushStream d);
             (bs, s2) = (if some = [] then stream_read cap s1 else (some, s1));
             d1 = d\<lparr>pushStream := s2\<rparr>
         in if bs \<noteq> [] then
              (case listeners bs of
                 None \<Rightarrow>
                   if \<not> eofbit s2 then emit_push [DataEvent bs] d1
                   else emit_push [DataEvent bs, EndEvent, PromiseResolved] (d1\<lparr>pushLoops := pushLoops d - 1\<rparr>)
               | Some e \<Rightarrow>
                   emit_push [DataEvent bs, ErrorEvent e, PromiseRejected e]
                     (d1\<lparr>pushState := Paused, pushLoops := pushLoops d - 1\<rparr>))
            else if eofbit s2 then
              emit_push [EndEvent, PromiseResolved] (d1\<lparr>pushState := Paused, pushLoops := pushLoops d - 1\<rparr>)
            else d1))"

text \<open>The read handler run until no run is scheduled, for one loop and at most \<open>fuel\<close> runs.\<close>

fun push_run :: "nat \<Rightarrow> nat \<Rightarrow> (byte list \<Rightarrow> jsval option) \<Rightarrow> (nat \<Rightarrow> nat) \<Rightarrow> push_device \<Rightarrow> push_device option" where
  "push_run 0 cap listeners avail d = (if pushLoops d = 0 then Some d else None)"
| "push_run (Suc fuel) cap listeners avail d =
     (if pushLoops d = 0 then Some d
      else push_run fuel cap listeners avail (push_read cap listeners (avail (fpos (pushStream d))) d))"

section \<open>Laws of the streams\<close>

lemma stream_read_good:
  assumes "good s" "is_open s"
  shows "stream_read n s =
    (take n (drop (fpos s) (content s)),
     s\<lparr>fpos := fpos s + min n (length (content s) - fpos s), gcount := min n (length (content s) - fpos s),
       eofbit := length (content s) - fpos s < n, failbit := length (content s) - fpos s < n\<rparr>)"
  using assms by (auto simp: stream_read_def available_def Let_def min_def good_def)

lemma seekg_good:
  assumes "good s" "is_open s" "0 \<le> off"
  shows "seekg off Beginning s = s\<lparr>fpos := nat off\<rparr>"
  using assms by (simp add: seekg_def sentry_def good_def stream_fail_def Let_def)

lemma seekg_end_good:
  assumes "good s" "is_open s"
  shows "seekg 0 End s = s\<lparr>fpos := length (content s)\<rparr>"
  using assms by (simp add: seekg_def sentry_def good_def stream_fail_def Let_def)

lemma tellg_good: "good s \<Longrightarrow> is_open s \<Longrightarrow> tellg s = (int (fpos s), s)"
  by (simp add: tellg_def sentry_def good_def stream_fail_def Let_def)

lemma sourceSize_good:
  assumes "good (pd_stream d)" "is_open (pd_stream d)"
  shows "sourceSize d = (of_nat (length (content (pd_stream d))), d)"
proof -
  let ?s = "pd_stream d"
  have g: "good (?s\<lparr>fpos := p\<rparr>)" "is_open (?s\<lparr>fpos := p\<rparr>)" for p using assms by (simp_all add: good_def)
  show ?thesis
    using assms g
    by (simp add: sourceSize_def tellg_good seekg_good seekg_end_good Let_def)
qed

lemma pull_deviceBytesAvailable_good:
  assumes "good (pd_stream d)" "is_open (pd_stream d)" "fpos (pd_stream d) \<le> length (content (pd_stream d))"
  shows "pull_deviceBytesAvailable d = (of_nat (length (content (pd_stream d)) - fpos (pd_stream d)), d)"
  using assms by (simp add: pull_deviceBytesAvailable_def sourceSize_good tellg_good Let_def of_nat_diff)

text \<open>A stream that has failed stays failed, whatever is done to it.\<close>

lemma failed_stays:
  assumes "failbit s"
  shows "failbit (snd (stream_read n s))" "failbit (seekg off from s)" "failbit (snd (tellg s))"
    "failbit (stream_close s)"
  using assms by (auto simp: stream_read_def good_def sentry_def seekg_def tellg_def stream_close_def stream_fail_def Let_def)

end
