(* ===== verification/DeviceProps.thy ===== *)
theory DeviceProps
  imports FileDevices EmitterProps
begin

text \<open>The properties of the device methods, over the file devices and, for writing, over any sink.\<close>

section \<open>Sinks\<close>

text \<open>
  What \<open>write\<close> relies on: a sink that is up (\<open>ok\<close>) is ready and open without an error, and takes
  at least one byte from the front of every chunk of at most the maximal size. \<open>accepted\<close> is what it
  has taken.
\<close>

locale sink =
  fixes ops :: "('d, 'm) sink_ops_scheme"
    and ok :: "'d \<Rightarrow> bool"
    and accepted :: "'d \<Rightarrow> byte list"
  assumes ok_up: "ok d \<Longrightarrow> deviceReady ops d \<and> deviceOpen ops d \<and> deviceError ops d = None"
    and sizes: "0 < recommendedWriteBufferSize ops" "0 < maxWriteBufferSize ops" "maxWriteBufferSize ops < 2 ^ 64"
    and takes: "ok d \<Longrightarrow> bs \<noteq> [] \<Longrightarrow> length bs \<le> maxWriteBufferSize ops \<Longrightarrow>
      \<exists>n d'. deviceWrite ops (Some bs) d = Inr (of_nat n, d') \<and> 0 < n \<and> n \<le> length bs \<and> ok d' \<and>
        accepted d' = accepted d @ take n bs"
begin

lemma write_step_progress:
  assumes "ok d" "written < length data"
  shows "\<exists>k d'. write_step ops data written d = Inr (Again (written + k), d') \<and> 0 < k \<and>
    written + k \<le> length data \<and> ok d' \<and> accepted d' = accepted d @ take k (drop written data)"
proof -
  define k where "k = min (min (recommendedWriteBufferSize ops) (length data - written)) (maxWriteBufferSize ops)"
  let ?bs = "take k (drop written data)"
  have k: "0 < k" "written + k \<le> length data" "k \<le> maxWriteBufferSize ops" "length ?bs = k"
    using sizes assms(2) by (auto simp: k_def)
  then have "?bs \<noteq> []" by auto
  with takes [OF assms(1) this] k obtain n d' where d': "deviceWrite ops (Some ?bs) d = Inr (of_nat n, d')" "ok d'"
    "accepted d' = accepted d @ take n ?bs" and n: "0 < n" "n \<le> k" by auto
  then have acc: "accepted d' = accepted d @ take n (drop written data)" by (simp add: min_def)
  have "unat (of_nat n :: usize) = n" using n k(3) sizes(3) by (intro unat_of_nat_small) simp
  moreover have "min (recommendedWriteBufferSize ops) (length data - written) \<noteq> 0" using sizes assms(2) by simp
  ultimately have "write_step ops data written d = Inr (Again (written + n), d')"
    using ok_up [OF assms(1)] assms(2) d'(1) by (simp add: write_step_def Let_def k_def)
  moreover have "written + n \<le> length data" using n k(2) by simp
  ultimately show ?thesis using d'(2) acc n(1) by blast
qed

lemma write_loop_delivers:
  "ok d \<Longrightarrow> written \<le> length data \<Longrightarrow>
    \<exists>d'. write_loop ops data written d = Some (Inr (Resolved (Number (Fin (of_nat (length data)))), d')) \<and>
      ok d' \<and> accepted d' = accepted d @ drop written data"
proof (induction "length data - written" arbitrary: written d rule: less_induct)
  case less
  show ?case
  proof (cases "written < length data")
    case False
    with less.prems have "written = length data" by simp
    then have "write_step ops data written d = Inr (WriteDone (Resolved (Number (Fin (of_nat (length data))))), d)"
      by (simp add: write_step_def)
    then have "write_loop ops data written d = Some (Inr (Resolved (Number (Fin (of_nat (length data)))), d))"
      by (simp add: write_loop.simps [of ops data written d])
    with less.prems \<open>written = length data\<close> show ?thesis by simp
  next
    case True
    then obtain k d1 where s: "write_step ops data written d = Inr (Again (written + k), d1)" "0 < k"
      "written + k \<le> length data" "ok d1" "accepted d1 = accepted d @ take k (drop written data)"
      using write_step_progress [OF less.prems(1)] by blast
    then have "write_loop ops data written d = write_loop ops data (written + k) d1"
      by (simp add: write_loop.simps [of ops data written d])
    moreover obtain d' where
      "write_loop ops data (written + k) d1 = Some (Inr (Resolved (Number (Fin (of_nat (length data)))), d'))"
      "ok d'" "accepted d' = accepted d1 @ drop (written + k) data"
      using less.hyps [OF _ s(4,3)] s(2) True by (metis diff_less_mono2 less_add_same_cancel1)
    moreover have "take k (drop written data) @ drop (written + k) data = drop written data"
      by (metis add.commute append_take_drop_id drop_drop)
    ultimately show ?thesis using s(5) by (metis append.assoc)
  qed
qed

end

definition file_sink_up :: "sink_device \<Rightarrow> bool" where
  "file_sink_up d \<longleftrightarrow> \<not> sk_failed d \<and> sk_open d \<and> sk_error d = None \<and> sk_pos d \<le> length (sk_content d)"

lemma take_overwrite:
  assumes "p \<le> length c"
  shows "take (p + length bs) (overwrite p bs c) = take p c @ bs" "p + length bs \<le> length (overwrite p bs c)"
  using assms by (simp_all add: overwrite_def)

interpretation file_sink: sink file_sink_ops file_sink_up "\<lambda>d. take (sk_pos d) (sk_content d)"
proof
  show "\<exists>n d'. deviceWrite file_sink_ops (Some bs) d = Inr (of_nat n, d') \<and> 0 < n \<and> n \<le> length bs \<and> file_sink_up d' \<and>
      take (sk_pos d') (sk_content d') = take (sk_pos d) (sk_content d) @ take n bs"
    if "file_sink_up d" "bs \<noteq> []" for d bs
  proof (intro exI [of _ "length bs"])
    show "\<exists>d'. deviceWrite file_sink_ops (Some bs) d = Inr (of_nat (length bs), d') \<and> 0 < length bs \<and>
        length bs \<le> length bs \<and> file_sink_up d' \<and>
        take (sk_pos d') (sk_content d') = take (sk_pos d) (sk_content d) @ take (length bs) bs"
      using that take_overwrite [of "sk_pos d" "sk_content d" bs]
      by (cases bs) (auto simp: file_sink_ops_def sink_deviceWrite_def file_sink_up_def)
  qed
qed (auto simp: file_sink_up_def file_sink_ops_def FILE_BUFFER_SIZE_def)



section \<open>Reading\<close>

fun read_chunks :: "nat list \<Rightarrow> pull_device \<Rightarrow> (byte list list \<times> pull_device) res" where
  "read_chunks [] d = Inr ([], d)"
| "read_chunks (n # ns) d =
     rbind (pull_deviceRead n d) (\<lambda>(bs, d1). rbind (read_chunks ns d1) (\<lambda>(cs, d2). Inr (bs # cs, d2)))"

definition pull_up :: "pull_device \<Rightarrow> bool" where
  "pull_up d \<longleftrightarrow> good (pd_stream d) \<and> is_open (pd_stream d) \<and> fpos (pd_stream d) \<le> length (content (pd_stream d))"

definition unread :: "pull_device \<Rightarrow> byte list" where
  "unread d = drop (fpos (pd_stream d)) (content (pd_stream d))"

lemma pull_deviceRead_within:
  assumes "pull_up d" "n \<le> length (unread d)"
  shows "\<exists>d'. pull_deviceRead n d = Inr (take n (unread d), d') \<and> pull_up d' \<and> unread d' = drop n (unread d)"
proof -
  let ?s = "pd_stream d"
  have n: "n \<le> length (content ?s) - fpos ?s" using assms(2) by (simp add: unread_def)
  then have "stream_read n ?s = (take n (unread d), ?s\<lparr>fpos := fpos ?s + n, gcount := n\<rparr>)"
    using assms(1) stream_read_good [of ?s n] by (simp add: pull_up_def unread_def good_def)
  then have "pull_deviceRead n d = Inr (take n (unread d), d\<lparr>pd_stream := ?s\<lparr>fpos := fpos ?s + n, gcount := n\<rparr>\<rparr>)"
    using assms(1) by (simp add: pull_deviceRead_def pull_up_def good_def)
  moreover have "fpos ?s + n \<le> length (content ?s)" using assms(1) n unfolding pull_up_def by linarith
  ultimately show ?thesis using assms(1) by (simp add: pull_up_def good_def unread_def add.commute)
qed


definition sample_pull :: "byte list \<Rightarrow> pull_device" where
  "sample_pull c = \<lparr>pd_stream = open_stream (Some c), pd_error = None\<rparr>"

lemma sample_pull_up: "pull_up (sample_pull c)" "unread (sample_pull c) = c"
  by (simp_all add: pull_up_def unread_def sample_pull_def open_stream_def good_def)


text \<open>
  \<open>read\<close> without a length returns everything that is left of a file, if anything is left, releasing
  its buffer to the array buffer and the protection of the device, which stays ready.
\<close>

theorem read_without_length_reads_rest:
  assumes "pull_up d" "unread d \<noteq> []" "length (unread d) < 2 ^ 64"
  shows "\<exists>d'. read_task pull_ops 0 d =
    Inr (\<lparr>ro_settle = Resolved (Buffer (unread d)), ro_buffer_released = True, ro_unprotected = True\<rparr>, d') \<and>
    pull_up d' \<and> unread d' = []"
proof -
  let ?n = "length (unread d)"
  have "pull_deviceBytesAvailable d = (of_nat ?n, d)"
    using pull_deviceBytesAvailable_good [of d] assms(1) by (simp add: pull_up_def unread_def)
  moreover have "(of_nat ?n :: usize) \<noteq> 0" using assms(2,3) of_nat_eq_0_iff_small [of ?n] by simp
  moreover have "unat (of_nat ?n :: usize) = ?n" using assms(3) by (rule unat_of_nat_small)
  moreover obtain d' where "pull_deviceRead ?n d = Inr (unread d, d')" "pull_up d'" "unread d' = []"
    using pull_deviceRead_within [OF assms(1), of ?n] by auto
  ultimately show ?thesis using assms(1) by (simp add: read_task_def pull_ops_def pull_up_def)
qed

theorem read_without_length_reads_rest_witness:
  "\<exists>d'. read_task pull_ops 0 (sample_pull [5, 6, 7]) =
    Inr (\<lparr>ro_settle = Resolved (Buffer [5, 6, 7]), ro_buffer_released = True, ro_unprotected = True\<rparr>, d') \<and> unread d' = []"
  using read_without_length_reads_rest [OF sample_pull_up(1) [of "[5, 6, 7]"]] by (auto simp: sample_pull_up)

text \<open>
  A read beyond the end of the file returns the rest of it and leaves the device unusable for good:
  however it is sought afterwards, every further \<open>readSync\<close> reports that the device is not ready, and
  every \<open>read\<close> with a length rejects while leaking its buffer and the protection of the device.
\<close>

theorem short_read_is_final:
  assumes "pull_up d" "length (unread d) < n" "pull_deviceRead n d = Inr (bs, d1)"
    and "pull_deviceSeek off from d1 = Inr (p, d2)" "0 < k" "k < 2 ^ 64"
  shows "bs = unread d \<and>
    js_readSync pull_ops [Number (Fin (of_nat k))] d2 = Inr (JSWrapException (Exn ''device not ready''), d2) \<and>
    read_task pull_ops (of_nat k) d2 = Inr (\<lparr>ro_settle = Rejected (ErrorObj ''device not ready''),
      ro_buffer_released = False, ro_unprotected = False\<rparr>, d2)"
proof -
  have r: "bs = unread d" "failbit (pd_stream d1)"
    using assms(1-3) stream_read_good [of "pd_stream d" n]
    by (auto simp: pull_deviceRead_def pull_up_def unread_def Let_def split: if_splits)
  then have "failbit (pd_stream d2)"
    using assms(4) failed_stays(2,3) [of "pd_stream d1"] failed_stays(3) [of "seekg (sint off) from (pd_stream d1)"]
    by (auto simp: pull_deviceSeek_def Let_def case_prod_beta)
  then have "\<not> deviceReady pull_ops d2" by (simp add: pull_ops_def good_def)
  moreover have "(of_nat k :: usize) \<noteq> 0" using assms(5,6) of_nat_eq_0_iff_small [of k] by simp
  ultimately show ?thesis using r(1) assms(5,6)
    by (simp add: js_readSync_def read_task_def has_type_def arg_def to_size_t_def to_integer_def)
qed

theorem short_read_is_final_witness:
  "\<exists>d1 p d2. pull_deviceRead 9 (sample_pull [5, 6]) = Inr ([5, 6], d1) \<and>
    pull_deviceSeek 0 Beginning d1 = Inr (p, d2) \<and>
    js_readSync pull_ops [Number (Fin (of_nat 1))] d2 =
      Inr (JSWrapException (Exn ''device not ready''), d2)"
proof -
  have total: "\<exists>x. pull_deviceRead n d = Inr x" "\<exists>y. pull_deviceSeek off pos d = Inr y" for n d off pos
    by (simp_all add: pull_deviceRead_def pull_deviceSeek_def case_prod_beta Let_def)
  obtain bs d1 where 1: "pull_deviceRead 9 (sample_pull [5, 6]) = Inr (bs, d1)"
    using total(1) by (metis surj_pair)
  obtain p d2 where 2: "pull_deviceSeek 0 Beginning d1 = Inr (p, d2)"
    using total(2) by (metis surj_pair)
  have "length (unread (sample_pull [5, 6])) < 9" by (simp add: sample_pull_up)
  from short_read_is_final [OF sample_pull_up(1) this 1 2, of 1] 1 2 show ?thesis
    by (auto simp: sample_pull_up)
qed

section \<open>Seeking\<close>

text \<open>What the engine's conversions do to numbers and strings.\<close>

definition sane_engine :: "engine \<Rightarrow> bool" where
  "sane_engine en \<longleftrightarrow> (\<forall>n. ToNumber en (Number n) = Inr n) \<and> (\<forall>s. ToString en (String s) = Inr s)"

lemma sane_sample_engine: "sane_engine sample_engine"
  by (simp add: sane_engine_def sample_engine_def)

lemma arg_simps: "arg [a, b] 0 = a" "arg [a, b] 1 = b" "arg [a, b] (Suc 0) = b" "arg [a] 0 = a"
  by (simp_all add: arg_def)

lemma check_seek_ok:
  "sane_engine en \<Longrightarrow> valid_position s \<Longrightarrow> check_seek en [Number n, String s] = Inr ()"
  by (simp add: check_seek_def has_type_def arg_simps Value_toString_def sane_engine_def)

lemma to_size_t_of_nat: "k < 2 ^ 64 \<Longrightarrow> to_size_t (Fin (of_nat k)) = Inr (of_nat k)"
  by (simp add: to_size_t_def to_integer_def)

text \<open>
  \<open>seek\<close> with the position \<open>begin\<close> (in any case) moves a ready file to the given offset and
  resolves with it, so that what is read next is the file from there on.
\<close>

theorem seek_begin_moves:
  assumes "sane_engine en" "iequals s ''begin''" "pull_up d" "k \<le> length (content (pd_stream d))" "k < 2 ^ 63"
  shows "\<exists>d'. js_seek_start en [Number (Fin (of_nat k)), String s] = Inr (Started (of_nat k, s)) \<and>
    seek_task pull_ops pull_deviceSeek (of_nat k) s d = Inr (Resolved (Number (Fin (of_nat k))), d') \<and>
    pull_up d' \<and> unread d' = drop k (content (pd_stream d))"
proof -
  let ?s = "(pd_stream d)\<lparr>fpos := k\<rparr>"
  have "valid_position s" using assms(2) by (simp add: valid_position_def iequals_def)
  then have 1: "js_seek_start en [Number (Fin (of_nat k)), String s] = Inr (Started (of_nat k, s))"
    using assms(1,5) check_seek_ok [of en s "Fin (of_nat k)"] to_size_t_of_nat [of k]
    by (simp add: js_seek_start_def arg_simps Value_toNumber_def Value_toString_def sane_engine_def)
  have up: "good ?s" "is_open ?s" using assms(3) by (simp_all add: pull_up_def good_def)
  have "seekg (int k) Beginning (pd_stream d) = ?s"
    using assms(3) by (simp add: seekg_good pull_up_def)
  then have "pull_deviceSeek (of_nat k) Beginning d = Inr (of_nat k, d\<lparr>pd_stream := ?s\<rparr>)"
    using up sint_of_nat_small [OF assms(5)] by (simp add: pull_deviceSeek_def tellg_good Let_def)
  moreover have "uint (of_nat k :: usize) = int k" using assms(5) by (intro uint_of_nat_small) simp
  then have "(of_int (uint (of_nat k :: usize)) :: rat) = of_nat k" by (simp only: of_int_of_nat_eq)
  ultimately have "seek_task pull_ops pull_deviceSeek (of_nat k) s d =
      Inr (Resolved (Number (Fin (of_nat k))), d\<lparr>pd_stream := ?s\<rparr>)"
    using assms(2,3) by (simp add: seek_task_def position_of_def pull_ops_def pull_up_def)
  with 1 up assms(4) show ?thesis by (simp add: pull_up_def unread_def)
qed

theorem seek_begin_moves_witness:
  "\<exists>d'. seek_task pull_ops pull_deviceSeek 2 ''Begin'' (sample_pull [5, 6, 7]) =
      Inr (Resolved (Number (Fin 2)), d') \<and> unread d' = [7]"
proof -
  have "iequals ''Begin'' ''begin''" by code_simp
  from seek_begin_moves [OF sane_sample_engine this sample_pull_up(1), of 2 "[5, 6, 7]"] show ?thesis
    by (auto simp: sample_pull_def open_stream_def)
qed

text \<open>
  \<open>seekSync\<close>, \<open>readSeekSync\<close> and \<open>writeSeekSync\<close> never work on a ready device: they take the offset from
  the position argument, whose numeric value is \<open>NaN\<close>, so for every valid call the conversion to
  \<open>size_t\<close> is undefined behaviour, whatever the device does.
\<close>

theorem seekSync_undefined:
  assumes "sane_engine en" "valid_position s" "ToNumber en (String s) = Inr NaN"
    and "ToString en (Number n) = Inr t" "deviceReady ops d"
  shows "js_seekSync en ops doSeek [Number n, String s] d = Inl (UB ''conversion out of range'')"
  using assms check_seek_ok [OF assms(1,2)]
  by (simp add: js_seekSync_def arg_simps Value_toString_def Value_toNumber_def to_size_t_def to_integer_def Let_def)

theorem seekSync_undefined_witness:
  "js_seekSync sample_engine pull_ops pull_deviceSeek [Number (Fin 2), String ''begin''] (sample_pull [5, 6, 7]) =
     Inl (UB ''conversion out of range'')"
  by (rule seekSync_undefined [OF sane_sample_engine])
    (simp_all add: valid_position_def iequals_def sample_engine_def pull_ops_def sample_pull_def open_stream_def good_def)

section \<open>The push device\<close>

definition push_up :: "push_device \<Rightarrow> bool" where
  "push_up d \<longleftrightarrow> pushState d = Resumed \<and> pushLoops d = 1 \<and> good (pushStream d) \<and> is_open (pushStream d)"

definition push_rest :: "push_device \<Rightarrow> byte list" where
  "push_rest d = drop (fpos (pushStream d)) (content (pushStream d))"

lemma readsome_good:
  assumes "good s" "is_open s"
  shows "stream_readsome k n s = (take (min k n) (drop (fpos s) (content s)),
    s\<lparr>fpos := fpos s + length (take (min k n) (drop (fpos s) (content s))),
      gcount := length (take (min k n) (drop (fpos s) (content s)))\<rparr>)"
  using assms by (simp add: stream_readsome_def available_def Let_def)

text \<open>One run of the handler: it delivers a non-empty prefix of the rest, or it ends the stream.\<close>

lemma push_read_cases:
  assumes "push_up d" "0 < cap"
  shows "(\<exists>bs d'. push_read cap (\<lambda>_. None) k d = d' \<and> bs \<noteq> [] \<and> push_up d' \<and> push_rest d = bs @ push_rest d' \<and>
      pushEvents d' = pushEvents d @ [DataEvent bs]) \<or>
    (\<exists>d'. push_read cap (\<lambda>_. None) k d = d' \<and> pushLoops d' = 0 \<and>
      pushEvents d' = pushEvents d @ map DataEvent (if push_rest d = [] then [] else [push_rest d]) @
        [EndEvent, PromiseResolved])"
proof -
  let ?s = "pushStream d"
  let ?a = "take (min k cap) (push_rest d)"
  have up: "good ?s" "is_open ?s" "pushState d = Resumed" "pushLoops d = 1" using assms(1) by (simp_all add: push_up_def)
  show ?thesis
  proof (cases "?a = []")
    case False
    define a where "a = ?a"
    define s1 where "s1 = ?s\<lparr>fpos := fpos ?s + length a, gcount := length a\<rparr>"
    let ?d' = "push_read cap (\<lambda>_. None) k d"
    have rs: "stream_readsome k cap ?s = (a, s1)"
      using readsome_good [OF up(1,2), of k cap] by (simp add: a_def s1_def push_rest_def)
    have ne: "a \<noteq> []" using False by (simp add: a_def)
    have "\<not> eofbit s1" using up(1) by (simp add: s1_def good_def)
    then have d': "?d' = d\<lparr>pushStream := s1, pushEvents := pushEvents d @ [DataEvent a]\<rparr>"
      using ne up rs by (simp add: push_read_def emit_push_def)
    have "push_rest ?d' = drop (length a) (push_rest d)"
      by (simp add: d' s1_def push_rest_def add.commute)
    moreover have "a = take (length a) (push_rest d)" unfolding a_def by (metis length_take min.commute take_take take_all_iff le_refl)
    ultimately have "push_rest d = a @ push_rest ?d'" by (metis append_take_drop_id)
    moreover have "push_up ?d'" using up by (simp add: d' s1_def push_up_def good_def)
    ultimately show ?thesis using ne by (intro disjI1 exI [of _ a] exI [of _ ?d']) (simp add: d')
  next
    case True
    let ?s1 = "?s\<lparr>fpos := fpos ?s + 0, gcount := 0\<rparr>"
    let ?b = "take cap (push_rest d)"
    have rs: "stream_readsome k cap ?s = ([], ?s1)"
    proof -
      have "stream_readsome k cap ?s = (?a, ?s\<lparr>fpos := fpos ?s + length ?a, gcount := length ?a\<rparr>)"
        using readsome_good [OF up(1,2), of k cap] by (simp add: push_rest_def)
      then show ?thesis by (simp only: True list.size)
    qed
    have g1: "good ?s1" "is_open ?s1" using up by (simp_all add: good_def)
    have sr: "stream_read cap ?s1 = (?b, ?s1\<lparr>fpos := fpos ?s + min cap (length (push_rest d)),
        gcount := min cap (length (push_rest d)),
        eofbit := length (push_rest d) < cap, failbit := length (push_rest d) < cap\<rparr>)"
      using stream_read_good [OF g1, of cap] by (simp add: push_rest_def)
    let ?d' = "push_read cap (\<lambda>_. None) k d"
    show ?thesis
    proof (cases "length (push_rest d) < cap")
      case True
      then have "pushLoops ?d' = 0 \<and>
          pushEvents ?d' = pushEvents d @ map DataEvent (if push_rest d = [] then [] else [push_rest d]) @
            [EndEvent, PromiseResolved]"
        using rs sr up by (simp add: push_read_def emit_push_def)
      then show ?thesis by blast
    next
      case False
      then have b: "?b \<noteq> []" "length ?b = cap" using assms(2) by auto
      have d': "?d' = d\<lparr>pushStream := ?s1\<lparr>fpos := fpos ?s + cap, gcount := cap, eofbit := False, failbit := False\<rparr>,
          pushEvents := pushEvents d @ [DataEvent ?b]\<rparr>"
        using rs sr up False b(1) by (simp add: push_read_def emit_push_def min_def)
      have "push_rest ?d' = drop cap (push_rest d)" by (simp add: d' push_rest_def add.commute)
      then have "push_rest d = ?b @ push_rest ?d'" by simp
      moreover have "push_up ?d'" using up by (simp add: d' push_up_def good_def)
      ultimately show ?thesis using b by (intro disjI1 exI [of _ ?b] exI [of _ ?d']) (simp add: d')
    qed
  qed
qed

lemma push_run_delivers:
  "push_up d \<Longrightarrow> 0 < cap \<Longrightarrow> length (push_rest d) + 2 \<le> fuel \<Longrightarrow>
    \<exists>cs d'. push_run fuel cap (\<lambda>_. None) avail d = Some d' \<and> concat cs = push_rest d \<and>
      pushEvents d' = pushEvents d @ map DataEvent cs @ [EndEvent, PromiseResolved] \<and> pushLoops d' = 0"
proof (induction fuel arbitrary: d)
  case (Suc fuel)
  let ?k = "avail (fpos (pushStream d))"
  have run: "push_run (Suc fuel) cap (\<lambda>_. None) avail d =
      push_run fuel cap (\<lambda>_. None) avail (push_read cap (\<lambda>_. None) ?k d)"
    using Suc.prems(1) by (simp add: push_up_def)
  from push_read_cases [OF Suc.prems(1,2), of ?k] show ?case
  proof (elim disjE exE conjE)
    fix bs d1 assume d1: "push_read cap (\<lambda>_. None) ?k d = d1" "bs \<noteq> []" "push_up d1" "push_rest d = bs @ push_rest d1"
      "pushEvents d1 = pushEvents d @ [DataEvent bs]"
    then have "0 < length bs" by simp
    moreover have "length (push_rest d) = length bs + length (push_rest d1)" using d1(4) by (metis length_append)
    ultimately have "length (push_rest d1) + 2 \<le> fuel" using Suc.prems(3) by linarith
    with Suc.IH [OF d1(3) Suc.prems(2)] obtain cs d' where
      "push_run fuel cap (\<lambda>_. None) avail d1 = Some d'" "concat cs = push_rest d1"
      "pushEvents d' = pushEvents d1 @ map DataEvent cs @ [EndEvent, PromiseResolved]" "pushLoops d' = 0" by blast
    then show ?thesis using run d1 by (intro exI [of _ "bs # cs"] exI [of _ d']) simp
  next
    fix d1 assume d1: "push_read cap (\<lambda>_. None) ?k d = d1" "pushLoops d1 = 0"
      "pushEvents d1 = pushEvents d @ map DataEvent (if push_rest d = [] then [] else [push_rest d]) @
        [EndEvent, PromiseResolved]"
    have "push_run fuel cap (\<lambda>_. None) avail d1 = Some d1" using d1(2) by (cases fuel) simp_all
    then show ?thesis using run d1
      by (intro exI [of _ "if push_rest d = [] then [] else [push_rest d]"] exI [of _ d1]) simp
  qed
qed simp

text \<open>
  C31. A resumed push device delivers its whole file: with listeners that succeed, whatever the stream
  has buffered at each turn, the \<open>data\<close> events carry the bytes of the file in order, then \<open>end\<close> is
  emitted once and the promise is resolved, and no read is left scheduled.
\<close>

theorem push_device_delivers_file:
  assumes "0 < cap" "length c + 2 \<le> fuel"
  shows "\<exists>cs d'. push_run fuel cap (\<lambda>_. None) avail (push_resume (new_FilePushDevice (Some c))) = Some d' \<and>
    concat cs = c \<and> pushEvents d' = map DataEvent cs @ [EndEvent, PromiseResolved] \<and> pushLoops d' = 0"
proof -
  let ?d = "push_resume (new_FilePushDevice (Some c))"
  have "push_up ?d" "push_rest ?d = c" "pushEvents ?d = []"
    by (simp_all add: push_up_def push_rest_def push_resume_def new_FilePushDevice_def open_stream_def good_def)
  with push_run_delivers [of ?d cap fuel avail] assms show ?thesis by simp
qed

theorem push_device_delivers_file_witness:
  "\<exists>cs d'. push_run 5 2 (\<lambda>_. None) (\<lambda>_. 0) (push_resume (new_FilePushDevice (Some [5, 6, 7]))) = Some d' \<and>
    concat cs = [5, 6, 7] \<and> pushEvents d' = map DataEvent cs @ [EndEvent, PromiseResolved]"
  using push_device_delivers_file [of 2 "[5, 6, 7]" 5 "\<lambda>_. 0"] by (simp add: ex_simps) blast

text \<open>
  Pausing does not stop the read loop: it goes on rescheduling itself, and the next \<open>resume\<close>
  starts another one beside it, so each pause and resume adds a concurrent reader of the same stream.
\<close>

theorem pause_resume_adds_a_loop:
  assumes "pushState d = Paused"
  shows "pushLoops (push_resume (push_pause (push_resume d))) = pushLoops d + 2 \<and>
    push_read cap listeners k (push_pause (push_resume d)) = push_pause (push_resume d)"
  using assms by (simp_all add: push_resume_def push_pause_def push_read_def)

theorem pause_resume_adds_a_loop_witness:
  "pushLoops (push_resume (push_pause (push_resume (new_FilePushDevice (Some [5]))))) = 2"
  using pause_resume_adds_a_loop [of "new_FilePushDevice (Some [5])"] by (simp add: new_FilePushDevice_def)

section \<open>Classes\<close>

text \<open>
  Classes are cached by name, and two device classes share one: after
  \<open>BidirectionalSeekableDevice\<close> is defined, defining \<open>BidirectionalDualSeekableDevice\<close> returns the former,
  whose objects have \<open>seek\<close> but none of the four methods of a dual seekable device.
\<close>

lemma dual_seekable_class_shadowed:
  "fst (defineOrGetClass (createClass BidirectionalDualSeekableDeviceC)
     (snd (defineOrGetClass (createClass BidirectionalSeekableDeviceC) Map.empty))) =
   createClass BidirectionalSeekableDeviceC \<and>
   parentClass (createClass BidirectionalSeekableDeviceC) = Some SeekableDeviceC \<and>
   set (Methods DualSeekableDeviceC) \<inter> set (staticFunctions (createClass BidirectionalSeekableDeviceC)) = {}"
  by (simp_all add: defineOrGetClass_def Methods_def)

end
