(* ===== verification/Sockets.thy ===== *)
theory Sockets
  imports DeviceProps
begin

text \<open>
  The socket devices (\<open>src/classes/io/devices/socket.cpp\<close>, \<open>include/classes/io/devices/socket.h\<close>):
  sending, the receive loops that \<open>resume\<close> starts, \<open>pause\<close> and \<open>reset\<close>, connecting and binding.

  \<open>boost::asio\<close> is outside the sources: the operations of a socket in the state \<open>'k\<close> are the fields of the
  parameter \<open>asio\<close>.
\<close>

section \<open>Sockets\<close>

datatype asio_error = OperationCanceled | OtherError string

fun ec_message :: "asio_error \<Rightarrow> string" where
  "ec_message OperationCanceled = ''Operation canceled''"
| "ec_message (OtherError m) = m"

definition error_object :: "asio_error \<Rightarrow> jsval" where
  "error_object e = ErrorObj (ec_message e)"

record endpoint =
  ep_address :: string
  ep_port :: nat

definition endpoint_args :: "endpoint \<Rightarrow> jsval list" where
  "endpoint_args ep = [String (ep_address ep), Number (Fin (of_nat (ep_port ep)))]"

text \<open>
  \<open>sock_parse_address\<close> is the error \<open>address::from_string\<close> throws, if any.
  \<open>sock_send\<close> and \<open>sock_send_to\<close> return the number of bytes taken or the error; the overloads without an
  error code throw it. \<open>sock_close\<close> and \<open>sock_cancel\<close> return the error, if any. \<open>sock_resolve\<close> looks a host
  and a service up; \<open>sock_connect\<close> is \<open>async_connect\<close>: the names it attempts, then the endpoint or the error.
\<close>

record 'k asio =
  sock_is_open :: "'k \<Rightarrow> bool"
  sock_available :: "'k \<Rightarrow> nat"
  sock_send :: "byte list \<Rightarrow> 'k \<Rightarrow> (asio_error + nat) \<times> 'k"
  sock_send_to :: "byte list \<Rightarrow> endpoint \<Rightarrow> 'k \<Rightarrow> (asio_error + nat) \<times> 'k"
  sock_close :: "'k \<Rightarrow> asio_error option \<times> 'k"
  sock_cancel :: "'k \<Rightarrow> asio_error option \<times> 'k"
  sock_parse_address :: "string \<Rightarrow> asio_error option"
  sock_bind :: "string \<Rightarrow> nat \<Rightarrow> 'k \<Rightarrow> asio_error option \<times> 'k"
  sock_resolve :: "string \<Rightarrow> string \<Rightarrow> asio_error + endpoint list"
  sock_connect :: "endpoint list \<Rightarrow> 'k \<Rightarrow> (string \<times> string) list \<times> (asio_error + endpoint) \<times> 'k"

text \<open>
  What the listeners and the promises of a socket see, in order. \<open>EmittedDatagram\<close> is the \<open>data\<close> event of a
  UDP socket: the buffer and an object with the address and the port of the sender.
\<close>

datatype sock_event =
    Emitted string "jsval list"
  | EmitScheduled string "jsval list"
  | EmittedDatagram "byte list" endpoint
  | SockResolved jsval
  | SockRejected jsval

text \<open>
  The fields of \<open>TCPSocket\<close> and \<open>UDPSocket\<close>. The state of a socket is \<open>None\<close> while it is not initialised,
  \<open>so_promise\<close> says whether \<open>myPromise\<close> holds an object, \<open>so_owners b\<close> counts the array buffers that own
  the block \<open>b\<close> and will free it, \<open>so_holds\<close> the calls of \<open>hold\<close> without their \<open>release\<close> and \<open>so_protects\<close>
  the protections of the JavaScript object.
\<close>

record 'k socket =
  so_socket :: 'k
  so_state :: "State option"
  so_promise :: bool
  so_endpoint :: "endpoint option"
  so_error :: "asio_error option"
  so_events :: "sock_event list"
  so_owners :: "nat \<Rightarrow> nat"
  so_next_block :: nat
  so_holds :: int
  so_protects :: int

definition new_TCPSocket :: "'k \<Rightarrow> 'k socket" where
  "new_TCPSocket k =
     \<lparr>so_socket = k, so_state = Some Paused, so_promise = False, so_endpoint = None, so_error = None,
      so_events = [], so_owners = (\<lambda>b. 0), so_next_block = 0, so_holds = 0, so_protects = 0\<rparr>"

definition new_UDPSocket :: "'k \<Rightarrow> 'k socket" where
  "new_UDPSocket k =
     \<lparr>so_socket = k, so_state = None, so_promise = False, so_endpoint = None, so_error = None,
      so_events = [], so_owners = (\<lambda>b. 0), so_next_block = 0, so_holds = 0, so_protects = 0\<rparr>"

definition TCPSocket_Constructor :: jscall where
  "TCPSocket_Constructor = (Object 0, snd (JSWrapException (Exn ''TCPSocket is not constructable'')))"

definition so_emit :: "sock_event list \<Rightarrow> 'k socket \<Rightarrow> 'k socket" where
  "so_emit es s = s\<lparr>so_events := so_events s @ es\<rparr>"

definition load_state :: "'k socket \<Rightarrow> State res" where
  "load_state s = (case so_state s of None \<Rightarrow> Inl (UB ''read of an uninitialised state'') | Some st \<Rightarrow> Inr st)"

section \<open>Sending\<close>

text \<open>
  The loops of \<open>deviceWrite\<close> over the chunks of a buffer: \<open>i\<close> advances by the maximal chunk, whatever a
  send took, while \<open>left\<close> (the variable \<open>remaining\<close>) goes down by what it took. A chunk that reaches over the end of the buffer
  is an out-of-bounds read. The chunk of TCP is \<open>2 ^ 64 - 1\<close> bytes, so its loop runs at most once.
\<close>

definition chunk_at :: "byte list \<Rightarrow> nat \<Rightarrow> nat \<Rightarrow> nat \<Rightarrow> byte list res" where
  "chunk_at buf i maxb left =
     (if i + min maxb left \<le> length buf then Inr (take (min maxb left) (drop i buf))
      else Inl (UB ''read past the end of the buffer''))"

definition TCP_max :: nat where
  "TCP_max = 2 ^ 64 - 1"

definition UDP_max :: nat where
  "UDP_max = 65507"

function tcp_send_loop :: "'k asio \<Rightarrow> byte list \<Rightarrow> nat \<Rightarrow> nat \<Rightarrow> nat \<Rightarrow> 'k \<Rightarrow> (nat \<times> 'k) res" where
  "tcp_send_loop io buf i left written k =
     (if i < length buf then
        rbind (chunk_at buf i TCP_max left) (\<lambda>bs.
        case sock_send io bs k of
          (Inl e, k') \<Rightarrow> Inl (Exn (ec_message e))
        | (Inr n, k') \<Rightarrow> tcp_send_loop io buf (i + TCP_max) (left - n) (written + n) k')
      else Inr (written, k))"
  by pat_completeness auto
termination by (relation "measure (\<lambda>(io, buf, i, _). length buf - i)") (auto simp: TCP_max_def)

definition tcp_deviceWrite :: "'k asio \<Rightarrow> byte list option \<Rightarrow> 'k socket \<Rightarrow> (usize \<times> 'k socket) res" where
  "tcp_deviceWrite io buf s =
     (let bs = (case buf of None \<Rightarrow> [] | Some b \<Rightarrow> b)
      in rbind (tcp_send_loop io bs 0 (length bs) 0 (so_socket s)) (\<lambda>(w, k).
         Inr (of_nat w, s\<lparr>so_socket := k\<rparr>)))"

text \<open>
  The UDP loop hands \<open>myError\<close> to \<open>send_to\<close>, which clears or sets it; an unconnected endpoint is the
  default one.
\<close>

definition no_endpoint :: endpoint where
  "no_endpoint = \<lparr>ep_address = ''0.0.0.0'', ep_port = 0\<rparr>"

function udp_send_loop ::
  "'k asio \<Rightarrow> endpoint \<Rightarrow> byte list \<Rightarrow> nat \<Rightarrow> nat \<Rightarrow> nat \<Rightarrow> 'k \<Rightarrow> asio_error option \<Rightarrow>
   (nat \<times> 'k \<times> asio_error option) res" where
  "udp_send_loop io ep buf i left written k err =
     (if i < length buf then
        rbind (chunk_at buf i UDP_max left) (\<lambda>bs.
        case sock_send_to io bs ep k of
          (Inl OperationCanceled, k') \<Rightarrow> Inr (written, k', Some OperationCanceled)
        | (Inl e, k') \<Rightarrow> Inl (Exn (ec_message e))
        | (Inr n, k') \<Rightarrow> udp_send_loop io ep buf (i + UDP_max) (left - n) (written + n) k' None)
      else Inr (written, k, err))"
  by pat_completeness auto
termination by (relation "measure (\<lambda>(io, ep, buf, i, _). length buf - i)") (auto simp: UDP_max_def)

declare tcp_send_loop.simps [simp del] udp_send_loop.simps [simp del]

definition udp_deviceWrite :: "'k asio \<Rightarrow> byte list option \<Rightarrow> 'k socket \<Rightarrow> (usize \<times> 'k socket) res" where
  "udp_deviceWrite io buf s =
     (let bs = (case buf of None \<Rightarrow> [] | Some b \<Rightarrow> b);
          ep = (case so_endpoint s of None \<Rightarrow> no_endpoint | Some e \<Rightarrow> e)
      in rbind (udp_send_loop io ep bs 0 (length bs) 0 (so_socket s) (so_error s)) (\<lambda>(w, k, err).
         Inr (of_nat w, s\<lparr>so_socket := k, so_error := err\<rparr>)))"

definition tcp_close :: "'k asio \<Rightarrow> 'k socket \<Rightarrow> 'k socket" where
  "tcp_close io s = (case sock_close io (so_socket s) of (e, k) \<Rightarrow> s\<lparr>so_socket := k, so_error := e\<rparr>)"

definition tcp_cancel :: "'k asio \<Rightarrow> 'k socket \<Rightarrow> 'k socket" where
  "tcp_cancel io s = (case sock_cancel io (so_socket s) of (e, k) \<Rightarrow> s\<lparr>so_socket := k, so_error := e\<rparr>)"

definition tcp_available :: "'k asio \<Rightarrow> 'k socket \<Rightarrow> nat" where
  "tcp_available io s = (if sock_is_open io (so_socket s) then sock_available io (so_socket s) else 0)"

text \<open>\<open>close\<close> and \<open>cancel\<close> of a UDP socket throw; the state after a failure is the one asio leaves.\<close>

definition udp_close :: "'k asio \<Rightarrow> 'k socket \<Rightarrow> 'k socket res" where
  "udp_close io s =
     (case sock_close io (so_socket s) of
        (None, k) \<Rightarrow> Inr (s\<lparr>so_socket := k\<rparr>)
      | (Some e, k) \<Rightarrow> Inl (Exn (ec_message e)))"

definition udp_cancel :: "'k asio \<Rightarrow> 'k socket \<Rightarrow> 'k socket res" where
  "udp_cancel io s =
     (case sock_cancel io (so_socket s) of
        (None, k) \<Rightarrow> Inr (s\<lparr>so_socket := k\<rparr>)
      | (Some e, k) \<Rightarrow> Inl (Exn (ec_message e)))"

definition udp_available :: "'k asio \<Rightarrow> 'k socket \<Rightarrow> nat" where
  "udp_available io s = sock_available io (so_socket s)"

definition tcp_eof :: "'k asio \<Rightarrow> 'k socket \<Rightarrow> bool" where
  "tcp_eof io s \<longleftrightarrow> \<not> sock_is_open io (so_socket s)"

definition udp_eof :: "'k asio \<Rightarrow> 'k socket \<Rightarrow> bool" where
  "udp_eof io s \<longleftrightarrow> \<not> sock_is_open io (so_socket s)"

definition tcp_ops :: "'k asio \<Rightarrow> 'k socket sink_ops" where
  "tcp_ops io =
     \<lparr>deviceReady = (\<lambda>s. sock_is_open io (so_socket s)), deviceOpen = (\<lambda>s. sock_is_open io (so_socket s)),
      deviceClose = (\<lambda>s. Inr (tcp_close io s)), deviceError = (\<lambda>s. map_option ec_message (so_error s)),
      maxWriteBufferSize = TCP_max, recommendedWriteBufferSize = TCP_max, deviceWrite = tcp_deviceWrite io\<rparr>"

definition udp_ops :: "'k asio \<Rightarrow> 'k socket sink_ops" where
  "udp_ops io =
     \<lparr>deviceReady = (\<lambda>s. sock_is_open io (so_socket s)), deviceOpen = (\<lambda>s. sock_is_open io (so_socket s)),
      deviceClose = udp_close io, deviceError = (\<lambda>s. map_option ec_message (so_error s)),
      maxWriteBufferSize = UDP_max, recommendedWriteBufferSize = UDP_max, deviceWrite = udp_deviceWrite io\<rparr>"

section \<open>The JavaScript methods\<close>

text \<open>\<open>None\<close> as the socket is an object of another class. \<open>close\<close> and \<open>cancel\<close> are virtual.\<close>

definition js_available :: "('k socket \<Rightarrow> nat) \<Rightarrow> 'k socket option \<Rightarrow> jscall" where
  "js_available avail so =
     (case so of
        None \<Rightarrow> (Undefined, Some (ErrorObj ''.available not implemented on Socket instance''))
      | Some s \<Rightarrow> (Number (Fin (of_nat (avail s))), None))"

definition js_socket_close :: "('k socket \<Rightarrow> 'k socket res) \<Rightarrow> 'k socket option \<Rightarrow> (jscall \<times> 'k socket option) res" where
  "js_socket_close close so =
     (case so of
        None \<Rightarrow> Inr ((Undefined, Some (ErrorObj ''close() not implemented on Socket instance'')), so)
      | Some s \<Rightarrow>
          (case close s of
             Inr s' \<Rightarrow> Inr ((Undefined, None), Some s')
           | Inl (Exn m) \<Rightarrow> Inr (JSWrapException (Exn m), so)
           | Inl x \<Rightarrow> Inl x))"

definition js_socket_cancel :: "('k socket \<Rightarrow> 'k socket res) \<Rightarrow> 'k socket option \<Rightarrow> (jscall \<times> 'k socket option) res" where
  "js_socket_cancel cancel so =
     (case so of
        None \<Rightarrow> Inr ((Undefined, Some (ErrorObj ''cancel() not implemented on Socket instance'')), so)
      | Some s \<Rightarrow>
          (case cancel s of
             Inr s' \<Rightarrow> Inr ((Undefined, None), Some s')
           | Inl (Exn m) \<Rightarrow> Inr (JSWrapException (Exn m), so)
           | Inl x \<Rightarrow> Inl x))"

text \<open>\<open>Inr\<close>: the arguments are good and \<open>connect\<close> or \<open>bind\<close> of the socket is called with them.\<close>

definition js_connect :: "engine \<Rightarrow> jsval list \<Rightarrow> 'k socket option \<Rightarrow> (jscall + string \<times> string) res" where
  "js_connect en as so =
     (case so of
        None \<Rightarrow> Inr (Inl (Undefined, Some (ErrorObj ''connect() not implemented on Socket instance'')))
      | Some s \<Rightarrow>
          (let args = (if length as < 2 then Inl (Exn ''invalid arguments'')
                       else rbind (Value_toString en (arg as 0)) (\<lambda>addr.
                            rbind (Value_toString en (arg as 1)) (\<lambda>port. Inr (addr, port))))
           in case args of
                Inr r \<Rightarrow> Inr (Inr r)
              | Inl (Exn m) \<Rightarrow> Inr (Inl (JSWrapException (Exn m)))
              | Inl x \<Rightarrow> Inl x))"

definition js_bind :: "engine \<Rightarrow> jsval list \<Rightarrow> 'k socket option \<Rightarrow> (jscall + string \<times> nat) res" where
  "js_bind en as so =
     (case so of
        None \<Rightarrow> Inr (Inl (Undefined, Some (ErrorObj ''bind() not implemented on Socket instance'')))
      | Some s \<Rightarrow>
          (let args = (if length as < 2 then Inl (Exn ''invalid arguments'')
                       else rbind (Value_toString en (arg as 0)) (\<lambda>addr.
                            rbind (Value_toNumber en (arg as 1)) (\<lambda>n.
                            rbind (to_integer 0 (2 ^ 32 - 1) n) (\<lambda>port. Inr (addr, nat port)))))
           in case args of
                Inr r \<Rightarrow> Inr (Inr r)
              | Inl (Exn m) \<Rightarrow> Inr (Inl (JSWrapException (Exn m)))
              | Inl x \<Rightarrow> Inl x))"

section \<open>Receiving\<close>

text \<open>
  A run of the receive handler gets the block it handed to asio and the bytes that came in (\<open>None\<close> in the
  first run), and the error. \<open>Receive b n\<close>: it started a receive into the new block \<open>b\<close> of \<open>n\<close> bytes;
  \<open>Spin\<close>: it scheduled itself with the same arguments; \<open>Stop\<close>: the loop has ended.
\<close>

datatype next_run = Receive nat nat | Spin | Stop

definition start_receive :: "'k asio \<Rightarrow> 'k socket \<Rightarrow> next_run \<times> 'k socket" where
  "start_receive io s =
     (let avail = sock_available io (so_socket s);
          bufSize = (if avail = 0 then 1024 else avail)
      in (Receive (so_next_block s) bufSize, s\<lparr>so_next_block := Suc (so_next_block s)\<rparr>))"

definition own :: "nat \<Rightarrow> 'k socket \<Rightarrow> 'k socket" where
  "own b s = s\<lparr>so_owners := (so_owners s)(b := so_owners s b + 1)\<rparr>"

text \<open>
  The TCP handler. \<open>emitFastAndSchedule\<close> never stores into its exception argument, so the listeners cannot
  end the loop; \<open>thrown\<close> is that variable.
\<close>

definition tcp_recv ::
  "'k asio \<Rightarrow> jsval \<Rightarrow> jsval option \<Rightarrow> (nat \<times> byte list) option \<Rightarrow> asio_error option \<Rightarrow> 'k socket \<Rightarrow>
   (next_run \<times> 'k socket) res" where
  "tcp_recv io this thrown buffer ec s =
     (case ec of
        Some e \<Rightarrow>
          (let s1 = s\<lparr>so_state := Some Paused\<rparr>;
               closed = (if sock_is_open io (so_socket s1) then [] else [EmitScheduled ''close'' []])
           in if e \<noteq> OperationCanceled
              then Inr (Stop, so_emit ([EmitScheduled ''error'' [error_object e]] @ closed @ [SockRejected (error_object e)]) s1)
              else Inr (Stop, so_emit [SockResolved this] s1))
      | None \<Rightarrow>
          (let s1 = (case buffer of
                       Some (b, bytes) \<Rightarrow>
                         if bytes \<noteq> [] then so_emit [EmitScheduled ''data'' [Buffer bytes]] (own b s) else s
                     | None \<Rightarrow> s);
               failed = (case buffer of Some (b, bytes) \<Rightarrow> if bytes \<noteq> [] then thrown else None | None \<Rightarrow> None)
           in case failed of
                Some e \<Rightarrow>
                  (let closed = (if sock_is_open io (so_socket s1) then [] else [EmitScheduled ''close'' []])
                   in Inr (Stop, so_emit ([EmitScheduled ''error'' [e]] @ closed @ [SockRejected e])
                                   (s1\<lparr>so_state := Some Paused\<rparr>)))
              | None \<Rightarrow>
                  if \<not> sock_is_open io (so_socket s1) then
                    (let s2 = so_emit [SockResolved this, Emitted ''close'' []] s1
                     in case sock_close io (so_socket s2) of
                          (None, k) \<Rightarrow> Inr (Stop, s2\<lparr>so_socket := k\<rparr>)
                        | (Some e, k) \<Rightarrow> Inl (Exn (ec_message e)))
                  else
                    rbind (load_state s1) (\<lambda>st.
                    if st = Resumed then Inr (start_receive io s1) else Inr (Spin, s1))))"

definition tcp_resume :: "'k asio \<Rightarrow> jsval \<Rightarrow> 'k socket \<Rightarrow> (next_run option \<times> 'k socket) res" where
  "tcp_resume io this s =
     rbind (load_state s) (\<lambda>st.
     if st = Resumed \<and> so_promise s then Inr (None, s)
     else
       rbind (tcp_recv io this None None None (s\<lparr>so_state := Some Resumed\<rparr>)) (\<lambda>(r, s1).
       Inr (Some r, s1\<lparr>so_promise := True\<rparr>)))"

text \<open>
  The UDP handler emits with \<open>emitFast\<close>, which reports the exception \<open>thrown\<close> of a listener, together with
  the sender. Every end of the loop releases the scheduler and unprotects the object.
\<close>

definition udp_done :: "sock_event \<Rightarrow> 'k socket \<Rightarrow> next_run \<times> 'k socket" where
  "udp_done ev s = (Stop, so_emit [ev] (s\<lparr>so_protects := so_protects s - 1, so_holds := so_holds s - 1\<rparr>))"

definition udp_recv ::
  "'k asio \<Rightarrow> jsval option \<Rightarrow> (nat \<times> byte list \<times> endpoint) option \<Rightarrow> asio_error option \<Rightarrow> 'k socket \<Rightarrow>
   (next_run \<times> 'k socket) res" where
  "udp_recv io thrown buffer ec s =
     (case ec of
        Some e \<Rightarrow> Inr (udp_done (SockRejected (error_object e)) s)
      | None \<Rightarrow>
          (let s1 = (case buffer of
                       Some (b, bytes, ep) \<Rightarrow>
                         if bytes \<noteq> [] then so_emit [EmittedDatagram bytes ep] (own b s) else s
                     | None \<Rightarrow> s);
               failed = (case buffer of Some (b, bytes, ep) \<Rightarrow> if bytes \<noteq> [] then thrown else None | None \<Rightarrow> None)
           in case failed of
                Some e \<Rightarrow> Inr (udp_done (SockRejected e) s1)
              | None \<Rightarrow>
                  if \<not> sock_is_open io (so_socket s1) then Inr (udp_done (SockResolved Undefined) s1)
                  else
                    rbind (load_state s1) (\<lambda>st.
                    if st = Resumed then Inr (start_receive io s1) else Inr (udp_done (SockResolved Undefined) s1))))"

definition udp_resume :: "'k asio \<Rightarrow> 'k socket \<Rightarrow> (next_run option \<times> 'k socket) res" where
  "udp_resume io s =
     rbind (load_state s) (\<lambda>st.
     if st = Resumed \<and> so_promise s then Inr (None, s)
     else
       rbind (udp_recv io None None None
                (s\<lparr>so_protects := so_protects s + 1, so_holds := so_holds s + 1, so_state := Some Resumed\<rparr>)) (\<lambda>(r, s1).
       Inr (Some r, s1\<lparr>so_promise := True\<rparr>)))"

text \<open>
  \<open>pause\<close> and \<open>reset\<close>: the receive loop sees the state; the promise of an earlier \<open>resume\<close> or \<open>pause\<close>
  is returned again. Both classes have their own.
\<close>

definition socket_pause :: "jsval \<Rightarrow> 'k socket \<Rightarrow> 'k socket" where
  "socket_pause this s =
     (if so_promise s then s\<lparr>so_state := Some Paused\<rparr>
      else so_emit [SockResolved this] (s\<lparr>so_state := Some Paused, so_promise := True\<rparr>))"

definition socket_reset :: "jsval \<Rightarrow> 'k socket \<Rightarrow> 'k socket res" where
  "socket_reset this s =
     rbind (load_state s) (\<lambda>st. if st \<noteq> Paused then Inr (socket_pause this s) else Inr (so_emit [SockResolved this] s))"

definition udp_pause :: "jsval \<Rightarrow> 'k socket \<Rightarrow> 'k socket" where
  "udp_pause this s =
     (if so_promise s then s\<lparr>so_state := Some Paused\<rparr>
      else so_emit [SockResolved this] (s\<lparr>so_state := Some Paused, so_promise := True\<rparr>))"

definition udp_reset :: "jsval \<Rightarrow> 'k socket \<Rightarrow> 'k socket res" where
  "udp_reset this s =
     rbind (load_state s) (\<lambda>st. if st \<noteq> Paused then Inr (udp_pause this s) else Inr (so_emit [SockResolved this] s))"

section \<open>Connecting and binding\<close>

text \<open>
  \<open>connect\<close> protects the object, and its lookup handler unprotects it as soon as \<open>async_connect\<close> has been
  started; \<open>connect_done\<close>, the handlers of \<open>async_connect\<close> that use the object, run later.
\<close>

definition connect_start :: "'k socket \<Rightarrow> 'k socket" where
  "connect_start s = s\<lparr>so_protects := so_protects s + 1\<rparr>"

definition connect_resolved :: "asio_error + endpoint list \<Rightarrow> 'k socket \<Rightarrow> endpoint list option \<times> 'k socket" where
  "connect_resolved found s =
     (let s1 = (case found of Inl e \<Rightarrow> so_emit [SockRejected (error_object e)] s | Inr eps \<Rightarrow> s)
      in (case found of Inl e \<Rightarrow> None | Inr eps \<Rightarrow> Some eps, s1\<lparr>so_protects := so_protects s1 - 1\<rparr>))"

definition connect_done ::
  "jsval \<Rightarrow> (string \<times> string) list \<times> (asio_error + endpoint) \<times> 'k \<Rightarrow> 'k socket \<Rightarrow> 'k socket" where
  "connect_done this r s =
     (case r of (attempts, result, k) \<Rightarrow>
        (let s1 = so_emit (map (\<lambda>(h, sv). Emitted ''attempt'' [String h, String sv]) attempts) (s\<lparr>so_socket := k\<rparr>)
         in case result of
              Inl e \<Rightarrow> so_emit [SockRejected (error_object e)] s1
            | Inr ep \<Rightarrow> so_emit [Emitted ''connected'' (endpoint_args ep), SockResolved this] (s1\<lparr>so_endpoint := Some ep\<rparr>)))"

definition socket_connect :: "'k asio \<Rightarrow> jsval \<Rightarrow> string \<Rightarrow> string \<Rightarrow> 'k socket \<Rightarrow> 'k socket" where
  "socket_connect io this address port s =
     (case connect_resolved (sock_resolve io address port) (connect_start s) of
        (None, s1) \<Rightarrow> s1
      | (Some eps, s1) \<Rightarrow> connect_done this (sock_connect io eps (so_socket s1)) s1)"

text \<open>
  \<open>connect\<close> of a UDP socket, in one piece: the lookup handler starts \<open>async_connect\<close> and unprotects the object; when
  the connection is there, the endpoint is the one later datagrams go to.
\<close>

definition udp_connect :: "'k asio \<Rightarrow> jsval \<Rightarrow> string \<Rightarrow> string \<Rightarrow> 'k socket \<Rightarrow> 'k socket" where
  "udp_connect io this address port s =
     (let s1 = s\<lparr>so_protects := so_protects s + 1\<rparr>
      in case sock_resolve io address port of
           Inl e \<Rightarrow> so_emit [SockRejected (error_object e)] (s1\<lparr>so_protects := so_protects s1 - 1\<rparr>)
         | Inr eps \<Rightarrow>
             (let s2 = s1\<lparr>so_protects := so_protects s1 - 1\<rparr>
              in case sock_connect io eps (so_socket s2) of
                   (attempts, Inl e, k) \<Rightarrow>
                     so_emit (map (\<lambda>(h, sv). Emitted ''attempt'' [String h, String sv]) attempts @ [SockRejected (error_object e)])
                       (s2\<lparr>so_socket := k\<rparr>)
                 | (attempts, Inr ep, k) \<Rightarrow>
                     so_emit (map (\<lambda>(h, sv). Emitted ''attempt'' [String h, String sv]) attempts @
                         [Emitted ''connected'' (endpoint_args ep), SockResolved this])
                       (s2\<lparr>so_socket := k, so_endpoint := Some ep\<rparr>)))"

text \<open>
  \<open>bind\<close>: an address that cannot be read throws out of the executor, so the promise rejects and the object
  stays protected. An endpoint takes the port modulo \<open>2 ^ 16\<close>.
\<close>

definition udp_bind :: "'k asio \<Rightarrow> jsval \<Rightarrow> string \<Rightarrow> nat \<Rightarrow> 'k socket \<Rightarrow> 'k socket" where
  "udp_bind io this address port s =
     (let s1 = s\<lparr>so_protects := so_protects s + 1\<rparr>
      in case sock_parse_address io address of
           Some e \<Rightarrow> so_emit [SockRejected (error_object e)] s1
         | None \<Rightarrow>
             (case sock_bind io address (port mod 2 ^ 16) (so_socket s1) of
                (None, k) \<Rightarrow> so_emit [SockResolved this] (s1\<lparr>so_socket := k, so_protects := so_protects s1 - 1\<rparr>)
              | (Some e, k) \<Rightarrow> so_emit [SockRejected (error_object e)] (s1\<lparr>so_socket := k, so_protects := so_protects s1 - 1\<rparr>)))"

end
