(* ===== verification/SocketProps.thy ===== *)
theory SocketProps
  imports Sockets
begin

text \<open>The properties of the socket devices: what is sent, what is delivered, and what keeps a loop alive.\<close>

section \<open>TCP: sending\<close>

text \<open>
  A stream socket that is up is open, and takes at least one byte from the front of everything it is
  given. \<open>sent\<close> is what it has taken.
\<close>

definition stream_laws :: "'k asio \<Rightarrow> ('k \<Rightarrow> bool) \<Rightarrow> ('k \<Rightarrow> byte list) \<Rightarrow> bool" where
  "stream_laws io up sent \<longleftrightarrow>
     (\<forall>k. up k \<longrightarrow> sock_is_open io k) \<and>
     (\<forall>k bs. up k \<longrightarrow> bs \<noteq> [] \<longrightarrow>
        (\<exists>n k'. sock_send io bs k = (Inr n, k') \<and> 0 < n \<and> n \<le> length bs \<and> up k' \<and> sent k' = sent k @ take n bs))"

locale stream_net =
  fixes io :: "'k asio" and up :: "'k \<Rightarrow> bool" and sent :: "'k \<Rightarrow> byte list"
  assumes laws: "stream_laws io up sent"
begin

lemma tcp_takes:
  assumes "up (so_socket s)" "bs \<noteq> []" "length bs \<le> TCP_max"
  shows "\<exists>n k. tcp_deviceWrite io (Some bs) s = Inr (of_nat n, s\<lparr>so_socket := k\<rparr>) \<and> 0 < n \<and> n \<le> length bs \<and>
    up k \<and> sent k = sent (so_socket s) @ take n bs"
proof -
  obtain n k where k: "sock_send io bs (so_socket s) = (Inr n, k)" "0 < n" "n \<le> length bs" "up k"
    "sent k = sent (so_socket s) @ take n bs"
    using laws assms(1,2) unfolding stream_laws_def by blast
  have "tcp_send_loop io bs 0 (length bs) 0 (so_socket s) = Inr (n, k)"
    using k(1) assms(2,3) by (simp add: tcp_send_loop.simps [of io bs 0] tcp_send_loop.simps [of io bs "TCP_max"] chunk_at_def min_absorb2)
  with k show ?thesis by (simp add: tcp_deviceWrite_def Let_def) blast
qed

end

sublocale stream_net \<subseteq> tcp: sink "tcp_ops io" "\<lambda>s. up (so_socket s) \<and> so_error s = None" "\<lambda>s. sent (so_socket s)"
proof
  show "\<exists>n d'. deviceWrite (tcp_ops io) (Some bs) d = Inr (of_nat n, d') \<and> 0 < n \<and> n \<le> length bs \<and>
      (up (so_socket d') \<and> so_error d' = None) \<and> sent (so_socket d') = sent (so_socket d) @ take n bs"
    if "up (so_socket d) \<and> so_error d = None" "bs \<noteq> []" "length bs \<le> maxWriteBufferSize (tcp_ops io)" for d bs
    using tcp_takes [of d bs] that by (fastforce simp: tcp_ops_def)
qed (use laws in \<open>auto simp: tcp_ops_def TCP_max_def stream_laws_def\<close>)

context stream_net
begin

lemma tcp_write:
  assumes "up (so_socket s)" "so_error s = None"
  shows "\<exists>s'. write_loop (tcp_ops io) data 0 s = Some (Inr (Resolved (Number (Fin (of_nat (length data)))), s')) \<and>
    sent (so_socket s') = sent (so_socket s) @ data"
  using tcp.write_loop_delivers [of s 0 data] assms by auto

end

text \<open>A network in memory: a send takes at most \<open>m\<close> bytes; a datagram is taken whole.\<close>

record memory_net =
  net_open :: bool
  net_sent :: "byte list"
  net_datagrams :: "(endpoint \<times> byte list) list"
  net_available :: nat

definition memory_io :: "nat \<Rightarrow> memory_net asio" where
  "memory_io m =
     \<lparr>sock_is_open = net_open, sock_available = net_available,
      sock_send = (\<lambda>bs k. (Inr (min m (length bs)), k\<lparr>net_sent := net_sent k @ take m bs\<rparr>)),
      sock_send_to = (\<lambda>bs ep k. (Inr (length bs), k\<lparr>net_datagrams := net_datagrams k @ [(ep, bs)]\<rparr>)),
      sock_close = (\<lambda>k. (None, k\<lparr>net_open := False\<rparr>)), sock_cancel = (\<lambda>k. (None, k)),
      sock_parse_address = (\<lambda>a. None), sock_bind = (\<lambda>a p k. (None, k)),
      sock_resolve = (\<lambda>h s. Inr [\<lparr>ep_address = h, ep_port = 80\<rparr>]),
      sock_connect = (\<lambda>eps k. ([], Inr (hd eps), k))\<rparr>"

definition memory_socket :: memory_net where
  "memory_socket = \<lparr>net_open = True, net_sent = [], net_datagrams = [], net_available = 0\<rparr>"

lemma memory_stream: "0 < m \<Longrightarrow> stream_laws (memory_io m) net_open net_sent"
  by (auto simp: stream_laws_def memory_io_def min_def)

interpretation segments: stream_net "memory_io 1460" net_open net_sent
  by unfold_locales (simp add: memory_stream)

text \<open>
  \<open>write\<close> to a TCP socket delivers everything although a single send may take only a part of a chunk:
  the task goes on behind what was taken, so the bytes arrive in order and once, and the promise
  resolves with their number.
\<close>

theorem tcp_write_delivers:
  assumes "stream_laws io up sent" "up (so_socket s)" "so_error s = None"
  shows "\<exists>s'. write_loop (tcp_ops io) data 0 s = Some (Inr (Resolved (Number (Fin (of_nat (length data)))), s')) \<and>
    sent (so_socket s') = sent (so_socket s) @ data"
  by (rule stream_net.tcp_write [OF stream_net.intro [OF assms(1)] assms(2,3)])

theorem tcp_write_delivers_witness:
  "\<exists>s'. write_loop (tcp_ops (memory_io 2)) [1, 2, 3, 4, 5] 0 (new_TCPSocket memory_socket) =
      Some (Inr (Resolved (Number (Fin (of_nat (length [1, 2, 3, 4, 5 :: byte])))), s')) \<and>
    net_sent (so_socket s') = [1, 2, 3, 4, 5]"
proof -
  have "net_open (so_socket (new_TCPSocket memory_socket))" "so_error (new_TCPSocket memory_socket) = None"
    by (simp_all add: new_TCPSocket_def memory_socket_def)
  moreover have "net_sent (so_socket (new_TCPSocket memory_socket)) = []"
    by (simp add: new_TCPSocket_def memory_socket_def)
  ultimately show ?thesis
    using tcp_write_delivers [OF memory_stream, of 2 "new_TCPSocket memory_socket" "[1, 2, 3, 4, 5]"] by simp
qed

text \<open>
  \<open>writeSync\<close> returns the length of its argument, whatever the device took: the rest of a short send is
  lost.
\<close>

lemma tcp_writeSync_overstates:
  "\<exists>s. js_writeSync (tcp_ops (memory_io 2)) [Buffer [1, 2, 3]] (new_TCPSocket memory_socket) =
      Inr ((Number (Fin 3), None), s) \<and> net_sent (so_socket s) = [1, 2]"
  by (simp add: js_writeSync_def has_type_def arg_def tcp_ops_def memory_io_def new_TCPSocket_def memory_socket_def
    tcp_deviceWrite_def Let_def tcp_send_loop.simps [of _ "[1, 2, 3]"] chunk_at_def TCP_max_def)

section \<open>UDP: sending\<close>

text \<open>A datagram socket that is up takes every datagram of at most the maximal size whole.\<close>

definition datagram_laws :: "'k asio \<Rightarrow> ('k \<Rightarrow> bool) \<Rightarrow> ('k \<Rightarrow> (endpoint \<times> byte list) list) \<Rightarrow> bool" where
  "datagram_laws io up datagrams \<longleftrightarrow>
     (\<forall>k. up k \<longrightarrow> sock_is_open io k) \<and>
     (\<forall>k ep bs. up k \<longrightarrow> length bs \<le> UDP_max \<longrightarrow>
        (\<exists>k'. sock_send_to io bs ep k = (Inr (length bs), k') \<and> up k' \<and> datagrams k' = datagrams k @ [(ep, bs)]))"

function chunks :: "byte list \<Rightarrow> byte list list" where
  "chunks bs = (if bs = [] then [] else take UDP_max bs # chunks (drop UDP_max bs))"
  by pat_completeness auto
termination by (relation "measure length") (auto simp: UDP_max_def)

declare chunks.simps [simp del]

lemma concat_chunks: "concat (chunks bs) = bs"
  by (induction bs rule: chunks.induct) (subst chunks.simps, simp)

definition peer :: "'k socket \<Rightarrow> endpoint" where
  "peer s = (case so_endpoint s of None \<Rightarrow> no_endpoint | Some e \<Rightarrow> e)"

locale datagram_net =
  fixes io :: "'k asio" and up :: "'k \<Rightarrow> bool" and datagrams :: "'k \<Rightarrow> (endpoint \<times> byte list) list"
  assumes laws: "datagram_laws io up datagrams"
begin

lemma udp_send_loop_chunks:
  "up k \<Longrightarrow> i \<le> length buf \<Longrightarrow> buf \<noteq> [] \<Longrightarrow> i < length buf \<or> err = None \<Longrightarrow>
    \<exists>k'. udp_send_loop io ep buf i (length buf - i) i k err = Inr (length buf, k', None) \<and> up k' \<and>
      datagrams k' = datagrams k @ map (Pair ep) (chunks (drop i buf))"
proof (induction "length buf - i" arbitrary: i k err rule: less_induct)
  case less
  show ?case
  proof (cases "i < length buf")
    case False
    with less.prems show ?thesis
      by (simp add: udp_send_loop.simps [of io ep buf "length buf"] chunks.simps [of "[]"])
  next
    case True
    let ?n = "min UDP_max (length buf - i)"
    let ?bs = "take ?n (drop i buf)"
    have n: "length ?bs = ?n" "?n \<le> UDP_max" "0 < ?n" using True by (auto simp: UDP_max_def)
    then obtain k1 where k1: "sock_send_to io ?bs ep k = (Inr ?n, k1)" "up k1"
      "datagrams k1 = datagrams k @ [(ep, ?bs)]"
      using laws less.prems(1) unfolding datagram_laws_def by metis
    have c: "chunks (drop i buf) = ?bs # chunks (drop (i + UDP_max) buf)"
      using True by (subst chunks.simps) (simp add: add.commute min_def)
    have step: "udp_send_loop io ep buf i (length buf - i) i k err =
        udp_send_loop io ep buf (i + UDP_max) (length buf - i - ?n) (i + ?n) k1 None"
    proof -
      have "chunk_at buf i UDP_max (length buf - i) = Inr ?bs" using True by (simp add: chunk_at_def)
      then show ?thesis using True k1(1) by (simp add: udp_send_loop.simps [of io ep buf i])
    qed
    show ?thesis
    proof (cases "i + UDP_max < length buf")
      case True
      then have "?n = UDP_max" by simp
      have "length buf - (i + UDP_max) < length buf - i" using True by (simp add: UDP_max_def)
      from less.hyps [OF this k1(2)] True less.prems(3) obtain k' where "udp_send_loop io ep buf (i + UDP_max) (length buf - (i + UDP_max)) (i + UDP_max) k1 None =
          Inr (length buf, k', None)" "up k'"
        "datagrams k' = datagrams k1 @ map (Pair ep) (chunks (drop (i + UDP_max) buf))"
        by auto
      with \<open>?n = UDP_max\<close> show ?thesis using step k1(3) c by auto
    next
      case False
      then have m: "i + ?n = length buf" using \<open>i < length buf\<close> by simp
      have "udp_send_loop io ep buf (i + UDP_max) (length buf - i - ?n) (i + ?n) k1 None = Inr (length buf, k1, None)"
        using False m by (simp add: udp_send_loop.simps [of io ep buf "i + UDP_max"])
      with step False k1 c show ?thesis by (simp add: chunks.simps [of "[]"])
    qed
  qed
qed

lemma udp_write_all:
  assumes "up (so_socket s)" "so_error s = None"
  shows "\<exists>s'. udp_deviceWrite io (Some data) s = Inr (of_nat (length data), s') \<and> up (so_socket s') \<and> so_error s' = None \<and>
    datagrams (so_socket s') = datagrams (so_socket s) @ map (Pair (peer s)) (chunks data)"
proof (cases "data = []")
  case True
  with assms show ?thesis
    by (simp add: udp_deviceWrite_def Let_def udp_send_loop.simps [of _ _ "[]"] chunks.simps [of "[]"])
next
  case False
  with udp_send_loop_chunks [OF assms(1), of 0 data "so_error s" "peer s"] show ?thesis
    by (auto simp: udp_deviceWrite_def Let_def peer_def)
qed

end

sublocale datagram_net \<subseteq> udp: sink "udp_ops io" "\<lambda>s. up (so_socket s) \<and> so_error s = None"
  "\<lambda>s. concat (map snd (datagrams (so_socket s)))"
proof
  show "\<exists>n d'. deviceWrite (udp_ops io) (Some bs) d = Inr (of_nat n, d') \<and> 0 < n \<and> n \<le> length bs \<and>
      (up (so_socket d') \<and> so_error d' = None) \<and>
      concat (map snd (datagrams (so_socket d'))) = concat (map snd (datagrams (so_socket d))) @ take n bs"
    if "up (so_socket d) \<and> so_error d = None" "bs \<noteq> []" for d bs
  proof -
    have "map snd (map (Pair ep) xs) = xs" for ep :: endpoint and xs :: "byte list list"
      by (simp add: comp_def)
    then show ?thesis
      using udp_write_all [of d bs] that
      by (intro exI [of _ "length bs"]) (auto simp: udp_ops_def concat_chunks simp del: map_map)
  qed
qed (use laws in \<open>auto simp: udp_ops_def UDP_max_def datagram_laws_def\<close>)

lemma memory_datagrams: "datagram_laws (memory_io m) net_open net_datagrams"
  by (auto simp: datagram_laws_def memory_io_def)

interpretation datagrams: datagram_net "memory_io 1460" net_open net_datagrams
  by unfold_locales (rule memory_datagrams)

text \<open>
  A write to a UDP socket sends the data, in order and complete, as datagrams of 65507 bytes and one
  with what is left, to the endpoint of the socket, and reports the length of the data.
\<close>

theorem udp_write_datagrams:
  assumes "datagram_laws io up datagrams" "up (so_socket s)" "so_error s = None"
  shows "\<exists>s'. udp_deviceWrite io (Some data) s = Inr (of_nat (length data), s') \<and>
    datagrams (so_socket s') = datagrams (so_socket s) @ map (Pair (peer s)) (chunks data)"
  using datagram_net.udp_write_all [OF datagram_net.intro [OF assms(1)] assms(2,3), of data] by blast

theorem udp_write_datagrams_witness:
  "\<exists>s'. udp_deviceWrite (memory_io 0) (Some [1, 2, 3]) (new_UDPSocket memory_socket) =
      Inr (of_nat (length [1, 2, 3 :: byte]), s') \<and>
    net_datagrams (so_socket s') = [(no_endpoint, [1, 2, 3])]"
proof -
  let ?s = "new_UDPSocket memory_socket"
  have s: "net_open (so_socket ?s)" "so_error ?s = None" "net_datagrams (so_socket ?s) = []" "peer ?s = no_endpoint"
    by (simp_all add: new_UDPSocket_def memory_socket_def peer_def)
  have "chunks [1, 2, 3] = [[1, 2, 3]]"
    by (simp add: chunks.simps [of "[1, 2, 3]"] chunks.simps [of "[]"] UDP_max_def)
  with udp_write_datagrams [OF memory_datagrams [of 0] s(1,2), of "[1, 2, 3]"] s(3,4) show ?thesis by simp
qed

text \<open>
  The loop relies on it: after a short send it skips ahead by a whole chunk, and as \<open>remaining\<close> has gone
  down by less, the next chunk can reach over the end of the buffer.
\<close>

lemma udp_short_send_overreads:
  assumes "sock_send_to io (take UDP_max data) ep k = (Inr n, k')" "n < UDP_max"
    and "UDP_max < length data" "length data < 2 * UDP_max"
  shows "udp_send_loop io ep data 0 (length data) 0 k err = Inl (UB ''read past the end of the buffer'')"
proof -
  have d: "data \<noteq> []" "min UDP_max (length data) = UDP_max" using assms(3) by auto
  have "chunk_at data UDP_max UDP_max (length data - n) = Inl (UB ''read past the end of the buffer'')"
    using assms(2-4) by (auto simp: chunk_at_def min_def)
  then have "udp_send_loop io ep data UDP_max (length data - n) n k' None = Inl (UB ''read past the end of the buffer'')"
    using assms(3) by (simp add: udp_send_loop.simps [of io ep data UDP_max])
  with assms(1,3) d show ?thesis
    by (simp add: udp_send_loop.simps [of io ep data 0] chunk_at_def)
qed

section \<open>Receiving\<close>

text \<open>
  The rest of a TCP receive loop that waits for the block \<open>b\<close> while nobody pauses or closes the socket: the
  pieces \<open>cs\<close> come in, then the error \<open>e\<close>.
\<close>

fun tcp_session :: "'k asio \<Rightarrow> jsval \<Rightarrow> byte list list \<Rightarrow> asio_error \<Rightarrow> nat \<Rightarrow> 'k socket \<Rightarrow> (next_run \<times> 'k socket) res" where
  "tcp_session io this [] e b s = tcp_recv io this None (Some (b, [])) (Some e) s"
| "tcp_session io this (c # cs) e b s =
     rbind (tcp_recv io this None (Some (b, c)) None s) (\<lambda>(r, s1).
     case r of Receive b1 n \<Rightarrow> tcp_session io this cs e b1 s1 | _ \<Rightarrow> Inr (r, s1))"

definition tcp_up :: "'k asio \<Rightarrow> 'k socket \<Rightarrow> bool" where
  "tcp_up io s \<longleftrightarrow> sock_is_open io (so_socket s) \<and> so_state s = Some Resumed"

lemma tcp_recv_data:
  assumes "tcp_up io s" "c \<noteq> []"
  shows "\<exists>n. tcp_recv io this None (Some (b, c)) None s =
    Inr (Receive (so_next_block s) n,
         s\<lparr>so_events := so_events s @ [EmitScheduled ''data'' [Buffer c]],
           so_owners := (so_owners s)(b := so_owners s b + 1), so_next_block := Suc (so_next_block s)\<rparr>)"
  using assms
  by (auto simp: tcp_recv_def tcp_up_def so_emit_def own_def load_state_def start_receive_def Let_def)

lemma tcp_session_run:
  "tcp_up io s \<Longrightarrow> [] \<notin> set cs \<Longrightarrow> b < so_next_block s \<Longrightarrow> (\<And>b'. so_owners s b' \<le> 1) \<Longrightarrow>
    (\<And>b'. b \<le> b' \<Longrightarrow> so_owners s b' = 0) \<Longrightarrow> b = so_next_block s - 1 \<Longrightarrow>
    \<exists>s'. tcp_session io this cs OperationCanceled b s = Inr (Stop, s') \<and>
      so_events s' = so_events s @ map (\<lambda>c. EmitScheduled ''data'' [Buffer c]) cs @ [SockResolved this] \<and>
      so_state s' = Some Paused \<and> (\<forall>b'. so_owners s' b' \<le> 1)"
proof (induction cs arbitrary: b s)
  case Nil
  then show ?case by (simp add: tcp_recv_def so_emit_def Let_def)
next
  case (Cons c cs)
  obtain n where r: "tcp_recv io this None (Some (b, c)) None s =
    Inr (Receive (so_next_block s) n,
         s\<lparr>so_events := so_events s @ [EmitScheduled ''data'' [Buffer c]],
           so_owners := (so_owners s)(b := so_owners s b + 1), so_next_block := Suc (so_next_block s)\<rparr>)"
    (is "_ = Inr (_, ?s1)")
    using tcp_recv_data [OF Cons.prems(1)] Cons.prems(2) by (metis list.set_intros(1))
  have "tcp_up io ?s1" "[] \<notin> set cs" "so_next_block s < so_next_block ?s1" "\<And>b'. so_owners ?s1 b' \<le> 1"
    "\<And>b'. so_next_block s \<le> b' \<Longrightarrow> so_owners ?s1 b' = 0" "so_next_block s = so_next_block ?s1 - 1"
    using Cons.prems by (auto simp: tcp_up_def)
  from Cons.IH [OF this] show ?case using r by (auto simp: tcp_up_def)
qed

text \<open>
  C35. A resumed TCP socket delivers what comes in: every piece is emitted as one \<open>data\<close> event, in the order
  of arrival, each block of memory is owned by at most one array buffer, and a cancellation ends the
  loop, resolves the promise with the socket and leaves it paused.
\<close>

theorem tcp_session_delivers:
  assumes "sock_is_open io k" "[] \<notin> set cs"
  shows "\<exists>n s0 s'. tcp_resume io this (new_TCPSocket k) = Inr (Some (Receive 0 n), s0) \<and>
    tcp_session io this cs OperationCanceled 0 s0 = Inr (Stop, s') \<and>
    so_events s' = map (\<lambda>c. EmitScheduled ''data'' [Buffer c]) cs @ [SockResolved this] \<and>
    so_state s' = Some Paused \<and> (\<forall>b. so_owners s' b \<le> 1)"
proof -
  let ?s0 = "(new_TCPSocket k)\<lparr>so_state := Some Resumed, so_next_block := 1, so_promise := True\<rparr>"
  have "\<exists>n. tcp_resume io this (new_TCPSocket k) = Inr (Some (Receive 0 n), ?s0)"
    using assms(1)
    by (auto simp: tcp_resume_def tcp_recv_def load_state_def start_receive_def new_TCPSocket_def Let_def)
  moreover have "\<exists>s'. tcp_session io this cs OperationCanceled 0 ?s0 = Inr (Stop, s') \<and>
      so_events s' = so_events ?s0 @ map (\<lambda>c. EmitScheduled ''data'' [Buffer c]) cs @ [SockResolved this] \<and>
      so_state s' = Some Paused \<and> (\<forall>b'. so_owners s' b' \<le> 1)"
    using assms by (intro tcp_session_run) (simp_all add: tcp_up_def new_TCPSocket_def)
  ultimately show ?thesis by (auto simp: new_TCPSocket_def)
qed

theorem tcp_session_delivers_witness:
  "\<exists>s0 s'. tcp_session (memory_io 9) (Object 1) [[1, 2], [3]] OperationCanceled 0 s0 = Inr (Stop, s') \<and>
    so_events s' = [EmitScheduled ''data'' [Buffer [1, 2]], EmitScheduled ''data'' [Buffer [3]], SockResolved (Object 1)]"
  using tcp_session_delivers [of "memory_io 9" memory_socket "[[1, 2], [3]]" "Object 1"]
  by (simp add: memory_io_def memory_socket_def) blast

text \<open>\<open>n\<close> turns of a loop that schedules itself.\<close>

fun tcp_turns :: "'k asio \<Rightarrow> jsval \<Rightarrow> nat \<Rightarrow> nat \<Rightarrow> byte list \<Rightarrow> 'k socket \<Rightarrow> (next_run \<times> 'k socket) res" where
  "tcp_turns io this 0 b c s = Inr (Spin, s)"
| "tcp_turns io this (Suc n) b c s =
     rbind (tcp_recv io this None (Some (b, c)) None s) (\<lambda>(r, s1).
     case r of Spin \<Rightarrow> tcp_turns io this n b c s1 | _ \<Rightarrow> Inr (r, s1))"

text \<open>
  C36. Pausing a TCP socket does not stop its loop: while it is paused and open, the run that received data
  schedules itself with the same arguments, and each of its turns emits the same data again and makes
  one more array buffer that will free the same block.
\<close>

theorem tcp_paused_redelivers:
  assumes "sock_is_open io (so_socket s)" "c \<noteq> []"
  shows "\<exists>s'. tcp_turns io this n b c (socket_pause this s) = Inr (Spin, s') \<and>
    so_events s' = so_events (socket_pause this s) @ replicate n (EmitScheduled ''data'' [Buffer c]) \<and>
    so_owners s' b = so_owners s b + n"
proof -
  have run: "so_state t = Some Paused \<Longrightarrow> sock_is_open io (so_socket t) \<Longrightarrow>
      \<exists>s'. tcp_turns io this n b c t = Inr (Spin, s') \<and>
        so_events s' = so_events t @ replicate n (EmitScheduled ''data'' [Buffer c]) \<and>
        so_owners s' b = so_owners t b + n" for t
  proof (induction n arbitrary: t)
    case (Suc n)
    let ?t1 = "own b t\<lparr>so_events := so_events t @ [EmitScheduled ''data'' [Buffer c]]\<rparr>"
    have "tcp_recv io this None (Some (b, c)) None t = Inr (Spin, ?t1)"
      using Suc.prems assms(2) by (simp add: tcp_recv_def so_emit_def own_def load_state_def Let_def)
    moreover have "so_state ?t1 = Some Paused" "sock_is_open io (so_socket ?t1)"
      using Suc.prems by (simp_all add: own_def)
    ultimately show ?case using Suc.IH [of ?t1] by (auto simp: own_def)
  qed simp
  have "so_state (socket_pause this s) = Some Paused" "sock_is_open io (so_socket (socket_pause this s))"
    "so_owners (socket_pause this s) = so_owners s"
    using assms(1) by (simp_all add: socket_pause_def so_emit_def)
  with run [of "socket_pause this s"] show ?thesis by auto
qed

theorem tcp_paused_redelivers_witness:
  "\<exists>s'. tcp_turns (memory_io 9) (Object 1) 2 0 [5] (socket_pause (Object 1) (new_TCPSocket memory_socket)) = Inr (Spin, s') \<and>
    so_events s' = [SockResolved (Object 1), EmitScheduled ''data'' [Buffer [5]], EmitScheduled ''data'' [Buffer [5]]] \<and>
    so_owners s' 0 = 2"
  using tcp_paused_redelivers [of "memory_io 9" "new_TCPSocket memory_socket" "[5]" "Object 1" 2 0]
  by (simp add: memory_io_def memory_socket_def new_TCPSocket_def socket_pause_def so_emit_def numeral_2_eq_2)

text \<open>
  What can happen to a UDP receive loop that waits for the block \<open>b\<close>: a datagram arrives (with the exception
  of a listener, if any), the receive fails, or the program pauses the socket.
\<close>

datatype udp_input = Arrive "jsval option" "byte list" endpoint | Fail asio_error | PauseNow jsval

fun udp_session :: "'k asio \<Rightarrow> udp_input list \<Rightarrow> next_run \<Rightarrow> 'k socket \<Rightarrow> (next_run \<times> 'k socket) res" where
  "udp_session io [] r s = Inr (r, s)"
| "udp_session io (i # is) r s =
     (case i of
        PauseNow this \<Rightarrow> udp_session io is r (udp_pause this s)
      | Arrive thrown bytes ep \<Rightarrow>
          (case r of
             Receive b n \<Rightarrow> rbind (udp_recv io thrown (Some (b, bytes, ep)) None s) (\<lambda>(r1, s1). udp_session io is r1 s1)
           | _ \<Rightarrow> udp_session io is r s)
      | Fail e \<Rightarrow>
          (case r of
             Receive b n \<Rightarrow> rbind (udp_recv io None (Some (b, [], no_endpoint)) (Some e) s) (\<lambda>(r1, s1). udp_session io is r1 s1)
           | _ \<Rightarrow> udp_session io is r s))"

text \<open>A waiting loop has one hold and one protection more than \<open>h\<close> and \<open>p\<close>, an ended one has none.\<close>

definition udp_counts :: "int \<Rightarrow> int \<Rightarrow> next_run \<Rightarrow> 'k socket \<Rightarrow> bool" where
  "udp_counts h p r s \<longleftrightarrow>
     so_state s \<noteq> None \<and>
     (case r of Stop \<Rightarrow> so_holds s = h \<and> so_protects s = p
      | Receive b n \<Rightarrow> so_holds s = h + 1 \<and> so_protects s = p + 1
      | Spin \<Rightarrow> False)"

lemma udp_recv_counts:
  assumes "so_state s \<noteq> None" "so_holds s = h + 1" "so_protects s = p + 1"
  shows "\<exists>r1 s1. udp_recv io thrown buffer ec s = Inr (r1, s1) \<and> udp_counts h p r1 s1"
  using assms
  by (auto simp: udp_recv_def udp_done_def so_emit_def own_def load_state_def start_receive_def udp_counts_def Let_def
      split: option.splits prod.splits)

lemma udp_session_counts:
  "udp_counts h p r s \<Longrightarrow> \<exists>r1 s1. udp_session io is r s = Inr (r1, s1) \<and> udp_counts h p r1 s1"
proof (induction "is" arbitrary: r s)
  case (Cons i "is")
  show ?case
  proof (cases i)
    case (PauseNow this)
    have "udp_counts h p r (udp_pause this s)"
      using Cons.prems by (auto simp: udp_counts_def udp_pause_def so_emit_def split: next_run.splits)
    from Cons.IH [OF this] PauseNow show ?thesis by simp
  next
    case (Arrive thrown bytes ep)
    show ?thesis
    proof (cases r)
      case (Receive b n)
      with Cons.prems have c: "so_state s \<noteq> None" "so_holds s = h + 1" "so_protects s = p + 1"
        by (simp_all add: udp_counts_def)
      from udp_recv_counts [OF c] obtain r1 s1 where
        "udp_recv io thrown (Some (b, bytes, ep)) None s = Inr (r1, s1)" "udp_counts h p r1 s1" by blast
      with Cons.IH [OF this(2)] Arrive Receive show ?thesis by simp
    qed (use Cons Arrive in auto)
  next
    case (Fail e)
    show ?thesis
    proof (cases r)
      case (Receive b n)
      with Cons.prems have c: "so_state s \<noteq> None" "so_holds s = h + 1" "so_protects s = p + 1"
        by (simp_all add: udp_counts_def)
      from udp_recv_counts [OF c] obtain r1 s1 where
        "udp_recv io None (Some (b, [], no_endpoint)) (Some e) s = Inr (r1, s1)" "udp_counts h p r1 s1" by blast
      with Cons.IH [OF this(2)] Fail Receive show ?thesis by simp
    qed (use Cons Fail in auto)
  qed
qed simp

lemma udp_resume_counts:
  assumes "so_state s = Some Paused"
  shows "\<exists>r s1. udp_resume io s = Inr (Some r, s1) \<and> udp_counts (so_holds s) (so_protects s) r s1"
proof -
  let ?s0 = "s\<lparr>so_protects := so_protects s + 1, so_holds := so_holds s + 1, so_state := Some Resumed\<rparr>"
  obtain r s1 where "udp_recv io None None None ?s0 = Inr (r, s1)" "udp_counts (so_holds s) (so_protects s) r s1"
    using udp_recv_counts [of ?s0 "so_holds s" "so_protects s"] by fastforce
  with assms show ?thesis
    by (auto simp: udp_resume_def load_state_def udp_counts_def split: next_run.splits)
qed

text \<open>
  A UDP receive loop holds the scheduler and protects its object exactly while it runs: whatever arrives,
  fails, is thrown by listeners or paused in between, when the loop has ended the counts are what they
  were before \<open>resume\<close>, and while it waits they are one higher.
\<close>

theorem udp_loop_balanced:
  assumes "so_state s = Some Paused"
  shows "\<exists>r0 s0 r s1. udp_resume io s = Inr (Some r0, s0) \<and> udp_session io inputs r0 s0 = Inr (r, s1) \<and>
    (case r of Stop \<Rightarrow> so_holds s1 = so_holds s \<and> so_protects s1 = so_protects s
     | Receive b n \<Rightarrow> so_holds s1 = so_holds s + 1 \<and> so_protects s1 = so_protects s + 1
     | Spin \<Rightarrow> False)"
proof -
  obtain r0 s0 where r0: "udp_resume io s = Inr (Some r0, s0)" "udp_counts (so_holds s) (so_protects s) r0 s0"
    using udp_resume_counts [OF assms] by blast
  from udp_session_counts [OF this(2)] obtain r s1 where
    "udp_session io inputs r0 s0 = Inr (r, s1)" "udp_counts (so_holds s) (so_protects s) r s1" by blast
  with r0 show ?thesis by (auto simp: udp_counts_def)
qed

theorem udp_loop_balanced_witness:
  "\<exists>r0 s0 s1. udp_resume (memory_io 0) (udp_pause (Object 1) (new_UDPSocket memory_socket)) = Inr (Some r0, s0) \<and>
    udp_session (memory_io 0) [Arrive None [7] no_endpoint, Fail OperationCanceled] r0 s0 = Inr (Stop, s1) \<and>
    so_holds s0 = 1 \<and> so_holds s1 = 0"
proof -
  let ?s = "udp_pause (Object 1) (new_UDPSocket memory_socket)"
  let ?is = "[Arrive None [7] no_endpoint, Fail OperationCanceled]"
  have "so_state ?s = Some Paused" by (simp add: udp_pause_def so_emit_def)
  from udp_loop_balanced [OF this, of "memory_io 0" ?is] obtain r0 s0 r s1 where
    u: "udp_resume (memory_io 0) ?s = Inr (Some r0, s0)" "udp_session (memory_io 0) ?is r0 s0 = Inr (r, s1)"
    "case r of Stop \<Rightarrow> so_holds s1 = so_holds ?s \<and> so_protects s1 = so_protects ?s
     | Receive b n \<Rightarrow> so_holds s1 = so_holds ?s + 1 \<and> so_protects s1 = so_protects ?s + 1
     | Spin \<Rightarrow> False" by blast
  have h: "so_holds ?s = 0" by (simp add: udp_pause_def so_emit_def new_UDPSocket_def)
  have "r0 = Receive 0 1024 \<and> so_holds s0 = 1 \<and> so_state s0 = Some Resumed \<and> so_socket s0 = memory_socket \<and> so_next_block s0 = 1"
    using u(1)
    by (auto simp: udp_resume_def udp_recv_def udp_pause_def so_emit_def new_UDPSocket_def load_state_def
        start_receive_def memory_io_def memory_socket_def Let_def)
  moreover from this have "r = Stop"
    using u(2)
    by (auto simp: udp_recv_def udp_done_def so_emit_def own_def load_state_def start_receive_def memory_io_def
        memory_socket_def Let_def)
  ultimately show ?thesis using u h by auto
qed

text \<open>
  A UDP socket that was just made has no state yet: \<open>resume\<close> and \<open>reset\<close> read it. After a \<open>pause\<close>, which
  stores it first, both are defined.
\<close>

lemma udp_state_uninitialised:
  "udp_resume io (new_UDPSocket k) = Inl (UB ''read of an uninitialised state'')"
  "udp_reset this (new_UDPSocket k) = Inl (UB ''read of an uninitialised state'')"
  by (simp_all add: udp_resume_def udp_reset_def load_state_def new_UDPSocket_def)

text \<open>
  The object of a connecting socket has lost its protection when the handlers of the connection run, and
  a \<open>bind\<close> to an address that cannot be read never gives its protection back.
\<close>

lemma connect_handlers_unprotected:
  "so_protects (snd (connect_resolved found (connect_start s))) = so_protects s"
  by (cases found) (simp_all add: connect_resolved_def connect_start_def so_emit_def Let_def)

lemma bind_leaks:
  "sock_parse_address io a = Some e \<Longrightarrow> so_protects (udp_bind io this a port s) = so_protects s + 1"
  by (simp add: udp_bind_def so_emit_def)

text \<open>\<open>connect\<close>, \<open>pause\<close> and \<open>reset\<close> of the two classes do the same.\<close>

lemma udp_pause_eq: "udp_pause = socket_pause"
  by (simp add: fun_eq_iff udp_pause_def socket_pause_def)

lemma udp_reset_eq: "udp_reset = socket_reset"
  unfolding fun_eq_iff udp_reset_def socket_reset_def udp_pause_eq by simp

lemma udp_connect_eq: "udp_connect = socket_connect"
  by (simp add: fun_eq_iff udp_connect_def socket_connect_def connect_resolved_def connect_start_def connect_done_def
      so_emit_def Let_def split: sum.split prod.split)

text \<open>
  A UDP socket that connects and then writes: the attempts and the connection are announced, the promise of
  \<open>connect\<close> resolves, and a later write sends the data in datagrams of 65507 bytes, in order, to the endpoint that was
  connected; the protection taken by \<open>connect\<close> is given back.
\<close>

theorem udp_connected_write:
  assumes "datagram_laws io up datagrams" "sock_resolve io address port = Inr eps"
    and "sock_connect io eps (so_socket s) = (attempts, Inr ep, k)" "up k" "so_error s = None"
    and "s1 = udp_connect io this address port s"
  shows "\<exists>s2. udp_deviceWrite io (Some data) s1 = Inr (of_nat (length data), s2) \<and>
    datagrams (so_socket s2) = datagrams k @ map (Pair ep) (chunks data) \<and>
    so_events s1 = so_events s @ map (\<lambda>(h, sv). Emitted ''attempt'' [String h, String sv]) attempts @
      [Emitted ''connected'' (endpoint_args ep), SockResolved this] \<and>
    so_protects s1 = so_protects s"
proof -
  have s1: "so_socket s1 = k" "so_error s1 = None" "peer s1 = ep" "so_protects s1 = so_protects s"
    "so_events s1 = so_events s @ map (\<lambda>(h, sv). Emitted ''attempt'' [String h, String sv]) attempts @
      [Emitted ''connected'' (endpoint_args ep), SockResolved this]"
    using assms(2-6) by (simp_all add: udp_connect_def so_emit_def Let_def peer_def)
  from datagram_net.udp_write_all [OF datagram_net.intro [OF assms(1)], of s1 data] assms(4) s1
  show ?thesis by auto
qed

theorem udp_connected_write_witness:
  "\<exists>s2. udp_deviceWrite (memory_io 0) (Some [1, 2, 3])
      (udp_connect (memory_io 0) (Object 1) ''host'' ''80'' (new_UDPSocket memory_socket)) = Inr (of_nat (length [1, 2, 3 :: byte]), s2) \<and>
    net_datagrams (so_socket s2) = [(\<lparr>ep_address = ''host'', ep_port = 80\<rparr>, [1, 2, 3])]"
proof -
  let ?ep = "\<lparr>ep_address = ''host'', ep_port = 80\<rparr>" and ?s = "new_UDPSocket memory_socket"
  have c: "chunks [1, 2, 3] = [[1, 2, 3]]"
    by (simp add: chunks.simps [of "[1, 2, 3]"] chunks.simps [of "[]"] UDP_max_def)
  have "sock_resolve (memory_io 0) ''host'' ''80'' = Inr [?ep]"
    "sock_connect (memory_io 0) [?ep] (so_socket ?s) = ([], Inr ?ep, memory_socket)" "net_open memory_socket" "so_error ?s = None"
    by (simp_all add: memory_io_def memory_socket_def new_UDPSocket_def)
  from udp_connected_write [OF memory_datagrams this refl, of "[1, 2, 3]" "Object 1"] show ?thesis
    by (auto simp: c memory_socket_def)
qed

end
