(* ===== verification/Http.thy ===== *)
theory Http
  imports SocketProps
begin

text \<open>
  Accepting connections and HTTP (\<open>src/classes/net/tcp/acceptor.cpp\<close>, \<open>src/classes/net/http/*.cpp\<close>,
  \<open>src/classes/net/htcommon/response.cpp\<close> and their headers).

  \<open>boost::beast\<close> is outside the sources: what the serializer writes is one \<open>wire\<close> item with the fields it is
  given, and the request parser is the parameter \<open>parser\<close>.
\<close>

section \<open>The acceptor\<close>

text \<open>
  \<open>ac_pending\<close> counts the accepts handed to asio. \<open>AccConnection\<close> carries the remote end point, \<open>None\<close> when
  it is not known; \<open>AccStart\<close> is an HTTP connection that is started, with its continuation flag.
\<close>

datatype acc_event = AccError asio_error | AccConnection "endpoint option" | AccStart bool "endpoint option"

record acceptor =
  ac_open :: bool
  ac_pending :: nat
  ac_events :: "acc_event list"

record acceptor_io =
  acc_parse :: "string \<Rightarrow> asio_error option"
  acc_open :: "asio_error option"
  acc_set_reuse :: "bool \<Rightarrow> asio_error option"
  acc_bind :: "string \<Rightarrow> nat \<Rightarrow> asio_error option"
  acc_listen :: "nat \<Rightarrow> asio_error option"

definition new_Acceptor :: acceptor where
  "new_Acceptor = \<lparr>ac_open = False, ac_pending = 0, ac_events = []\<rparr>"

definition throw_if :: "asio_error option \<Rightarrow> unit res" where
  "throw_if e = (case e of None \<Rightarrow> Inr () | Some x \<Rightarrow> Inl (Exn (ec_message x)))"

text \<open>\<open>bind\<close>: a bad address throws out of the function, to the method; the other errors it wraps itself.\<close>

definition acceptor_bind :: "acceptor_io \<Rightarrow> jsval \<Rightarrow> string \<Rightarrow> nat \<Rightarrow> bool \<Rightarrow> acceptor \<Rightarrow> (jscall \<times> acceptor) res" where
  "acceptor_bind io this addr port reuse a =
     rbind (throw_if (acc_parse io addr)) (\<lambda>_.
     let a1 = (if ac_open a then Inr a else rbind (throw_if (acc_open io)) (\<lambda>_. Inr (a\<lparr>ac_open := True\<rparr>)))
     in case a1 of
          Inl e \<Rightarrow> Inr (JSWrapException e, a)
        | Inr a2 \<Rightarrow>
            (case rbind (throw_if (acc_set_reuse io reuse)) (\<lambda>_. throw_if (acc_bind io addr port)) of
               Inl e \<Rightarrow> Inr (JSWrapException e, a2)
             | Inr _ \<Rightarrow> Inr ((this, None), a2)))"

definition beginAccept :: "acceptor \<Rightarrow> acceptor" where
  "beginAccept a = a\<lparr>ac_pending := ac_pending a + 1\<rparr>"

definition acceptor_listen :: "acceptor_io \<Rightarrow> jsval \<Rightarrow> nat \<Rightarrow> acceptor \<Rightarrow> jscall \<times> acceptor" where
  "acceptor_listen io this maxConnections a =
     (case acc_listen io maxConnections of
        Some e \<Rightarrow> ((this, snd (JSWrapException (Exn (ec_message e)))), a)
      | None \<Rightarrow> ((this, None), beginAccept a))"

definition acc_emit :: "acc_event list \<Rightarrow> acceptor \<Rightarrow> acceptor" where
  "acc_emit es a = a\<lparr>ac_events := ac_events a @ es\<rparr>"

text \<open>
  \<open>handleAccept\<close> of the acceptor: it accepts again before it looks at the error. \<open>open_socket\<close> is the remote
  end point of the new socket when that is open.
\<close>

definition acceptor_handleAccept :: "endpoint option option \<Rightarrow> bool \<Rightarrow> asio_error option \<Rightarrow> acceptor \<Rightarrow> acceptor" where
  "acceptor_handleAccept open_socket continuation error a =
     (let a1 = (if continuation then a else beginAccept a);
          a2 = (case error of None \<Rightarrow> a1 | Some e \<Rightarrow> acc_emit [AccError e] a1)
      in case open_socket of None \<Rightarrow> a2 | Some ep \<Rightarrow> acc_emit [AccConnection ep] a2)"

text \<open>\<open>HTTP::Server\<close>: five errors end the call silently, and a connection is wrapped and started.\<close>

definition quiet_error :: "asio_error \<Rightarrow> bool" where
  "quiet_error e \<longleftrightarrow> e = OperationCanceled \<or>
     e \<in> OtherError ` {''Broken pipe'', ''Connection timed out'', ''Software caused connection abort'', ''Connection reset by peer''}"

definition server_handleAccept :: "endpoint option option \<Rightarrow> bool \<Rightarrow> asio_error option \<Rightarrow> acceptor \<Rightarrow> acceptor" where
  "server_handleAccept open_socket continuation error a =
     (let a1 = (if continuation then a else beginAccept a);
          go = (\<lambda>a2. case open_socket of None \<Rightarrow> a2 | Some ep \<Rightarrow> acc_emit [AccStart continuation ep] a2)
      in case error of
           None \<Rightarrow> go a1
         | Some e \<Rightarrow> if quiet_error e then a1 else go (acc_emit [AccError e] a1))"

text \<open>The JavaScript methods up to the call.\<close>

definition js_acceptor_bind :: "engine \<Rightarrow> (jsval \<Rightarrow> bool) \<Rightarrow> jsval list \<Rightarrow> bool \<Rightarrow> (jscall + string \<times> nat \<times> bool) res" where
  "js_acceptor_bind en to_boolean as is_acceptor =
     (if \<not> is_acceptor then
        (let e = ErrorObj ''bind() not implemented on Acceptor instance'' in Inr (Inl (e, Some e)))
      else if length as < 2 then
        (let e = ErrorObj ''invalid arguments passed to Acceptor.bind'' in Inr (Inl (e, Some e)))
      else
        (case rbind (Value_toString en (arg as 0)) (\<lambda>addr.
              rbind (Value_toNumber en (arg as 1)) (\<lambda>n.
              rbind (to_integer 0 (2 ^ 16 - 1) n) (\<lambda>port.
              Inr (addr, nat port, if 2 < length as then to_boolean (arg as 2) else False)))) of
           Inr r \<Rightarrow> Inr (Inr r)
         | Inl (Exn m) \<Rightarrow> Inr (Inl (JSWrapException (Exn m)))
         | Inl x \<Rightarrow> Inl x))"

definition js_acceptor_listen :: "engine \<Rightarrow> nat \<Rightarrow> jsval list \<Rightarrow> bool \<Rightarrow> (jscall + nat) res" where
  "js_acceptor_listen en max_connections as is_acceptor =
     (if \<not> is_acceptor then
        (let e = ErrorObj ''listen() not implemented on Acceptor instance'' in Inr (Inl (e, Some e)))
      else if as = [] then Inr (Inr max_connections)
      else
        (case rbind (Value_toNumber en (arg as 0)) (to_integer 0 (2 ^ 32 - 1)) of
           Inr n \<Rightarrow> Inr (Inr (nat n))
         | Inl (Exn m) \<Rightarrow> Inr (Inl (JSWrapException (Exn m)))
         | Inl x \<Rightarrow> Inl x))"

section \<open>Connections\<close>

datatype wire =
    WireHeader nat "(string \<times> string) list" bool
  | WireChunk "byte list"
  | WireLastChunk
  | WireMessage nat "(string \<times> string) list" bool "byte list"

text \<open>
  \<open>wire_write\<close> writes an item to the socket, and \<open>wire_close\<close> closes it. \<open>cn_this\<close> says whether
  \<open>HTTP::Connection::myThisObject\<close> is set; \<open>cn_reaccepts\<close> counts the calls of \<open>handleAccept\<close> for a kept
  connection.
\<close>

record 'k wire_io =
  wire_write :: "wire \<Rightarrow> 'k \<Rightarrow> asio_error option \<times> 'k"
  wire_open :: "'k \<Rightarrow> bool"
  wire_close :: "'k \<Rightarrow> 'k"

record 'k connection =
  cn_socket :: 'k
  cn_keepAlive :: bool
  cn_this :: bool
  cn_reaccepts :: nat
  cn_closed :: nat

definition new_Connection :: "'k \<Rightarrow> 'k connection" where
  "new_Connection k = \<lparr>cn_socket = k, cn_keepAlive = False, cn_this = True, cn_reaccepts = 0, cn_closed = 0\<rparr>"

definition connection_close :: "'k wire_io \<Rightarrow> 'k connection \<Rightarrow> 'k connection" where
  "connection_close io c = c\<lparr>cn_socket := wire_close io (cn_socket c), cn_closed := cn_closed c + 1\<rparr>"

definition connection_deviceClose :: "'k wire_io \<Rightarrow> 'k connection \<Rightarrow> 'k connection" where
  "connection_deviceClose io c = (if cn_keepAlive c then c else connection_close io c)"

text \<open>\<open>notifyCompleted\<close> takes the context from the object it clears at its end.\<close>

definition notifyCompleted :: "'k wire_io \<Rightarrow> 'k connection \<Rightarrow> 'k connection res" where
  "notifyCompleted io c =
     (if \<not> cn_this c then Inl (UB ''context of a cleared object'')
      else
        (let c1 = (if \<not> cn_keepAlive c then connection_close io c else c\<lparr>cn_reaccepts := cn_reaccepts c + 1\<rparr>)
         in Inr (c1\<lparr>cn_this := False\<rparr>)))"

section \<open>Responses\<close>

text \<open>
  \<open>rs_message_status\<close> is the status inside the message \<open>myRes\<close>, \<open>rs_status\<close> the field \<open>myStatus\<close>;
  \<open>rs_fields\<close>, \<open>rs_chunked\<close>, \<open>rs_version\<close>, \<open>rs_keep_alive\<close> and \<open>rs_body\<close> are parts of the message.
\<close>

record 'k response =
  rs_connection :: "'k connection"
  rs_message_status :: nat
  rs_fields :: "(string \<times> string) list"
  rs_chunked :: bool
  rs_version :: nat
  rs_keep_alive :: bool
  rs_body :: "byte list"
  rs_headersSent :: bool
  rs_status :: nat
  rs_error :: "asio_error option"

definition new_Response :: "'k connection \<Rightarrow> bool \<Rightarrow> 'k response" where
  "new_Response c continuation =
     \<lparr>rs_connection = c, rs_message_status = 200, rs_fields = [], rs_chunked = False, rs_version = 11,
      rs_keep_alive = continuation, rs_body = [], rs_headersSent = False, rs_status = 200, rs_error = None\<rparr>"

definition set_status :: "nat \<Rightarrow> 'k response \<Rightarrow> 'k response res" where
  "set_status status r =
     (if rs_headersSent r then Inl (Exn ''headers already sent'') else Inr (r\<lparr>rs_status := status\<rparr>))"

text \<open>\<open>set\<close> replaces the field of that name.\<close>

definition set_field :: "string \<Rightarrow> string \<Rightarrow> 'k response \<Rightarrow> 'k response res" where
  "set_field name value r =
     (if rs_headersSent r then Inl (Exn ''headers already sent'')
      else Inr (r\<lparr>rs_fields := filter (\<lambda>(n, v). \<not> iequals n name) (rs_fields r) @ [(name, value)]\<rparr>))"

definition put_wire :: "'k wire_io \<Rightarrow> wire \<Rightarrow> 'k response \<Rightarrow> 'k response" where
  "put_wire io w r =
     (case wire_write io w (cn_socket (rs_connection r)) of
        (e, k) \<Rightarrow> r\<lparr>rs_connection := (rs_connection r)\<lparr>cn_socket := k\<rparr>, rs_error := e\<rparr>)"

definition send_header :: "'k wire_io \<Rightarrow> 'k response \<Rightarrow> 'k response res" where
  "send_header io r =
     (if rs_headersSent r then Inr r
      else
        (let r1 = r\<lparr>rs_headersSent := True, rs_chunked := True\<rparr>;
             r2 = put_wire io (WireHeader (rs_message_status r1) (rs_fields r1) True) r1
         in rbind (throw_if (rs_error r2)) (\<lambda>_. Inr r2)))"

definition response_deviceWrite :: "'k wire_io \<Rightarrow> byte list option \<Rightarrow> 'k response \<Rightarrow> (usize \<times> 'k response) res" where
  "response_deviceWrite io buf r =
     rbind (send_header io r) (\<lambda>r1.
     case buf of
       Some b \<Rightarrow>
         (let r2 = put_wire io (WireChunk b) r1
          in rbind (throw_if (rs_error r2)) (\<lambda>_. Inr (of_nat (length b), r2)))
     | None \<Rightarrow>
         (let r2 = put_wire io WireLastChunk r1
          in rbind (notifyCompleted io (rs_connection r2)) (\<lambda>c.
             rbind (throw_if (rs_error r2)) (\<lambda>_. Inr (0, r2\<lparr>rs_connection := c\<rparr>)))))"

definition response_send :: "'k wire_io \<Rightarrow> byte list \<Rightarrow> 'k response \<Rightarrow> 'k response res" where
  "response_send io body r =
     (let r1 = r\<lparr>rs_headersSent := True, rs_body := rs_body r @ body\<rparr>;
          r2 = put_wire io (WireMessage (rs_message_status r1) (rs_fields r1) (rs_chunked r1) (rs_body r1)) r1
      in rbind (notifyCompleted io (rs_connection r2)) (\<lambda>c.
         rbind (throw_if (rs_error r2)) (\<lambda>_. Inr (r2\<lparr>rs_connection := c\<rparr>))))"

definition RESPONSE_MAX :: nat where
  "RESPONSE_MAX = 2 ^ 16 - 1"

definition response_ops :: "'k wire_io \<Rightarrow> 'k response sink_ops" where
  "response_ops io =
     \<lparr>deviceReady = (\<lambda>r. wire_open io (cn_socket (rs_connection r))),
      deviceOpen = (\<lambda>r. wire_open io (cn_socket (rs_connection r))),
      deviceClose = Inr, deviceError = (\<lambda>r. map_option ec_message (rs_error r)),
      maxWriteBufferSize = RESPONSE_MAX, recommendedWriteBufferSize = RESPONSE_MAX,
      deviceWrite = response_deviceWrite io\<rparr>"

text \<open>
  The JavaScript methods. On an object that is no response they throw a C++ exception into the engine, which
  nobody catches; otherwise they return \<open>this\<close>, the exception slot telling whether they failed.
\<close>

definition response_method ::
  "string \<Rightarrow> jsval \<Rightarrow> 'k response option \<Rightarrow> ('k response \<Rightarrow> 'k response res) \<Rightarrow> (jscall \<times> 'k response option) res" where
  "response_method missing this ro body =
     (case ro of
        None \<Rightarrow> Inl (UB missing)
      | Some r \<Rightarrow>
          (case body r of
             Inr r1 \<Rightarrow> Inr ((this, None), Some r1)
           | Inl (Exn m) \<Rightarrow> Inr ((this, Some (ErrorObj m)), ro)
           | Inl x \<Rightarrow> Inl x))"

definition js_response_status ::
  "engine \<Rightarrow> jsval \<Rightarrow> jsval list \<Rightarrow> 'k response option \<Rightarrow> (jscall \<times> 'k response option) res" where
  "js_response_status en this as ro =
     (if as = [] \<and> ro \<noteq> None then
        Inr ((case ro of Some r \<Rightarrow> Number (Fin (of_nat (rs_status r))) | None \<Rightarrow> Undefined, None), ro)
      else
        response_method ''uncaught exception: status()'' this ro (\<lambda>r.
          case arg as 0 of
            Number (Fin q) \<Rightarrow>
              if of_int (trunc q) \<noteq> q then Inl (Exn ''status must be an unsigned integer'')
              else rbind (to_integer 0 (2 ^ 32 - 1) (Fin q)) (\<lambda>i. set_status (nat i) r)
          | Number NaN \<Rightarrow> Inl (Exn ''status must be an unsigned integer'')
          | Number n \<Rightarrow> rbind (to_integer 0 (2 ^ 32 - 1) n) (\<lambda>i. set_status (nat i) r)
          | _ \<Rightarrow> Inl (Exn ''status must be a number'')))"

definition js_response_set ::
  "engine \<Rightarrow> jsval \<Rightarrow> jsval list \<Rightarrow> 'k response option \<Rightarrow> (jscall \<times> 'k response option) res" where
  "js_response_set en this as ro =
     response_method ''uncaught exception: set()'' this ro (\<lambda>r.
       if length as \<noteq> 2 then Inl (Exn ''set() requires exactly 2 string parameters: header and value'')
       else if \<not> has_type as 0 kString then Inl (Exn ''header name must be a string'')
       else rbind (Value_toString en (arg as 0)) (\<lambda>name.
            rbind (Value_toString en (arg as 1)) (\<lambda>value. set_field name value r)))"

definition js_response_send ::
  "engine \<Rightarrow> (string \<Rightarrow> byte list) \<Rightarrow> 'k wire_io \<Rightarrow> jsval \<Rightarrow> jsval list \<Rightarrow> 'k response option \<Rightarrow>
   (jscall \<times> 'k response option) res" where
  "js_response_send en utf8 io this as ro =
     response_method ''uncaught exception: send()'' this ro (\<lambda>r.
       if length as \<noteq> 1 then Inl (Exn ''send() requires exactly 1 string parameter: body'')
       else if \<not> has_type as 0 kString then Inl (Exn ''body must be a string'')
       else rbind (Value_toString en (arg as 0)) (\<lambda>s. response_send io (utf8 s) r))"

section \<open>Requests\<close>

text \<open>
  The parser: \<open>ps_put\<close> takes a piece of the input, the other fields are its queries. \<open>ps_version\<close> is ten times
  the major plus the minor version.
\<close>

record 'p parser =
  ps_put :: "byte list \<Rightarrow> 'p \<Rightarrow> asio_error option \<times> 'p"
  ps_header_done :: "'p \<Rightarrow> bool"
  ps_done :: "'p \<Rightarrow> bool"
  ps_keep_alive :: "'p \<Rightarrow> bool"
  ps_method :: "'p \<Rightarrow> string"
  ps_version :: "'p \<Rightarrow> nat"
  ps_target :: "'p \<Rightarrow> string"
  ps_fields :: "'p \<Rightarrow> (string \<times> string) list"

datatype request_event = ReqData "byte list" | ReqEnd | ReqError jsval

record request_info =
  ri_method :: string
  ri_version :: "nat \<times> nat"
  ri_url :: string
  ri_headers :: "(string \<times> string) list"

record ('p, 'k) request =
  rq_parser :: 'p
  rq_headerParsed :: bool
  rq_info :: "request_info option"
  rq_settles :: "settle list"
  rq_events :: "request_event list"
  rq_response :: "'k response"

definition new_Request :: "'p \<Rightarrow> 'k response \<Rightarrow> ('p, 'k) request" where
  "new_Request p r = \<lparr>rq_parser = p, rq_headerParsed = False, rq_info = None, rq_settles = [], rq_events = [], rq_response = r\<rparr>"

text \<open>
  What happens once when the header is complete. \<open>socket_option\<close> is the error of switching the keep-alive option
  of the socket on; it throws before anything is stored in the request object.
\<close>

definition header_parsed ::
  "'p parser \<Rightarrow> asio_error option \<Rightarrow> jsval \<Rightarrow> ('p, 'k) request \<Rightarrow> ('p, 'k) request" where
  "header_parsed P socket_option this rq =
     (let p = rq_parser rq;
          keep = ps_keep_alive P p;
          res = rq_response rq;
          res1 = res\<lparr>rs_connection := (rs_connection res)\<lparr>cn_keepAlive := keep\<rparr>\<rparr>;
          rq1 = rq\<lparr>rq_headerParsed := True, rq_response := res1\<rparr>
      in case (if keep then socket_option else None) of
           Some e \<Rightarrow> rq1\<lparr>rq_settles := rq_settles rq @ [Rejected (error_object e)]\<rparr>
         | None \<Rightarrow>
             rq1\<lparr>rq_response := res1\<lparr>rs_keep_alive := keep \<or> rs_keep_alive res1, rs_version := ps_version P p\<rparr>,
                 rq_info := Some \<lparr>ri_method = ps_method P p, ri_version = (ps_version P p div 10, ps_version P p mod 10),
                                  ri_url = ps_target P p, ri_headers = ps_fields P p\<rparr>,
                 rq_settles := rq_settles rq @ [Resolved this]\<rparr>)"

text \<open>
  The listener for \<open>data\<close> of the connection; \<open>thrown\<close> is the exception a listener of the request leaves. An
  error of the parser ends the call only while the header is incomplete.
\<close>

definition request_data ::
  "'p parser \<Rightarrow> asio_error option \<Rightarrow> jsval \<Rightarrow> jsval option \<Rightarrow> byte list \<Rightarrow> ('p, 'k) request \<Rightarrow> ('p, 'k) request" where
  "request_data P socket_option this thrown buffer rq =
     (case ps_put P buffer (rq_parser rq) of
        (ec, p) \<Rightarrow>
          (let rq1 = rq\<lparr>rq_parser := p\<rparr>
           in case (if rq_headerParsed rq1 then None else ec) of
                Some e \<Rightarrow>
                  rq1\<lparr>rq_settles := rq_settles rq1 @
                    [if e = OperationCanceled then Resolved this else Rejected (error_object e)]\<rparr>
              | None \<Rightarrow>
                  (let rq2 = (if \<not> rq_headerParsed rq1 \<and> ps_header_done P p then header_parsed P socket_option this rq1 else rq1)
                   in if ps_done P p then rq2\<lparr>rq_events := rq_events rq2 @ [ReqEnd]\<rparr>
                      else
                        (let rq3 = rq2\<lparr>rq_events := rq_events rq2 @ [ReqData buffer]\<rparr>
                         in case thrown of
                              None \<Rightarrow> rq3
                            | Some e \<Rightarrow> rq3\<lparr>rq_settles := rq_settles rq3 @ [Rejected e]\<rparr>))))"

text \<open>The listener for \<open>error\<close>, and the promise of \<open>attach\<close>: the first settlement counts.\<close>

definition request_error :: "jsval \<Rightarrow> ('p, 'k) request \<Rightarrow> ('p, 'k) request" where
  "request_error e rq = rq\<lparr>rq_events := rq_events rq @ [ReqError e], rq_settles := rq_settles rq @ [Rejected e]\<rparr>"

definition attach_outcome :: "('p, 'k) request \<Rightarrow> settle option" where
  "attach_outcome rq = (case rq_settles rq of [] \<Rightarrow> None | s # _ \<Rightarrow> Some s)"

end
