(* ===== verification/HttpProps.thy ===== *)
theory HttpProps
  imports Http
begin

text \<open>The properties of accepting and of HTTP requests and responses.\<close>

section \<open>Accepting\<close>

text \<open>One completed accept: its continuation flag is false. Re-accepts of kept connections are continuations.\<close>

datatype accept_input = Completed "endpoint option option" "asio_error option" | Continued "endpoint option option" "asio_error option"

fun accept_run :: "(endpoint option option \<Rightarrow> bool \<Rightarrow> asio_error option \<Rightarrow> acceptor \<Rightarrow> acceptor) \<Rightarrow> accept_input list \<Rightarrow> acceptor \<Rightarrow> acceptor option" where
  "accept_run h [] a = Some a"
| "accept_run h (Completed s e # is) a =
     (if ac_pending a = 0 then None else accept_run h is (h s False e (a\<lparr>ac_pending := ac_pending a - 1\<rparr>)))"
| "accept_run h (Continued s e # is) a = accept_run h is (h s True e a)"

lemma handleAccept_pending:
  "ac_pending (acceptor_handleAccept s c e a) = ac_pending a + (if c then 0 else 1)"
  "ac_pending (server_handleAccept s c e a) = ac_pending a + (if c then 0 else 1)"
  by (auto simp: acceptor_handleAccept_def server_handleAccept_def beginAccept_def acc_emit_def Let_def split: option.splits)

lemma accept_run_pending:
  assumes "\<And>s c e a. ac_pending (h s c e a) = ac_pending a + (if c then 0 else 1)" "ac_pending a = 1"
  shows "\<exists>a'. accept_run h is a = Some a' \<and> ac_pending a' = 1"
  using assms(2)
proof (induction "is" arbitrary: a)
  case (Cons i "is")
  then show ?case using assms(1) by (cases i) auto
qed simp

text \<open>
  After a successful \<open>listen\<close> exactly one accept is outstanding for ever, in the acceptor and in the HTTP
  server: whatever accepts complete, with whatever errors, and whatever connections are kept, none is
  lost and none is added.
\<close>

theorem always_one_accept:
  assumes "acceptor_listen io this n a = ((v, None), a1)" "ac_pending a = 0"
  shows "(\<exists>a2. accept_run acceptor_handleAccept inputs a1 = Some a2 \<and> ac_pending a2 = 1) \<and>
    (\<exists>a2. accept_run server_handleAccept inputs a1 = Some a2 \<and> ac_pending a2 = 1)"
proof -
  have "ac_pending a1 = 1"
    using assms by (auto simp: acceptor_listen_def beginAccept_def JSWrapException_def split: option.splits)
  then show ?thesis
    using accept_run_pending [of acceptor_handleAccept a1 inputs] accept_run_pending [of server_handleAccept a1 inputs]
    by (simp add: handleAccept_pending)
qed

theorem always_one_accept_witness:
  "\<exists>a2. accept_run server_handleAccept [Completed (Some None) None, Completed None (Some OperationCanceled), Continued (Some None) None]
      (beginAccept new_Acceptor) = Some a2 \<and> ac_pending a2 = 1"
proof -
  let ?io = "\<lparr>acc_parse = (\<lambda>a. None), acc_open = None, acc_set_reuse = (\<lambda>r. None), acc_bind = (\<lambda>a p. None), acc_listen = (\<lambda>n. None)\<rparr>"
  have "acceptor_listen ?io Null 5 new_Acceptor = ((Null, None), beginAccept new_Acceptor)"
    by (simp add: acceptor_listen_def)
  moreover have "ac_pending new_Acceptor = 0" by (simp add: new_Acceptor_def)
  ultimately show ?thesis by (rule conjunct2 [OF always_one_accept])
qed

section \<open>Responses\<close>

text \<open>A connection that is up takes every item; \<open>wlog\<close> is what it has taken.\<close>

definition wire_laws :: "'k wire_io \<Rightarrow> ('k \<Rightarrow> bool) \<Rightarrow> ('k \<Rightarrow> wire list) \<Rightarrow> bool" where
  "wire_laws io up wlog \<longleftrightarrow>
     (\<forall>k. up k \<longrightarrow> wire_open io k) \<and> (\<forall>k. wlog (wire_close io k) = wlog k) \<and>
     (\<forall>k w. up k \<longrightarrow> (\<exists>k'. wire_write io w k = (None, k') \<and> up k' \<and> wlog k' = wlog k @ [w]))"

fun chunk_bytes :: "wire \<Rightarrow> byte list" where
  "chunk_bytes (WireChunk b) = b"
| "chunk_bytes _ = []"

definition response_log :: "('k \<Rightarrow> wire list) \<Rightarrow> 'k response \<Rightarrow> wire list" where
  "response_log wlog r = wlog (cn_socket (rs_connection r))"

definition streaming :: "nat \<Rightarrow> (string \<times> string) list \<Rightarrow> bool \<Rightarrow> wire list \<Rightarrow> bool" where
  "streaming st fs sent l \<longleftrightarrow> (if sent then \<exists>cs. l = WireHeader st fs True # map WireChunk cs else l = [])"

definition response_up :: "('k \<Rightarrow> bool) \<Rightarrow> ('k \<Rightarrow> wire list) \<Rightarrow> nat \<Rightarrow> (string \<times> string) list \<Rightarrow> 'k response \<Rightarrow> bool" where
  "response_up up wlog st fs r \<longleftrightarrow>
     up (cn_socket (rs_connection r)) \<and> rs_error r = None \<and> rs_message_status r = st \<and> rs_fields r = fs \<and>
     cn_this (rs_connection r) \<and> streaming st fs (rs_headersSent r) (response_log wlog r)"

locale wire_net =
  fixes io :: "'k wire_io" and up :: "'k \<Rightarrow> bool" and wlog :: "'k \<Rightarrow> wire list"
  assumes laws: "wire_laws io up wlog"
begin

lemma put_wire_up:
  assumes "up (cn_socket (rs_connection r))"
  shows "\<exists>k. put_wire io w r = r\<lparr>rs_connection := (rs_connection r)\<lparr>cn_socket := k\<rparr>, rs_error := None\<rparr> \<and> up k \<and>
    wlog k = response_log wlog r @ [w]"
proof -
  obtain k where "wire_write io w (cn_socket (rs_connection r)) = (None, k)" "up k"
    "wlog k = wlog (cn_socket (rs_connection r)) @ [w]"
    using laws assms unfolding wire_laws_def by blast
  then show ?thesis by (auto simp: put_wire_def response_log_def)
qed

lemma send_header_up:
  assumes "response_up up wlog st fs r"
  shows "\<exists>r1. send_header io r = Inr r1 \<and> response_up up wlog st fs r1 \<and> rs_headersSent r1 \<and>
    concat (map chunk_bytes (response_log wlog r1)) = concat (map chunk_bytes (response_log wlog r))"
proof (cases "rs_headersSent r")
  case True
  with assms show ?thesis by (simp add: send_header_def)
next
  case False
  let ?r = "r\<lparr>rs_headersSent := True, rs_chunked := True\<rparr>"
  have "up (cn_socket (rs_connection ?r))" using assms by (simp add: response_up_def)
  from put_wire_up [OF this, of "WireHeader st fs True"] obtain k where k:
    "put_wire io (WireHeader st fs True) ?r = ?r\<lparr>rs_connection := (rs_connection r)\<lparr>cn_socket := k\<rparr>, rs_error := None\<rparr>"
    "up k" "wlog k = response_log wlog r @ [WireHeader st fs True]"
    by (auto simp: response_log_def)
  have "response_log wlog r = []" using assms False by (simp add: response_up_def streaming_def)
  with k False assms show ?thesis
    by (auto simp: send_header_def throw_if_def response_up_def streaming_def response_log_def Let_def)
qed

lemma response_takes:
  assumes "response_up up wlog st fs r"
  shows "\<exists>r1. response_deviceWrite io (Some bs) r = Inr (of_nat (length bs), r1) \<and> response_up up wlog st fs r1 \<and>
    rs_headersSent r1 \<and>
    concat (map chunk_bytes (response_log wlog r1)) = concat (map chunk_bytes (response_log wlog r)) @ bs"
proof -
  obtain r1 where r1: "send_header io r = Inr r1" "response_up up wlog st fs r1" "rs_headersSent r1"
    "concat (map chunk_bytes (response_log wlog r1)) = concat (map chunk_bytes (response_log wlog r))"
    using send_header_up [OF assms] by blast
  then have "up (cn_socket (rs_connection r1))" by (simp add: response_up_def)
  from put_wire_up [OF this, of "WireChunk bs"] obtain k where k:
    "put_wire io (WireChunk bs) r1 = r1\<lparr>rs_connection := (rs_connection r1)\<lparr>cn_socket := k\<rparr>, rs_error := None\<rparr>"
    "up k" "wlog k = response_log wlog r1 @ [WireChunk bs]" by blast
  obtain cs where "response_log wlog r1 = WireHeader st fs True # map WireChunk cs"
    using r1(2,3) by (auto simp: response_up_def streaming_def)
  then have "wlog k = WireHeader st fs True # map WireChunk (cs @ [bs])" using k(3) by simp
  then have "\<exists>cs. wlog k = WireHeader st fs True # map WireChunk cs" by blast
  with r1 k show ?thesis
    by (auto simp: response_deviceWrite_def throw_if_def response_up_def streaming_def response_log_def Let_def)
qed

lemma response_flush:
  assumes "response_up up wlog st fs r"
  shows "\<exists>r1. response_deviceWrite io None r = Inr (0, r1) \<and> \<not> cn_this (rs_connection r1) \<and>
    (\<exists>cs. response_log wlog r1 = WireHeader st fs True # map WireChunk cs @ [WireLastChunk] \<and>
      concat cs = concat (map chunk_bytes (response_log wlog r)))"
proof -
  obtain r1 where r1: "send_header io r = Inr r1" "response_up up wlog st fs r1" "rs_headersSent r1"
    "concat (map chunk_bytes (response_log wlog r1)) = concat (map chunk_bytes (response_log wlog r))"
    using send_header_up [OF assms] by blast
  then have "up (cn_socket (rs_connection r1))" by (simp add: response_up_def)
  from put_wire_up [OF this, of WireLastChunk] obtain k where k:
    "put_wire io WireLastChunk r1 = r1\<lparr>rs_connection := (rs_connection r1)\<lparr>cn_socket := k\<rparr>, rs_error := None\<rparr>"
    "up k" "wlog k = response_log wlog r1 @ [WireLastChunk]" by blast
  obtain cs where cs: "response_log wlog r1 = WireHeader st fs True # map WireChunk cs"
    using r1(2,3) by (auto simp: response_up_def streaming_def)
  have "map (chunk_bytes \<circ> WireChunk) cs = cs" by (rule map_idI) simp
  then have "concat cs = concat (map chunk_bytes (response_log wlog r))" using r1(4) cs by simp
  moreover have "cn_this (rs_connection r1)" using r1(2) by (simp add: response_up_def)
  moreover have "wlog (wire_close io k) = wlog k" using laws by (simp add: wire_laws_def)
  ultimately show ?thesis
    using r1(1) k cs
    by (auto simp: response_deviceWrite_def throw_if_def notifyCompleted_def connection_close_def response_log_def Let_def)
qed

end

sublocale wire_net \<subseteq> response: sink "response_ops io" "response_up up wlog st fs"
  "\<lambda>r. concat (map chunk_bytes (response_log wlog r))" for st fs
proof
  show "\<exists>n r'. deviceWrite (response_ops io) (Some bs) r = Inr (of_nat n, r') \<and> 0 < n \<and> n \<le> length bs \<and>
      response_up up wlog st fs r' \<and>
      concat (map chunk_bytes (response_log wlog r')) = concat (map chunk_bytes (response_log wlog r)) @ take n bs"
    if "response_up up wlog st fs r" "bs \<noteq> []" for r bs
    using response_takes [OF that(1), of bs] that(2)
    by (intro exI [of _ "length bs"]) (auto simp: response_ops_def)
qed (use laws in \<open>auto simp: response_ops_def RESPONSE_MAX_def response_up_def wire_laws_def\<close>)

lemma put_wire_fields [simp]:
  "rs_message_status (put_wire io w r) = rs_message_status r" "rs_fields (put_wire io w r) = rs_fields r"
  "rs_headersSent (put_wire io w r) = rs_headersSent r" "rs_status (put_wire io w r) = rs_status r"
  "rs_body (put_wire io w r) = rs_body r" "rs_chunked (put_wire io w r) = rs_chunked r"
  "cn_this (rs_connection (put_wire io w r)) = cn_this (rs_connection r)"
  by (simp_all add: put_wire_def split: prod.splits)

lemma throw_if_Inr [simp]: "throw_if e = Inr u \<longleftrightarrow> e = None"
  by (cases e) (simp_all add: throw_if_def)

context wire_net
begin

lemma write_then_flush:
  assumes "response_up up wlog st fs r" "response_log wlog r = []"
  shows "\<exists>r1 r2. write_loop (response_ops io) data 0 r = Some (Inr (Resolved (Number (Fin (of_nat (length data)))), r1)) \<and>
    response_deviceWrite io None r1 = Inr (0, r2) \<and>
    (\<exists>cs. response_log wlog r2 = WireHeader st fs True # map WireChunk cs @ [WireLastChunk] \<and> concat cs = data)"
proof -
  obtain r1 where r1: "write_loop (response_ops io) data 0 r = Some (Inr (Resolved (Number (Fin (of_nat (length data)))), r1))"
    "response_up up wlog st fs r1"
    "concat (map chunk_bytes (response_log wlog r1)) = concat (map chunk_bytes (response_log wlog r)) @ drop 0 data"
    using response.write_loop_delivers [OF assms(1), of 0 data] by auto
  then show ?thesis using response_flush [OF r1(2)] assms(2) by fastforce
qed

end

text \<open>A connection in memory, and its interpretation.\<close>

definition memory_wire :: "wire list wire_io" where
  "memory_wire = \<lparr>wire_write = (\<lambda>w k. (None, k @ [w])), wire_open = (\<lambda>k. True), wire_close = (\<lambda>k. k)\<rparr>"

lemma memory_wire_laws: "wire_laws memory_wire (\<lambda>k. True) (\<lambda>k. k)"
  by (simp add: wire_laws_def memory_wire_def)

interpretation memory_wire: wire_net memory_wire "\<lambda>k. True" "\<lambda>k. k"
  by unfold_locales (rule memory_wire_laws)

lemma new_Response_up:
  "up k \<Longrightarrow> wlog k = [] \<Longrightarrow> response_up up wlog 200 [] (new_Response (new_Connection k) c)"
  by (simp add: response_up_def new_Response_def new_Connection_def streaming_def response_log_def)

text \<open>
  Writing a body to a response and flushing it sends one header, then the body in chunks, complete and in
  order, then the last chunk, and resolves with the length of the body.
\<close>

theorem response_streams_body:
  assumes "wire_laws io up wlog" "up k" "wlog k = []"
  shows "\<exists>r1 r2. write_loop (response_ops io) data 0 (new_Response (new_Connection k) c) =
      Some (Inr (Resolved (Number (Fin (of_nat (length data)))), r1)) \<and>
    response_deviceWrite io None r1 = Inr (0, r2) \<and>
    (\<exists>cs. response_log wlog r2 = WireHeader 200 [] True # map WireChunk cs @ [WireLastChunk] \<and> concat cs = data)"
  using wire_net.write_then_flush [OF wire_net.intro [OF assms(1)] new_Response_up [of up k wlog c, OF assms(2,3)]] assms(3)
  by (simp add: response_log_def new_Response_def new_Connection_def)

theorem response_streams_body_witness:
  "\<exists>r1 r2. write_loop (response_ops memory_wire) [1, 2] 0 (new_Response (new_Connection []) False) =
      Some (Inr (Resolved (Number (Fin (of_nat (length [1, 2 :: byte])))), r1)) \<and>
    response_deviceWrite memory_wire None r1 = Inr (0, r2) \<and>
    (\<exists>cs. response_log (\<lambda>k. k) r2 = WireHeader 200 [] True # map WireChunk cs @ [WireLastChunk] \<and> concat cs = [1, 2])"
  by (rule response_streams_body [OF memory_wire_laws]) simp_all

text \<open>The operations of a program on its response; one that throws leaves the response as it was.\<close>

datatype response_op = SetStatus nat | SetField string string | WriteChunk "byte list option" | SendBody "byte list"

fun response_do :: "'k wire_io \<Rightarrow> response_op \<Rightarrow> 'k response \<Rightarrow> 'k response res" where
  "response_do io (SetStatus n) r = set_status n r"
| "response_do io (SetField n v) r = set_field n v r"
| "response_do io (WriteChunk b) r = rbind (response_deviceWrite io b r) (\<lambda>(n, r1). Inr r1)"
| "response_do io (SendBody b) r = response_send io b r"

fun response_run :: "'k wire_io \<Rightarrow> response_op list \<Rightarrow> 'k response \<Rightarrow> 'k response res" where
  "response_run io [] r = Inr r"
| "response_run io (x # xs) r = rbind (response_do io x r) (\<lambda>r1. response_run io xs r1)"

fun wire_status :: "wire \<Rightarrow> nat option" where
  "wire_status (WireHeader st fs c) = Some st"
| "wire_status (WireMessage st fs c b) = Some st"
| "wire_status _ = None"

text \<open>\<open>wlog\<close> grows by the item written, whether the write succeeds or not.\<close>

definition logs_writes :: "'k wire_io \<Rightarrow> ('k \<Rightarrow> wire list) \<Rightarrow> bool" where
  "logs_writes io wlog \<longleftrightarrow>
     (\<forall>w k. wlog (snd (wire_write io w k)) = wlog k @ [w]) \<and> (\<forall>k. wlog (wire_close io k) = wlog k)"

definition only_200 :: "('k \<Rightarrow> wire list) \<Rightarrow> 'k response \<Rightarrow> bool" where
  "only_200 wlog r \<longleftrightarrow> rs_message_status r = 200 \<and>
     (\<forall>w \<in> set (response_log wlog r). wire_status w \<in> {None, Some 200})"

lemma put_wire_log:
  assumes "logs_writes io wlog"
  shows "response_log wlog (put_wire io w r) = response_log wlog r @ [w]"
proof -
  obtain e k where k: "wire_write io w (cn_socket (rs_connection r)) = (e, k)" by fastforce
  with assms have "wlog k = wlog (cn_socket (rs_connection r)) @ [w]" unfolding logs_writes_def by (metis snd_conv)
  with k show ?thesis by (simp add: put_wire_def response_log_def)
qed

lemma only_200_put:
  "logs_writes io wlog \<Longrightarrow> only_200 wlog r \<Longrightarrow> wire_status w \<in> {None, Some 200} \<Longrightarrow> only_200 wlog (put_wire io w r)"
  by (auto simp: only_200_def put_wire_log)

lemma only_200_notify:
  assumes "logs_writes io wlog" "only_200 wlog r" "notifyCompleted io (rs_connection r) = Inr c"
  shows "only_200 wlog (r\<lparr>rs_connection := c\<rparr>)"
  using assms
  by (auto simp: only_200_def notifyCompleted_def connection_close_def logs_writes_def response_log_def Let_def split: if_splits)

lemma only_200_fields:
  "only_200 wlog (r\<lparr>rs_status := n\<rparr>) = only_200 wlog r" "only_200 wlog (r\<lparr>rs_fields := f\<rparr>) = only_200 wlog r"
  "only_200 wlog (r\<lparr>rs_headersSent := s, rs_chunked := ch\<rparr>) = only_200 wlog r"
  "only_200 wlog (r\<lparr>rs_headersSent := s, rs_body := b\<rparr>) = only_200 wlog r"
  by (simp_all add: only_200_def response_log_def)

lemma only_200_header:
  assumes "logs_writes io wlog" "only_200 wlog r" "send_header io r = Inr r1"
  shows "only_200 wlog r1"
proof -
  have "only_200 wlog (put_wire io (WireHeader (rs_message_status r) (rs_fields r) True) (r\<lparr>rs_headersSent := True, rs_chunked := True\<rparr>))"
    by (rule only_200_put [OF assms(1)]) (use assms(2) in \<open>simp_all add: only_200_fields, simp add: only_200_def\<close>)
  then show ?thesis using assms(2,3) by (auto simp: send_header_def rbind_eq_Inr Let_def split: if_splits)
qed

lemma only_200_op:
  assumes "logs_writes io wlog" "only_200 wlog r" "response_do io x r = Inr r1"
  shows "only_200 wlog r1"
proof (cases x)
  case (SetStatus n)
  with assms show ?thesis by (auto simp: set_status_def only_200_fields split: if_splits)
next
  case (SetField n v)
  with assms show ?thesis by (auto simp: set_field_def only_200_fields split: if_splits)
next
  case (WriteChunk b)
  then obtain r2 where h: "send_header io r = Inr r2" using assms(3)
    by (auto simp: response_deviceWrite_def rbind_eq_Inr)
  note o = only_200_header [OF assms(1,2) h]
  have p: "only_200 wlog (put_wire io (WireChunk bs) r2)" "only_200 wlog (put_wire io WireLastChunk r2)" for bs
    by (rule only_200_put [OF assms(1) o], simp)+
  show ?thesis
    using assms(3) WriteChunk h p only_200_notify [OF assms(1) p(2)]
    by (auto simp: response_deviceWrite_def rbind_eq_Inr Let_def split: option.splits)
next
  case (SendBody b)
  let ?r = "r\<lparr>rs_headersSent := True, rs_body := rs_body r @ b\<rparr>"
  have "only_200 wlog (put_wire io (WireMessage (rs_message_status r) (rs_fields r) (rs_chunked r) (rs_body r @ b)) ?r)"
    by (rule only_200_put [OF assms(1)]) (use assms(2) in \<open>simp_all add: only_200_fields, simp add: only_200_def\<close>)
  with SendBody assms(3) show ?thesis
    by (auto simp: response_send_def rbind_eq_Inr Let_def intro: only_200_notify [OF assms(1)])
qed

lemma only_200_run:
  "logs_writes io wlog \<Longrightarrow> only_200 wlog r \<Longrightarrow> response_run io xs r = Inr r1 \<Longrightarrow> only_200 wlog r1"
  by (induction xs arbitrary: r) (auto simp: rbind_eq_Inr dest: only_200_op)

text \<open>
  The status a program sets is never sent: whatever it does with a new response, every header and message
  on the wire has the status 200 that the message was made with, also after \<open>status\<close> has returned without
  an error.
\<close>

theorem status_is_never_sent:
  assumes "logs_writes io wlog" "wlog k = []"
    and "response_run io ops (new_Response (new_Connection k) c) = Inr r"
  shows "\<forall>w \<in> set (response_log wlog r). wire_status w \<in> {None, Some 200}"
proof -
  have "only_200 wlog (new_Response (new_Connection k) c)"
    using assms(2) by (simp add: only_200_def response_log_def new_Response_def new_Connection_def)
  from only_200_run [OF assms(1) this assms(3)] show ?thesis by (simp add: only_200_def)
qed

theorem status_is_never_sent_witness:
  "\<exists>r. response_run memory_wire [SetStatus 404, SendBody [7]] (new_Response (new_Connection []) False) = Inr r \<and>
    rs_status r = 404 \<and> response_log (\<lambda>k. k) r = [WireMessage 200 [] False [7]] \<and>
    (\<forall>w \<in> set (response_log (\<lambda>k. k) r). wire_status w \<in> {None, Some 200})"
proof -
  have 1: "logs_writes memory_wire (\<lambda>k. k)" by (simp add: logs_writes_def memory_wire_def)
  obtain r where r: "response_run memory_wire [SetStatus 404, SendBody [7]] (new_Response (new_Connection []) False) = Inr r"
    "rs_status r = 404" "response_log (\<lambda>k. k) r = [WireMessage 200 [] False [7]]"
    by (simp add: set_status_def response_send_def new_Response_def new_Connection_def put_wire_def memory_wire_def
        notifyCompleted_def connection_close_def throw_if_def response_log_def Let_def)
  from status_is_never_sent [OF 1 _ r(1)] r show ?thesis by simp
qed

text \<open>A response is completed once: the second \<open>send\<close> or flush uses the context of a cleared object.\<close>

lemma second_completion_undefined:
  assumes "response_send io b r = Inr r1"
  shows "response_send io b' r1 = Inl (UB ''context of a cleared object'')"
proof -
  have "\<not> cn_this (rs_connection r1)"
    using assms by (auto simp: response_send_def notifyCompleted_def rbind_eq_Inr Let_def split: if_splits)
  then show ?thesis by (simp add: response_send_def notifyCompleted_def Let_def)
qed

section \<open>Requests\<close>

text \<open>The pieces \<open>bufs\<close> are one request: the parser takes all of them and is done with the last and no earlier.\<close>

fun one_request :: "'p parser \<Rightarrow> byte list list \<Rightarrow> 'p \<Rightarrow> bool" where
  "one_request P [] p = False"
| "one_request P (b # bs) p =
     (case ps_put P b p of
        (Some e, p1) \<Rightarrow> False
      | (None, p1) \<Rightarrow> if bs = [] then ps_header_done P p1 \<and> ps_done P p1 else \<not> ps_done P p1 \<and> one_request P bs p1)"

definition received :: "'p parser \<Rightarrow> jsval \<Rightarrow> byte list list \<Rightarrow> ('p, 'k) request \<Rightarrow> ('p, 'k) request" where
  "received P this bufs rq = fold (request_data P None this None) bufs rq"

definition settled_once :: "jsval \<Rightarrow> ('p, 'k) request \<Rightarrow> bool" where
  "settled_once this rq \<longleftrightarrow> rq_settles rq = (if rq_headerParsed rq then [Resolved this] else [])"

lemma header_parsed_fields [simp]:
  "rq_parser (header_parsed P None this rq) = rq_parser rq" "rq_events (header_parsed P None this rq) = rq_events rq"
  "rq_headerParsed (header_parsed P None this rq)" "rq_settles (header_parsed P None this rq) = rq_settles rq @ [Resolved this]"
  by (simp_all add: header_parsed_def Let_def)

lemma request_data_step:
  assumes "ps_put P b (rq_parser rq) = (None, p1)" "settled_once this rq"
  shows "rq_parser (request_data P None this None b rq) = p1 \<and>
    rq_events (request_data P None this None b rq) = rq_events rq @ [if ps_done P p1 then ReqEnd else ReqData b] \<and>
    settled_once this (request_data P None this None b rq) \<and>
    (ps_header_done P p1 \<longrightarrow> rq_headerParsed (request_data P None this None b rq))"
  using assms by (auto simp: request_data_def settled_once_def Let_def)

lemma received_events:
  "one_request P bufs (rq_parser rq) \<Longrightarrow> settled_once this rq \<Longrightarrow>
    rq_events (received P this bufs rq) = rq_events rq @ map ReqData (butlast bufs) @ [ReqEnd] \<and>
    rq_settles (received P this bufs rq) = [Resolved this]"
proof (induction bufs arbitrary: rq)
  case (Cons b bs)
  obtain p1 where p1: "ps_put P b (rq_parser rq) = (None, p1)"
    using Cons.prems(1) by (auto split: prod.splits option.splits)
  note s = request_data_step [OF p1 Cons.prems(2)]
  let ?rq = "request_data P None this None b rq"
  show ?case
  proof (cases "bs = []")
    case True
    with Cons.prems(1) p1 have "ps_header_done P p1" "ps_done P p1" by simp_all
    with s True show ?thesis by (simp add: received_def settled_once_def)
  next
    case False
    with Cons.prems(1) p1 have "\<not> ps_done P p1" "one_request P bs p1" by simp_all
    with s Cons.IH [of ?rq] False show ?thesis by (simp add: received_def)
  qed
qed simp

text \<open>
  A request that arrives in pieces resolves the promise of \<open>attach\<close> exactly once, and its listeners get
  every piece as it came, the header's bytes included, except the one that completes the request: for
  that one only \<open>end\<close> is emitted, so the last part of a body is never delivered.
\<close>

theorem request_loses_last_piece:
  assumes "one_request P bufs p"
  shows "rq_events (received P this bufs (new_Request p r)) = map ReqData (butlast bufs) @ [ReqEnd] \<and>
    attach_outcome (received P this bufs (new_Request p r)) = Some (Resolved this) \<and>
    length (rq_settles (received P this bufs (new_Request p r))) = 1"
proof -
  have "one_request P bufs (rq_parser (new_Request p r))" "settled_once this (new_Request p r)"
    using assms by (simp_all add: new_Request_def settled_once_def)
  from received_events [OF this] show ?thesis by (simp add: attach_outcome_def new_Request_def)
qed

text \<open>A parser for the witness: the header ends with the first byte, the request with the first zero byte.\<close>

definition toy_parser :: "byte list parser" where
  "toy_parser = \<lparr>ps_put = (\<lambda>b p. (None, p @ b)), ps_header_done = (\<lambda>p. p \<noteq> []), ps_done = (\<lambda>p. 0 \<in> set p),
     ps_keep_alive = (\<lambda>p. False), ps_method = (\<lambda>p. ''POST''), ps_version = (\<lambda>p. 11), ps_target = (\<lambda>p. ''/''),
     ps_fields = (\<lambda>p. [])\<rparr>"

theorem request_loses_last_piece_witness:
  "rq_events (received toy_parser Null [[1, 2], [3], [4, 0]] (new_Request [] (new_Response (new_Connection ()) False))) =
    [ReqData [1, 2], ReqData [3], ReqEnd]"
proof -
  have "one_request toy_parser [[1, 2], [3], [4, 0]] []" by (simp add: toy_parser_def)
  from request_loses_last_piece [OF this, of Null "new_Response (new_Connection ()) False"] show ?thesis by simp
qed

end
