(* ===== verification/HttpStart.thy ===== *)
theory HttpStart
  imports HttpProps Promises
begin

text \<open>
  Starting an HTTP connection (\<open>HTTP::Connection::start\<close> in \<open>src/classes/net/http/connection.cpp\<close>): the request and the
  response are made, tied to the connection object, and attached; the promise of \<open>start\<close> settles when the
  header of the request has been read.
\<close>

section \<open>start\<close>

text \<open>
  \<open>hs_properties\<close> are the properties that are set, as object, name and value, in their order; \<open>hs_base_this\<close> is
  \<open>HTCommon::Connection::myThisObject\<close>. Attaching comes later, as a job of the engine.
\<close>

record ('p, 'k) session =
  hs_request :: "('p, 'k) request"
  hs_properties :: "(jsval \<times> string \<times> jsval) list"
  hs_base_this :: jsval
  hs_attached :: bool

definition connection_start ::
  "'p \<Rightarrow> jsval \<Rightarrow> jsval \<Rightarrow> jsval \<Rightarrow> bool \<Rightarrow> 'k connection \<Rightarrow> ('p, 'k) session" where
  "connection_start p reqObj resObj this continuation c =
     \<lparr>hs_request = new_Request p (new_Response c continuation),
      hs_properties = [(this, ''request'', reqObj), (this, ''response'', resObj),
                       (reqObj, ''connection'', this), (resObj, ''connection'', this)],
      hs_base_this = this, hs_attached = False\<rparr>"

definition session_attach :: "('p, 'k) session \<Rightarrow> ('p, 'k) session" where
  "session_attach se = se\<lparr>hs_attached := True\<rparr>"

text \<open>
  \<open>attach\<close> adds the listeners and resumes the connection, so the socket is read only from then on; the pieces go to
  the request.
\<close>

definition session_data ::
  "'p parser \<Rightarrow> asio_error option \<Rightarrow> jsval \<Rightarrow> jsval option \<Rightarrow> byte list \<Rightarrow> ('p, 'k) session \<Rightarrow> ('p, 'k) session" where
  "session_data P socket_option reqObj thrown buffer se =
     (if hs_attached se then se\<lparr>hs_request := request_data P socket_option reqObj thrown buffer (hs_request se)\<rparr> else se)"

text \<open>\<open>Response::attach\<close> is a resolved promise; \<open>start\<close> resolves with the connection when both are.\<close>

definition response_attach :: "jsval \<Rightarrow> settle" where
  "response_attach resObj = Promise_resolve resObj"

definition start_outcome :: "jsval \<Rightarrow> jsval \<Rightarrow> ('p, 'k) session \<Rightarrow> settle option" where
  "start_outcome resObj this se =
     (if \<not> hs_attached se then None
      else case attach_outcome (hs_request se) of
             None \<Rightarrow> None
           | Some s \<Rightarrow>
               Some (case Promise_all [s, response_attach resObj] of
                       Resolved v \<Rightarrow> Resolved this
                     | Rejected e \<Rightarrow> Rejected e))"

text \<open>What \<open>HTTP::Server::handleAccept\<close> emits for the outcome.\<close>

datatype notified = Waiting | ConnectionEvent jsval | ErrorEvent jsval

definition server_notified :: "settle option \<Rightarrow> notified" where
  "server_notified outcome =
     (case outcome of None \<Rightarrow> Waiting | Some (Resolved v) \<Rightarrow> ConnectionEvent v | Some (Rejected e) \<Rightarrow> ErrorEvent e)"

section \<open>When a connection is announced\<close>

text \<open>The parser after pieces that leave the header incomplete, and \<open>None\<close> when they do not.\<close>

fun read_before_header :: "'p parser \<Rightarrow> byte list list \<Rightarrow> 'p \<Rightarrow> 'p option" where
  "read_before_header P [] p = Some p"
| "read_before_header P (b # bs) p =
     (case ps_put P b p of
        (None, p1) \<Rightarrow> if ps_header_done P p1 then None else read_before_header P bs p1
      | (Some e, p1) \<Rightarrow> None)"

definition session_received :: "'p parser \<Rightarrow> jsval \<Rightarrow> byte list list \<Rightarrow> ('p, 'k) session \<Rightarrow> ('p, 'k) session" where
  "session_received P reqObj bufs se = fold (session_data P None reqObj None) bufs se"

lemma session_received_request:
  "hs_attached se \<Longrightarrow> session_received P reqObj bufs se = se\<lparr>hs_request := received P reqObj bufs (hs_request se)\<rparr>"
  by (induction bufs arbitrary: se) (simp_all add: session_received_def received_def session_data_def)

lemma received_before_header:
  "read_before_header P bs (rq_parser rq) = Some p1 \<Longrightarrow> \<not> rq_headerParsed rq \<Longrightarrow>
    rq_parser (received P this bs rq) = p1 \<and> \<not> rq_headerParsed (received P this bs rq) \<and>
    rq_settles (received P this bs rq) = rq_settles rq \<and> rq_response (received P this bs rq) = rq_response rq"
proof (induction bs arbitrary: rq)
  case Nil
  then show ?case by (simp add: received_def)
next
  case (Cons b bs)
  obtain p' where p': "ps_put P b (rq_parser rq) = (None, p')" "\<not> ps_header_done P p'" "read_before_header P bs p' = Some p1"
    using Cons.prems(1) by (auto split: prod.splits option.splits if_splits)
  let ?rq = "request_data P None this None b rq"
  have "rq_parser ?rq = p'" "\<not> rq_headerParsed ?rq" "rq_settles ?rq = rq_settles rq" "rq_response ?rq = rq_response rq"
    using p' Cons.prems(2) by (simp_all add: request_data_def Let_def)
  with Cons.IH [of ?rq] p'(3) show ?case by (simp add: received_def)
qed

lemma received_settles_prefix: "\<exists>ss. rq_settles (received P this bs rq) = rq_settles rq @ ss"
proof (induction bs arbitrary: rq)
  case Nil
  then show ?case by (simp add: received_def)
next
  case (Cons b bs)
  have "\<exists>ss. rq_settles (request_data P None this None b rq) = rq_settles rq @ ss"
    by (auto simp: request_data_def Let_def split: prod.split option.split)
  then show ?case using Cons [of "request_data P None this None b rq"] by (auto simp: received_def)
qed



text \<open>The objects are tied to each other before anything is read.\<close>

lemma connection_start_ties:
  "hs_properties (connection_start p reqObj resObj this continuation c) =
    [(this, ''request'', reqObj), (this, ''response'', resObj), (reqObj, ''connection'', this), (resObj, ''connection'', this)] \<and>
   start_outcome resObj this (connection_start p reqObj resObj this continuation c) = None"
  by (simp add: connection_start_def start_outcome_def)

end
