(* ===== verification/HttpServer.thy ===== *)
theory HttpServer
  imports HttpStart
begin

text \<open>
  An HTTP server over time (\<open>src/classes/net/http/*.cpp\<close>): sockets are accepted, each gets a connection with a request
  and a response, the response completes, and a kept socket goes back to \<open>handleAccept\<close>, which makes a new connection on
  the same socket. The steps are those of the operations of \<open>Http\<close> and \<open>HttpStart\<close>, in any order the engine and asio
  make them happen.
\<close>

section \<open>The server\<close>

text \<open>
  The sockets by number, each shared by the connections made on it, and the connections with the number of their socket,
  in the order they were started.
\<close>

record ('p, 'k) server =
  sv_acceptor :: acceptor
  sv_sockets :: "nat \<Rightarrow> 'k"
  sv_next :: nat
  sv_sessions :: "(nat \<times> ('p, 'k) session) list"

definition serving :: "acceptor \<Rightarrow> (nat \<Rightarrow> 'k) \<Rightarrow> ('p, 'k) server" where
  "serving a ks = \<lparr>sv_acceptor = a, sv_sockets = ks, sv_next = 0, sv_sessions = []\<rparr>"

abbreviation conn :: "('p, 'k) session \<Rightarrow> 'k connection" where
  "conn se \<equiv> rs_connection (rq_response (hs_request se))"

text \<open>The response of a connection, with the socket as it is now.\<close>

definition response_of :: "nat \<Rightarrow> ('p, 'k) server \<Rightarrow> 'k response" where
  "response_of i v = (case sv_sessions v ! i of (s, se) \<Rightarrow>
     (rq_response (hs_request se))\<lparr>rs_connection := (conn se)\<lparr>cn_socket := sv_sockets v s\<rparr>\<rparr>)"

definition put_response :: "nat \<Rightarrow> 'k response \<Rightarrow> ('p, 'k) server \<Rightarrow> ('p, 'k) server" where
  "put_response i r v = (case sv_sessions v ! i of (s, se) \<Rightarrow>
     v\<lparr>sv_sockets := (sv_sockets v)(s := cn_socket (rs_connection r)),
       sv_sessions := (sv_sessions v)[i := (s, se\<lparr>hs_request := (hs_request se)\<lparr>rq_response := r\<rparr>\<rparr>)]\<rparr>)"

definition put_session :: "nat \<Rightarrow> ('p, 'k) session \<Rightarrow> ('p, 'k) server \<Rightarrow> ('p, 'k) server" where
  "put_session i se v = v\<lparr>sv_sessions := (sv_sessions v)[i := (fst (sv_sessions v ! i), se)]\<rparr>"

text \<open>
  \<open>handleAccept\<close> with all it does: the acceptor, and, when the socket is open and the error does not end the call, a new
  connection on it (\<open>wrapSocket\<close>, then \<open>start\<close>). \<open>p0\<close> is a new parser; the three JavaScript objects are numbered.
\<close>

definition handle_accept ::
  "'p \<Rightarrow> nat \<Rightarrow> endpoint option option \<Rightarrow> bool \<Rightarrow> asio_error option \<Rightarrow> ('p, 'k) server \<Rightarrow> ('p, 'k) server" where
  "handle_accept p0 s open_socket continuation error v =
     (let v1 = v\<lparr>sv_acceptor := server_handleAccept open_socket continuation error (sv_acceptor v)\<rparr>;
          n = 3 * length (sv_sessions v);
          quiet = (case error of None \<Rightarrow> False | Some e \<Rightarrow> quiet_error e)
      in if open_socket = None \<or> quiet then v1
         else v1\<lparr>sv_sessions := sv_sessions v1 @
                [(s, connection_start p0 (Object (n + 1)) (Object (n + 2)) (Object n) continuation (new_Connection (sv_sockets v s)))]\<rparr>)"

text \<open>
  The two ways to complete a response, up to the exception at their end: the last chunk or the whole message is
  written and the connection is told; the error of the write comes back beside the new state.
\<close>

definition response_end :: "'k wire_io \<Rightarrow> 'k response \<Rightarrow> (asio_error option \<times> 'k response) res" where
  "response_end io r =
     rbind (send_header io r) (\<lambda>r1.
     let r2 = put_wire io WireLastChunk r1
     in rbind (notifyCompleted io (rs_connection r2)) (\<lambda>c. Inr (rs_error r2, r2\<lparr>rs_connection := c\<rparr>)))"

definition response_send_end :: "'k wire_io \<Rightarrow> byte list \<Rightarrow> 'k response \<Rightarrow> (asio_error option \<times> 'k response) res" where
  "response_send_end io body r =
     (let r1 = r\<lparr>rs_headersSent := True, rs_body := rs_body r @ body\<rparr>;
          r2 = put_wire io (WireMessage (rs_message_status r1) (rs_fields r1) (rs_chunked r1) (rs_body r1)) r1
      in rbind (notifyCompleted io (rs_connection r2)) (\<lambda>c. Inr (rs_error r2, r2\<lparr>rs_connection := c\<rparr>)))"

lemma deviceWrite_end:
  "response_deviceWrite io None r = rbind (response_end io r) (\<lambda>(e, r'). rbind (throw_if e) (\<lambda>_. Inr (0, r')))"
  by (auto simp: response_deviceWrite_def response_end_def rbind_def throw_if_def Let_def split: sum.split option.split)

lemma send_end: "response_send io body r = rbind (response_send_end io body r) (\<lambda>(e, r'). rbind (throw_if e) (\<lambda>_. Inr r'))"
  by (cases "rs_error (put_wire io (WireMessage (rs_message_status r) (rs_fields r) (rs_chunked r) (rs_body r @ body))
      (r\<lparr>rs_headersSent := True, rs_body := rs_body r @ body\<rparr>))")
    (auto simp: response_send_def response_send_end_def rbind_def throw_if_def Let_def split: sum.split)

text \<open>
  After a completion a kept connection is handed to \<open>handleAccept\<close> with the last error \<open>err\<close> of its socket, whose
  remote end point is \<open>ep\<close>.
\<close>

definition after_completion ::
  "'k wire_io \<Rightarrow> 'p \<Rightarrow> nat \<Rightarrow> endpoint option \<Rightarrow> asio_error option \<Rightarrow> 'k response \<Rightarrow> ('p, 'k) server \<Rightarrow> ('p, 'k) server" where
  "after_completion io p0 i ep err r v =
     (let s = fst (sv_sessions v ! i); v1 = put_response i r v
      in if cn_keepAlive (rs_connection r)
         then handle_accept p0 s (if wire_open io (sv_sockets v1 s) then Some ep else None) True err v1
         else v1)"

section \<open>Steps\<close>

inductive http_step :: "'p parser \<Rightarrow> 'k wire_io \<Rightarrow> 'p \<Rightarrow> ('p, 'k) server \<Rightarrow> ('p, 'k) server \<Rightarrow> bool"
  for P :: "'p parser" and io :: "'k wire_io" and p0 :: 'p where
  accepted: "ac_pending (sv_acceptor v) = Suc n \<Longrightarrow>
    v1 = v\<lparr>sv_acceptor := (sv_acceptor v)\<lparr>ac_pending := n\<rparr>, sv_sockets := (sv_sockets v)(sv_next v := k), sv_next := Suc (sv_next v)\<rparr> \<Longrightarrow>
    http_step P io p0 v (handle_accept p0 (sv_next v) (Some ep) False None v1)"
| accept_failed: "ac_pending (sv_acceptor v) = Suc n \<Longrightarrow>
    v1 = v\<lparr>sv_acceptor := (sv_acceptor v)\<lparr>ac_pending := n\<rparr>\<rparr> \<Longrightarrow>
    http_step P io p0 v (handle_accept p0 s None False (Some e) v1)"
| attached: "i < length (sv_sessions v) \<Longrightarrow> sv_sessions v ! i = (s, se) \<Longrightarrow> http_step P io p0 v (put_session i (session_attach se) v)"
| arrived: "i < length (sv_sessions v) \<Longrightarrow> sv_sessions v ! i = (s, se) \<Longrightarrow> hs_attached se \<Longrightarrow> wire_open io (sv_sockets v s) \<Longrightarrow>
    http_step P io p0 v (put_session i (session_data P option_error reqObj thrown buffer se) v)"
| wrote: "i < length (sv_sessions v) \<Longrightarrow> response_deviceWrite io (Some b) (response_of i v) = Inr (n, r) \<Longrightarrow>
    http_step P io p0 v (put_response i r v)"
| header_failed: "i < length (sv_sessions v) \<Longrightarrow> r0 = response_of i v \<Longrightarrow> \<not> rs_headersSent r0 \<Longrightarrow>
    r = put_wire io (WireHeader (rs_message_status r0) (rs_fields r0) True) (r0\<lparr>rs_headersSent := True, rs_chunked := True\<rparr>) \<Longrightarrow>
    rs_error r \<noteq> None \<Longrightarrow> http_step P io p0 v (put_response i r v)"
| chunk_failed: "i < length (sv_sessions v) \<Longrightarrow> send_header io (response_of i v) = Inr r1 \<Longrightarrow> r = put_wire io (WireChunk b) r1 \<Longrightarrow>
    rs_error r \<noteq> None \<Longrightarrow> http_step P io p0 v (put_response i r v)"
| status_set: "i < length (sv_sessions v) \<Longrightarrow> set_status status (response_of i v) = Inr r \<Longrightarrow> http_step P io p0 v (put_response i r v)"
| field_set: "i < length (sv_sessions v) \<Longrightarrow> set_field name value (response_of i v) = Inr r \<Longrightarrow> http_step P io p0 v (put_response i r v)"
| ended: "i < length (sv_sessions v) \<Longrightarrow> response_end io (response_of i v) = Inr (e, r) \<Longrightarrow>
    http_step P io p0 v (after_completion io p0 i ep err r v)"
| sent: "i < length (sv_sessions v) \<Longrightarrow> response_send_end io body (response_of i v) = Inr (e, r) \<Longrightarrow>
    http_step P io p0 v (after_completion io p0 i ep err r v)"
| peer_closed: "http_step P io p0 v (v\<lparr>sv_sockets := (sv_sockets v)(s := wire_close io (sv_sockets v s))\<rparr>)"

abbreviation http_reaches where
  "http_reaches P io p0 \<equiv> (http_step P io p0)\<^sup>*\<^sup>*"

section \<open>What a server does with its sockets\<close>

text \<open>
  The abstract server: the connections with their sockets and what has become of them. An active connection ends
  and its socket is closed, or it is kept; a kept socket has at most one connection more.
\<close>

datatype phase = Active | Kept | Ended

type_synonym abstract_server = "(nat \<times> phase) list \<times> nat"

inductive serve_step :: "abstract_server \<Rightarrow> abstract_server \<Rightarrow> bool" where
  new_socket: "serve_step (xs, n) (xs @ [(n, Active)], Suc n)"
| close_socket: "i < length xs \<Longrightarrow> xs ! i = (s, Active) \<Longrightarrow> serve_step (xs, n) (xs[i := (s, Ended)], n)"
| keep_socket: "i < length xs \<Longrightarrow> xs ! i = (s, Active) \<Longrightarrow> serve_step (xs, n) (xs[i := (s, Kept)] @ [(s, Active)], n)"
| lose_socket: "i < length xs \<Longrightarrow> xs ! i = (s, Active) \<Longrightarrow> serve_step (xs, n) (xs[i := (s, Kept)], n)"

text \<open>Only the last connection of a socket can be anything but kept.\<close>

definition in_turn :: "abstract_server \<Rightarrow> bool" where
  "in_turn A \<longleftrightarrow> (\<forall>(s, ph) \<in> set (fst A). s < snd A) \<and>
     (\<forall>i j. i < j \<longrightarrow> j < length (fst A) \<longrightarrow> fst (fst A ! i) = fst (fst A ! j) \<longrightarrow> snd (fst A ! i) = Kept)"

lemma in_turn_socket: "in_turn (xs, n) \<Longrightarrow> i < length xs \<Longrightarrow> fst (xs ! i) < n"
  unfolding in_turn_def by (metis (no_types, lifting) case_prod_unfold fst_conv nth_mem snd_conv)

lemma in_turn_kept:
  "in_turn (xs, n) \<Longrightarrow> a < b \<Longrightarrow> b < length xs \<Longrightarrow> fst (xs ! a) = fst (xs ! b) \<Longrightarrow> snd (xs ! a) = Kept"
  by (simp add: in_turn_def)

lemma in_turn_update:
  assumes "in_turn (xs, n)" "i < length xs" "xs ! i = (s, Active)" "ph \<in> {Kept, Ended}"
  shows "in_turn (xs[i := (s, ph)], n)"
proof -
  have "snd (xs[i := (s, ph)] ! a) = Kept" if "a < b" "b < length xs" "fst (xs[i := (s, ph)] ! a) = fst (xs[i := (s, ph)] ! b)" for a b
  proof -
    have f: "fst (xs[i := (s, ph)] ! c) = fst (xs ! c)" if "c < length xs" for c
      using that assms(2,3) by (cases "c = i") simp_all
    have "snd (xs ! a) = Kept" using assms(1) that f by (simp add: in_turn_def)
    with assms(2,3) that show ?thesis by (cases "a = i") auto
  qed
  moreover have "\<forall>(s, ph) \<in> set (xs[i := (s, ph)]). s < n"
  proof -
    have "s < n" using in_turn_socket [OF assms(1,2)] assms(3) by simp
    then show ?thesis using assms(1) set_update_subset_insert [of xs i "(s, ph)"] by (auto simp: in_turn_def)
  qed
  ultimately show ?thesis by (auto simp: in_turn_def)
qed

lemma in_turn_snoc:
  assumes "in_turn (xs, n)" "s < n" "\<And>i. i < length xs \<Longrightarrow> fst (xs ! i) = s \<Longrightarrow> snd (xs ! i) = Kept"
  shows "in_turn (xs @ [(s, Active)], n)"
  using assms by (auto simp: in_turn_def nth_append less_Suc_eq)

lemma in_turn_step: "serve_step A B \<Longrightarrow> in_turn A \<Longrightarrow> in_turn B"
proof (induction rule: serve_step.induct)
  case (new_socket xs n)
  then have "in_turn (xs, Suc n)" by (auto simp: in_turn_def)
  moreover have "fst (xs ! i) \<noteq> n" if "i < length xs" for i
    using in_turn_socket [OF new_socket that] by simp
  ultimately show ?case by (intro in_turn_snoc) auto
next
  case (close_socket i xs s n)
  then show ?case by (intro in_turn_update) auto
next
  case (lose_socket i xs s n)
  then show ?case by (intro in_turn_update) auto
next
  case (keep_socket i xs s n)
  then have "in_turn (xs[i := (s, Kept)], n)" by (intro in_turn_update) auto
  moreover have "s < n" using in_turn_socket [OF keep_socket(3,1)] keep_socket(2) by simp
  moreover have "snd (xs[i := (s, Kept)] ! j) = Kept" if "j < length xs" "fst (xs[i := (s, Kept)] ! j) = s" for j
  proof (cases "j = i")
    case False
    with that have f: "fst (xs ! j) = fst (xs ! i)" using keep_socket by simp
    show ?thesis
    proof (cases "j < i")
      case True
      with in_turn_kept [OF keep_socket(3) this keep_socket(1) f] False show ?thesis by simp
    next
      case False
      with \<open>j \<noteq> i\<close> have "i < j" by simp
      with in_turn_kept [OF keep_socket(3) this] f that have "snd (xs ! i) = Kept" by simp
      with keep_socket show ?thesis by simp
    qed
  qed (use keep_socket in simp)
  ultimately show ?case by (intro in_turn_snoc) auto
qed

section \<open>The code does that\<close>

definition phase_of :: "'k connection \<Rightarrow> phase" where
  "phase_of c = (if cn_this c then Active else if 0 < cn_reaccepts c then Kept else Ended)"

definition abs_server :: "('p, 'k) server \<Rightarrow> abstract_server" where
  "abs_server v = (map (\<lambda>(s, se). (s, phase_of (conn se))) (sv_sessions v), sv_next v)"

text \<open>A connection completes once: then it has been closed or handed back, and not both.\<close>

definition counted :: "'k connection \<Rightarrow> bool" where
  "counted c \<longleftrightarrow> cn_reaccepts c + cn_closed c = (if cn_this c then 0 else 1)"

definition server_ok :: "('p, 'k) server \<Rightarrow> bool" where
  "server_ok v \<longleftrightarrow> ac_pending (sv_acceptor v) = 1 \<and> (\<forall>(s, se) \<in> set (sv_sessions v). counted (conn se))"

definition tally :: "'k connection \<Rightarrow> bool \<times> nat \<times> nat" where
  "tally c = (cn_this c, cn_reaccepts c, cn_closed c)"

lemma tally_eq: "tally c = tally d \<Longrightarrow> phase_of c = phase_of d \<and> counted c = counted d"
  by (simp add: tally_def phase_of_def counted_def)

lemma tally_put_wire [simp]: "tally (rs_connection (put_wire io w r)) = tally (rs_connection r)"
  by (simp add: put_wire_def tally_def split: prod.split)

lemma tally_send_header: "send_header io r = Inr r1 \<Longrightarrow> tally (rs_connection r1) = tally (rs_connection r)"
  by (auto simp: send_header_def Let_def rbind_eq_Inr split: if_splits)

lemma tally_write: "response_deviceWrite io (Some b) r = Inr (n, r1) \<Longrightarrow> tally (rs_connection r1) = tally (rs_connection r)"
  by (auto simp: response_deviceWrite_def Let_def rbind_eq_Inr dest: tally_send_header)

lemma tally_response_of:
  "sv_sessions v ! i = (s, se) \<Longrightarrow> tally (rs_connection (response_of i v)) = tally (conn se)"
  by (simp add: response_of_def tally_def)

lemma tally_session_data [simp]: "tally (conn (session_data P e this thrown b se)) = tally (conn se)"
  by (auto simp: session_data_def request_data_def header_parsed_def tally_def Let_def split: prod.split option.split)

lemma tally_notify:
  assumes "notifyCompleted io c = Inr c'"
  shows "cn_this c \<and> tally c' = (if cn_keepAlive c then (False, Suc (cn_reaccepts c), cn_closed c) else (False, cn_reaccepts c, Suc (cn_closed c))) \<and>
    cn_keepAlive c' = cn_keepAlive c"
  using assms by (auto simp: notifyCompleted_def connection_close_def tally_def Let_def split: if_splits)

lemma tally_end:
  assumes "response_end io r = Inr (e, r') \<or> response_send_end io body r = Inr (e, r')"
  shows "cn_this (rs_connection r) \<and> tally (rs_connection r') =
    (if cn_keepAlive (rs_connection r') then (False, Suc (cn_reaccepts (rs_connection r)), cn_closed (rs_connection r))
     else (False, cn_reaccepts (rs_connection r), Suc (cn_closed (rs_connection r))))"
proof -
  from assms obtain r1 w c where r1: "tally (rs_connection r1) = tally (rs_connection r)"
    "notifyCompleted io (rs_connection (put_wire io w r1)) = Inr c" "rs_connection r' = c"
  proof
    assume "response_end io r = Inr (e, r')"
    then obtain r1 c where "send_header io r = Inr r1" "notifyCompleted io (rs_connection (put_wire io WireLastChunk r1)) = Inr c"
      "rs_connection r' = c" by (auto simp: response_end_def rbind_eq_Inr Let_def)
    then show ?thesis using that tally_send_header by blast
  next
    let ?r1 = "r\<lparr>rs_headersSent := True, rs_body := rs_body r @ body\<rparr>"
    let ?w = "WireMessage (rs_message_status ?r1) (rs_fields ?r1) (rs_chunked ?r1) (rs_body ?r1)"
    assume "response_send_end io body r = Inr (e, r')"
    then obtain c where "notifyCompleted io (rs_connection (put_wire io ?w ?r1)) = Inr c" "rs_connection r' = c"
      by (auto simp: response_send_end_def rbind_eq_Inr Let_def)
    then show ?thesis using that [of ?r1 ?w c] by simp
  qed
  have "tally (rs_connection (put_wire io w r1)) = tally (rs_connection r)" using r1(1) by simp
  with tally_notify [OF r1(2)] r1(3) show ?thesis by (auto simp: tally_def)
qed

text \<open>What the primitive updates do to the abstract server.\<close>

lemma map_update_same: "i < length xs \<Longrightarrow> f y = f (xs ! i) \<Longrightarrow> map f (xs[i := y]) = map f xs"
  by (metis list_update_id map_update)

lemma put_session_same:
  assumes "i < length (sv_sessions v)" "sv_sessions v ! i = (s, se)" "tally (conn se') = tally (conn se)"
  shows "abs_server (put_session i se' v) = abs_server v \<and> server_ok (put_session i se' v) = server_ok v"
proof -
  let ?phase = "\<lambda>(s :: nat, se). (s, phase_of (conn se))" and ?counted = "\<lambda>(s :: nat, se). counted (conn se)"
  have "?phase (s, se') = ?phase (sv_sessions v ! i)" "?counted (s, se') = ?counted (sv_sessions v ! i)"
    using assms(2,3) tally_eq by auto
  with assms(1) have "map ?phase ((sv_sessions v)[i := (s, se')]) = map ?phase (sv_sessions v)"
    "map ?counted ((sv_sessions v)[i := (s, se')]) = map ?counted (sv_sessions v)"
    by (simp_all add: map_update_same del: map_update)
  moreover have "(\<forall>x \<in> set xs. ?counted x) \<longleftrightarrow> False \<notin> set (map ?counted xs)" for xs :: "(nat \<times> ('a, 'b) session) list"
    by (auto simp: image_iff)
  ultimately show ?thesis using assms(2) by (simp add: put_session_def abs_server_def server_ok_def del: set_map)
qed

definition with_response :: "'k response \<Rightarrow> ('p, 'k) session \<Rightarrow> ('p, 'k) session" where
  "with_response r se = se\<lparr>hs_request := (hs_request se)\<lparr>rq_response := r\<rparr>\<rparr>"

lemma put_response_eq:
  "sv_sessions v ! i = (s, se) \<Longrightarrow>
    put_response i r v = (put_session i (with_response r se) v)\<lparr>sv_sockets := (sv_sockets v)(s := cn_socket (rs_connection r))\<rparr>"
  by (simp add: put_response_def put_session_def with_response_def)

lemma abs_sockets [simp]:
  "abs_server (v\<lparr>sv_sockets := ks\<rparr>) = abs_server v" "server_ok (v\<lparr>sv_sockets := ks\<rparr>) = server_ok v"
  by (simp_all add: abs_server_def server_ok_def)

lemma conn_with_response [simp]: "conn (with_response r se) = rs_connection r"
  by (simp add: with_response_def)

lemma put_response_same:
  assumes "i < length (sv_sessions v)" "tally (rs_connection r) = tally (rs_connection (response_of i v))"
  shows "abs_server (put_response i r v) = abs_server v \<and> server_ok (put_response i r v) = server_ok v"
proof -
  obtain s se where se: "sv_sessions v ! i = (s, se)" by fastforce
  with assms(2) have "tally (conn (with_response r se)) = tally (conn se)" by (simp add: tally_response_of)
  from put_session_same [OF assms(1) se this] se show ?thesis by (simp add: put_response_eq)
qed

text \<open>\<open>handleAccept\<close> with a connection to start, and without.\<close>

definition starts :: "endpoint option option \<Rightarrow> asio_error option \<Rightarrow> bool" where
  "starts open_socket error \<longleftrightarrow> open_socket \<noteq> None \<and> (case error of None \<Rightarrow> True | Some e \<Rightarrow> \<not> quiet_error e)"

lemma abs_handle_accept:
  "abs_server (handle_accept p0 s op c e v) =
    (fst (abs_server v) @ (if starts op e then [(s, Active)] else []), snd (abs_server v))"
  by (auto simp: handle_accept_def starts_def abs_server_def connection_start_def new_Request_def new_Response_def
      new_Connection_def phase_of_def Let_def split: option.split)

lemma handle_accept_ok:
  assumes "\<forall>(s, se) \<in> set (sv_sessions v). counted (conn se)" "ac_pending (sv_acceptor v) + (if c then 0 else 1) = 1"
  shows "server_ok (handle_accept p0 s op c e v)"
  using assms handleAccept_pending(2) [of op c e "sv_acceptor v"]
  by (auto simp: handle_accept_def server_ok_def connection_start_def new_Request_def new_Response_def
      new_Connection_def counted_def Let_def split: option.splits if_splits)

lemma completion_step:
  assumes "server_ok v" "i < length (sv_sessions v)"
    and "response_end io (response_of i v) = Inr (e, r) \<or> response_send_end io body (response_of i v) = Inr (e, r)"
  shows "server_ok (after_completion io p0 i ep err r v) \<and>
    serve_step (abs_server v) (abs_server (after_completion io p0 i ep err r v))"
proof -
  obtain s se where se: "sv_sessions v ! i = (s, se)" by fastforce
  let ?xs = "fst (abs_server v)" and ?c = "conn se" and ?v1 = "put_response i r v"
  have t: "tally (rs_connection (response_of i v)) = tally ?c" using se by (rule tally_response_of)
  have c: "counted ?c" using assms(1,2) se nth_mem [OF assms(2)] by (auto simp: server_ok_def)
  from tally_end [OF assms(3)] t have act: "cn_this ?c" and r: "tally (rs_connection r) =
      (if cn_keepAlive (rs_connection r) then (False, Suc (cn_reaccepts ?c), cn_closed ?c)
       else (False, cn_reaccepts ?c, Suc (cn_closed ?c)))"
    by (auto simp: tally_def)
  from c act have "cn_reaccepts ?c = 0" "cn_closed ?c = 0" by (simp_all add: counted_def)
  with r have rc: "counted (rs_connection r)" "phase_of (rs_connection r) = (if cn_keepAlive (rs_connection r) then Kept else Ended)"
    by (auto simp: tally_def counted_def phase_of_def split: if_splits)
  have x: "i < length ?xs" "?xs ! i = (s, Active)"
    using assms(2) se act by (simp_all add: abs_server_def phase_of_def)
  have a1: "abs_server ?v1 = (?xs[i := (s, phase_of (rs_connection r))], snd (abs_server v))"
    using se by (simp add: put_response_eq) (simp add: abs_server_def put_session_def map_update)
  have s1: "\<forall>(s, se) \<in> set (sv_sessions ?v1). counted (conn se)" "ac_pending (sv_acceptor ?v1) = 1" "fst (sv_sessions v ! i) = s"
    using assms(1) se rc(1) set_update_subset_insert [of "sv_sessions v" i "(s, with_response r se)"]
    by (auto simp: put_response_eq put_session_def server_ok_def)
  show ?thesis
  proof (cases "cn_keepAlive (rs_connection r)")
    case True
    let ?op = "if wire_open io (sv_sockets ?v1 s) then Some ep else None"
    have v2: "after_completion io p0 i ep err r v = handle_accept p0 s ?op True err ?v1"
      using True s1(3) by (simp add: after_completion_def Let_def)
    have "server_ok (handle_accept p0 s ?op True err ?v1)" using s1 by (intro handle_accept_ok) simp_all
    moreover have "abs_server (handle_accept p0 s ?op True err ?v1) =
        (?xs[i := (s, Kept)] @ (if starts ?op err then [(s, Active)] else []), snd (abs_server v))"
      unfolding abs_handle_accept a1 using True rc(2) by simp
    moreover have "serve_step (?xs, snd (abs_server v)) (?xs[i := (s, Kept)] @ (if starts ?op err then [(s, Active)] else []), snd (abs_server v))"
    proof (cases "starts ?op err")
      case True
      show ?thesis unfolding if_P [OF True] by (rule serve_step.keep_socket [OF x])
    next
      case False
      show ?thesis unfolding if_not_P [OF False] append_Nil2 by (rule serve_step.lose_socket [OF x])
    qed
    ultimately show ?thesis unfolding v2 by (simp only: prod.collapse)
  next
    case False
    then have "after_completion io p0 i ep err r v = ?v1" by (simp add: after_completion_def Let_def)
    moreover have "server_ok ?v1" using s1 by (simp add: server_ok_def)
    moreover have "serve_step (?xs, snd (abs_server v)) (?xs[i := (s, Ended)], snd (abs_server v))"
      by (rule serve_step.close_socket [OF x])
    ultimately show ?thesis using a1 False rc(2) by simp
  qed
qed

lemma http_step_refines:
  "http_step P io p0 v v' \<Longrightarrow> server_ok v \<Longrightarrow>
    server_ok v' \<and> (abs_server v' = abs_server v \<or> serve_step (abs_server v) (abs_server v'))"
proof (induction rule: http_step.induct)
  case (accepted v n v1 k ep)
  then have "abs_server v1 = (fst (abs_server v), Suc (snd (abs_server v)))" "sv_next v = snd (abs_server v)"
    by (simp_all add: abs_server_def)
  moreover have "server_ok (handle_accept p0 (sv_next v) (Some ep) False None v1)"
    using accepted by (intro handle_accept_ok) (simp_all add: server_ok_def)
  ultimately show ?case
    using serve_step.new_socket [of "fst (abs_server v)" "snd (abs_server v)"] by (simp add: abs_handle_accept starts_def)
next
  case (accept_failed v n v1 s e)
  then have "abs_server v1 = abs_server v" by (simp add: abs_server_def)
  moreover have "server_ok (handle_accept p0 s None False (Some e) v1)"
    using accept_failed by (intro handle_accept_ok) (simp_all add: server_ok_def)
  ultimately show ?case by (simp add: abs_handle_accept starts_def)
next
  case (attached i v s se)
  then have "tally (conn (session_attach se)) = tally (conn se)" by (simp add: session_attach_def)
  from put_session_same [OF attached(1,2) this] attached(3) show ?case by simp
next
  case (arrived i v s se option_error reqObj thrown buffer)
  from put_session_same [OF arrived(1,2) tally_session_data] arrived(5) show ?case by simp
next
  case (wrote i v b n r)
  from put_response_same [OF wrote(1) tally_write [OF wrote(2)]] wrote(3) show ?case by simp
next
  case (header_failed i v r0 r)
  then have "tally (rs_connection r) = tally (rs_connection (response_of i v))" by simp
  from put_response_same [OF header_failed(1) this] header_failed(6) show ?case by simp
next
  case (chunk_failed i v r1 r b)
  then have "tally (rs_connection r) = tally (rs_connection (response_of i v))" using tally_send_header by fastforce
  from put_response_same [OF chunk_failed(1) this] chunk_failed(5) show ?case by simp
next
  case (status_set i v status r)
  then have "tally (rs_connection r) = tally (rs_connection (response_of i v))"
    by (auto simp: set_status_def split: if_splits)
  from put_response_same [OF status_set(1) this] status_set(3) show ?case by simp
next
  case (field_set i v name val r)
  then have "tally (rs_connection r) = tally (rs_connection (response_of i v))"
    by (auto simp: set_field_def split: if_splits)
  from put_response_same [OF field_set(1) this] field_set(3) show ?case by simp
next
  case (ended i v e r ep err)
  from completion_step [OF ended(3,1)] ended(2) show ?case by blast
next
  case (sent i v body e r ep err)
  from completion_step [OF sent(3,1)] sent(2) show ?case by blast
next
  case (peer_closed v s)
  then show ?case by simp
qed

lemma http_reaches_refines:
  assumes "http_reaches P io p0 v v'" "server_ok v"
  shows "server_ok v' \<and> serve_step\<^sup>*\<^sup>* (abs_server v) (abs_server v')"
  using assms
proof (induction rule: rtranclp_induct)
  case (step v1 v2)
  with http_step_refines [OF step.hyps(2)] show ?case by (auto intro: rtranclp.rtrancl_into_rtrancl)
qed simp

lemma in_turn_reaches: "serve_step\<^sup>*\<^sup>* A B \<Longrightarrow> in_turn A \<Longrightarrow> in_turn B"
  by (induction rule: rtranclp_induct) (auto dest: in_turn_step)

lemma acceptor_listen_pending:
  "acceptor_listen aio this n a = ((w, None), a1) \<Longrightarrow> ac_pending a1 = Suc (ac_pending a)"
  by (auto simp: acceptor_listen_def beginAccept_def JSWrapException_def split: option.splits)

lemma serving_ok:
  assumes "acceptor_listen aio this n new_Acceptor = ((w, None), a)"
  shows "server_ok (serving a ks)" and "abs_server (serving a ks) = ([], 0)"
  using acceptor_listen_pending [OF assms] by (simp_all add: server_ok_def serving_def abs_server_def new_Acceptor_def)



section \<open>Two readers of one socket\<close>

text \<open>
  The receive loop of a connection does not end when its response completes, so a kept socket is read by the old
  connection and by the new one (\<open>src/classes/io/devices/socket.cpp\<close>, \<open>TCPSocket::resume\<close>); either may get a piece.
\<close>

lemma arrived_all:
  assumes "i < length (sv_sessions v)" "sv_sessions v ! i = (s, se)" "hs_attached se" "wire_open io (sv_sockets v s)"
  shows "http_reaches P io p0 v (put_session i (session_received P reqObj pieces se) v)"
  using assms
proof (induction pieces arbitrary: v se)
  case Nil
  then have "put_session i (session_received P reqObj [] se) v = v"
    by (simp add: put_session_def session_received_def) (metis list_update_id server.surjective server.update_convs(4))
  then show ?case by simp
next
  case (Cons b pieces)
  let ?se = "session_data P None reqObj None b se" and ?v = "put_session i (session_data P None reqObj None b se) v"
  have "http_step P io p0 v ?v" using Cons.prems by (rule http_step.arrived)
  moreover have "http_reaches P io p0 ?v (put_session i (session_received P reqObj pieces ?se) ?v)"
    using Cons.prems by (intro Cons.IH) (simp_all add: put_session_def session_data_def)
  moreover have "put_session i (session_received P reqObj pieces ?se) ?v = put_session i (session_received P reqObj (b # pieces) se) v"
    using Cons.prems(1,2) by (simp add: put_session_def session_received_def)
  ultimately show ?case by (metis converse_rtranclp_into_rtranclp)
qed



end
