(* ===== verification/HttpTcp.thy ===== *)
theory HttpTcp
  imports HttpStart SocketProps
begin

text \<open>
  A request on top of the socket of its connection (\<open>src/classes/net/http/request.cpp\<close>, \<open>include/classes/net/http/request.h\<close>):
  \<open>attach\<close> listens to the connection and resumes it, so the receive loop of \<open>TCPSocket\<close> feeds the parser; the rest of the
  device is the connection's.
\<close>

section \<open>attach\<close>

text \<open>
  The connection as a socket, and the request that listens to it: \<open>wi_listens\<close> says whether the listener for \<open>data\<close> is
  there, \<open>wi_once\<close> whether that for \<open>error\<close>, which goes with its first call, still is.
\<close>

record ('p, 'c, 'k) wired =
  wi_socket :: "'k socket"
  wi_request :: "('p, 'c) request"
  wi_listens :: bool
  wi_once :: bool

text \<open>\<open>HTCommon::Connection::start\<close>: it keeps the object and is a resolved promise.\<close>

definition Connection_base_start :: "jsval \<Rightarrow> jsval \<times> settle" where
  "Connection_base_start this = (this, Promise_resolve this)"

lemma connection_start_base: "hs_base_this (connection_start p reqObj resObj this cont c) = fst (Connection_base_start this)"
  by (simp add: connection_start_def Connection_base_start_def)

text \<open>What a request passes on to its connection and to its parser.\<close>

definition request_deviceReady :: "'k asio \<Rightarrow> ('p, 'c, 'k) wired \<Rightarrow> bool" where
  "request_deviceReady io w = deviceReady (tcp_ops io) (wi_socket w)"

definition request_deviceOpen :: "'k asio \<Rightarrow> ('p, 'c, 'k) wired \<Rightarrow> bool" where
  "request_deviceOpen io w = deviceOpen (tcp_ops io) (wi_socket w)"

definition request_eof :: "'k asio \<Rightarrow> ('p, 'c, 'k) wired \<Rightarrow> bool" where
  "request_eof io w = tcp_eof io (wi_socket w)"

definition request_pause :: "jsval \<Rightarrow> ('p, 'c, 'k) wired \<Rightarrow> ('p, 'c, 'k) wired" where
  "request_pause this w = w\<lparr>wi_socket := socket_pause this (wi_socket w)\<rparr>"

definition request_reset :: "jsval \<Rightarrow> ('p, 'c, 'k) wired \<Rightarrow> ('p, 'c, 'k) wired res" where
  "request_reset this w = rbind (socket_reset this (wi_socket w)) (\<lambda>s. Inr (w\<lparr>wi_socket := s\<rparr>))"

definition request_resume :: "'k asio \<Rightarrow> jsval \<Rightarrow> ('p, 'c, 'k) wired \<Rightarrow> (next_run option \<times> ('p, 'c, 'k) wired) res" where
  "request_resume io this w = rbind (tcp_resume io this (wi_socket w)) (\<lambda>(r, s). Inr (r, w\<lparr>wi_socket := s\<rparr>))"

definition request_state :: "('p, 'c, 'k) wired \<Rightarrow> State res" where
  "request_state w = load_state (wi_socket w)"

definition request_version :: "'p parser \<Rightarrow> ('p, 'c, 'k) wired \<Rightarrow> nat" where
  "request_version P w = ps_version P (rq_parser (wi_request w))"

definition request_keep_alive :: "'p parser \<Rightarrow> ('p, 'c, 'k) wired \<Rightarrow> bool" where
  "request_keep_alive P w = ps_keep_alive P (rq_parser (wi_request w))"

definition request_method :: "'p parser \<Rightarrow> ('p, 'c, 'k) wired \<Rightarrow> string" where
  "request_method P w = ps_method P (rq_parser (wi_request w))"

text \<open>The executor of the promise of \<open>attach\<close>: the two listeners, then \<open>resume\<close>.\<close>

definition request_attach :: "'k asio \<Rightarrow> jsval \<Rightarrow> ('p, 'c, 'k) wired \<Rightarrow> (next_run option \<times> ('p, 'c, 'k) wired) res" where
  "request_attach io reqObj w = request_resume io reqObj (w\<lparr>wi_listens := True, wi_once := True\<rparr>)"

text \<open>When the promise of \<open>resume\<close> rejects, the request emits \<open>error\<close>.\<close>

definition resume_rejected :: "jsval \<Rightarrow> ('p, 'c) request \<Rightarrow> ('p, 'c) request" where
  "resume_rejected e rq = rq\<lparr>rq_events := rq_events rq @ [ReqError e]\<rparr>"

text \<open>
  What an event of the socket does to the request: the scheduled emissions of the connection reach its listeners, and the
  rejection of the promise of \<open>resume\<close> the reaction above. \<open>opt\<close> is the error of the keep-alive option, \<open>thrown\<close> what the
  listeners of the request throw for a piece.
\<close>

fun deliver :: "'p parser \<Rightarrow> asio_error option \<Rightarrow> (byte list \<Rightarrow> jsval option) \<Rightarrow> jsval \<Rightarrow> sock_event \<Rightarrow> ('p, 'c, 'k) wired \<Rightarrow>
    ('p, 'c, 'k) wired" where
  "deliver P opt thrown reqObj (EmitScheduled e as) w =
     (case as of
        [Buffer b] \<Rightarrow>
          if e = ''data'' \<and> wi_listens w then w\<lparr>wi_request := request_data P opt reqObj (thrown b) b (wi_request w)\<rparr> else w
      | [x] \<Rightarrow>
          if e = ''error'' \<and> wi_once w then w\<lparr>wi_request := request_error x (wi_request w), wi_once := False\<rparr> else w
      | _ \<Rightarrow> w)"
| "deliver P opt thrown reqObj (SockRejected x) w = w\<lparr>wi_request := resume_rejected x (wi_request w)\<rparr>"
| "deliver P opt thrown reqObj ev w = w"

definition deliver_all :: "'p parser \<Rightarrow> jsval \<Rightarrow> sock_event list \<Rightarrow> ('p, 'c, 'k) wired \<Rightarrow> ('p, 'c, 'k) wired" where
  "deliver_all P reqObj evs w = fold (deliver P None (\<lambda>b. None) reqObj) evs w"

lemma deliver_all_append: "deliver_all P reqObj (xs @ ys) w = deliver_all P reqObj ys (deliver_all P reqObj xs w)"
  by (simp add: deliver_all_def)

lemma deliver_data:
  "wi_listens w \<Longrightarrow> deliver_all P reqObj (map (\<lambda>c. EmitScheduled ''data'' [Buffer c]) cs) w =
    w\<lparr>wi_request := received P reqObj cs (wi_request w)\<rparr>"
  by (induction cs arbitrary: w) (simp_all add: deliver_all_def received_def)

text \<open>
  The two reactions to an error come from a scheduled task and from a job of the engine; their order does not matter to
  the request.
\<close>

lemma deliver_error_order:
  "wi_once w \<Longrightarrow> wi_request (deliver_all P reqObj [EmitScheduled ''error'' [error_object e], SockRejected (error_object e)] w) =
    wi_request (deliver_all P reqObj [SockRejected (error_object e), EmitScheduled ''error'' [error_object e]] w)"
  by (simp add: deliver_all_def error_object_def request_error_def resume_rejected_def)

section \<open>The receive loop of an open socket\<close>

definition loop_end :: "jsval \<Rightarrow> asio_error \<Rightarrow> sock_event list" where
  "loop_end this e = (if e = OperationCanceled then [SockResolved this]
     else [EmitScheduled ''error'' [error_object e], SockRejected (error_object e)])"

lemma tcp_session_events:
  "tcp_up io s \<Longrightarrow> [] \<notin> set cs \<Longrightarrow>
    \<exists>s'. tcp_session io this cs e b s = Inr (Stop, s') \<and>
      so_events s' = so_events s @ map (\<lambda>c. EmitScheduled ''data'' [Buffer c]) cs @ loop_end this e"
proof (induction cs arbitrary: b s)
  case Nil
  then show ?case by (simp add: tcp_recv_def so_emit_def loop_end_def tcp_up_def Let_def)
next
  case (Cons c cs)
  obtain n where r: "tcp_recv io this None (Some (b, c)) None s =
    Inr (Receive (so_next_block s) n,
         s\<lparr>so_events := so_events s @ [EmitScheduled ''data'' [Buffer c]],
           so_owners := (so_owners s)(b := so_owners s b + 1), so_next_block := Suc (so_next_block s)\<rparr>)"
    (is "_ = Inr (_, ?s1)")
    using tcp_recv_data [OF Cons.prems(1)] Cons.prems(2) by (metis list.set_intros(1))
  have "tcp_up io ?s1" "[] \<notin> set cs" using Cons.prems by (auto simp: tcp_up_def)
  from Cons.IH [OF this] show ?case using r by auto
qed

lemma request_attach_new:
  assumes "sock_is_open io k" "wi_socket w = new_TCPSocket k"
  shows "\<exists>n s. request_attach io reqObj w = Inr (Some (Receive 0 n), w\<lparr>wi_listens := True, wi_once := True, wi_socket := s\<rparr>) \<and>
    tcp_up io s \<and> so_events s = []"
  using assms
  by (auto simp: request_attach_def request_resume_def tcp_resume_def tcp_recv_def load_state_def start_receive_def
      new_TCPSocket_def tcp_up_def Let_def)

text \<open>
  C21. A request over its socket. Attached to an open connection, a request gets what the client sends, piece by piece, as
  the parser and its listeners see it, whatever the pieces; then the loop ends with an error. A cancelled operation leaves
  the request as it is: when its header is not complete, its promise never settles, and the server never hears of it. Any
  other error (the client's end of the stream, too) rejects the promise unless it has settled, and reaches the listeners of
  the request twice: as an event of the connection and through the promise of \<open>resume\<close>.
\<close>

theorem request_over_socket:
  assumes "sock_is_open io k" "[] \<notin> set cs" "wi_socket w = new_TCPSocket k"
  shows "\<exists>n w1 s'. request_attach io reqObj w = Inr (Some (Receive 0 n), w1) \<and>
    tcp_session io reqObj cs e 0 (wi_socket w1) = Inr (Stop, s') \<and>
    (let got = received P reqObj cs (wi_request w); rq = wi_request (deliver_all P reqObj (so_events s') w1) in
     (e = OperationCanceled \<longrightarrow> rq = got \<and> (rq_settles got = [] \<longrightarrow> attach_outcome rq = None)) \<and>
     (e \<noteq> OperationCanceled \<longrightarrow>
        rq_events rq = rq_events got @ [ReqError (error_object e), ReqError (error_object e)] \<and>
        attach_outcome rq = Some (case rq_settles got of [] \<Rightarrow> Rejected (error_object e) | st # sts \<Rightarrow> st)))"
proof -
  obtain n s where a: "request_attach io reqObj w = Inr (Some (Receive 0 n), w\<lparr>wi_listens := True, wi_once := True, wi_socket := s\<rparr>)"
    (is "_ = Inr (_, ?w1)") "tcp_up io s" "so_events s = []"
    using request_attach_new [OF assms(1,3)] by blast
  obtain s' where s': "tcp_session io reqObj cs e 0 s = Inr (Stop, s')"
    "so_events s' = map (\<lambda>c. EmitScheduled ''data'' [Buffer c]) cs @ loop_end reqObj e"
    using tcp_session_events [OF a(2) assms(2)] a(3) by fastforce
  let ?got = "received P reqObj cs (wi_request w)"
  have "deliver_all P reqObj (so_events s') ?w1 = deliver_all P reqObj (loop_end reqObj e) (?w1\<lparr>wi_request := ?got\<rparr>)"
    using s'(2) deliver_data [of ?w1 P reqObj cs] by (simp add: deliver_all_append)
  then show ?thesis using a(1) s'(1)
    by (auto simp: loop_end_def deliver_all_def error_object_def request_error_def resume_rejected_def attach_outcome_def
        Let_def split: list.split)
qed

text \<open>The client closes in the middle of the header.\<close>

theorem request_over_socket_witness:
  "\<exists>(w1 :: (byte list, unit, memory_net) wired) s'. tcp_session (memory_io 9) (Object 2) [[1, 2], [3]] (OtherError ''End of file'') 0 (wi_socket w1) = Inr (Stop, s') \<and>
    rq_events (wi_request (deliver_all (toy_parser\<lparr>ps_header_done := (\<lambda>p. False)\<rparr>) (Object 2) (so_events s') w1)) =
      [ReqData [1, 2], ReqData [3], ReqError (ErrorObj ''End of file''), ReqError (ErrorObj ''End of file'')] \<and>
    attach_outcome (wi_request (deliver_all (toy_parser\<lparr>ps_header_done := (\<lambda>p. False)\<rparr>) (Object 2) (so_events s') w1)) =
      Some (Rejected (ErrorObj ''End of file''))"
proof -
  let ?P = "toy_parser\<lparr>ps_header_done := (\<lambda>p. False)\<rparr>"
  let ?w = "\<lparr>wi_socket = new_TCPSocket memory_socket, wi_request = new_Request [] (new_Response (new_Connection ()) False),
    wi_listens = False, wi_once = False\<rparr>"
  have "received ?P (Object 2) [[1, 2], [3]] (wi_request ?w) = (wi_request ?w)\<lparr>rq_parser := [1, 2, 3], rq_events := [ReqData [1, 2], ReqData [3]]\<rparr>"
    by (simp add: received_def request_data_def toy_parser_def new_Request_def Let_def)
  moreover have "sock_is_open (memory_io 9) memory_socket" by (simp add: memory_io_def memory_socket_def)
  ultimately show ?thesis
    using request_over_socket [of "memory_io 9" memory_socket "[[1, 2], [3]]" ?w "Object 2" "OtherError ''End of file''" ?P]
    by (simp add: new_Request_def error_object_def Let_def del: tcp_session.simps) blast
qed

end
