(* ===== verification/HttpWire.thy ===== *)
theory HttpWire
  imports HttpProps SocketProps
begin

text \<open>
  A response on top of the socket of its connection (\<open>HTTP::Response::Writer\<close> in \<open>include/classes/net/http/response.h\<close>). The
  header and a whole message go from the serializer of boost::beast through \<open>Writer\<close> to \<open>deviceWrite\<close> of the connection;
  the chunks go to the socket by \<open>boost::asio::write\<close>.
\<close>

section \<open>Writer\<close>

text \<open>
  The loop of \<open>write_some\<close> over the buffers of a sequence: what was thrown, how much was counted, and the socket. What
  \<open>deviceWrite\<close> returns is not looked at. A failed write leaves the socket as it was before.
\<close>

fun Writer_loop :: "'k asio \<Rightarrow> byte list list \<Rightarrow> nat \<Rightarrow> 'k socket \<Rightarrow> exn option \<times> nat \<times> 'k socket" where
  "Writer_loop io [] written s = (None, written, s)"
| "Writer_loop io (b # bs) written s =
     (if b = [] then Writer_loop io bs written s
      else case tcp_deviceWrite io (Some b) s of
             Inl e \<Rightarrow> (Some e, written, s)
           | Inr (n, s1) \<Rightarrow> Writer_loop io bs (written + length b) s1)"

definition Writer_write :: "'k asio \<Rightarrow> byte list list \<Rightarrow> 'k socket \<Rightarrow> exn option \<times> nat \<times> 'k socket" where
  "Writer_write io bufs s =
     (case Writer_loop io bufs 0 s of
        (Some e, written, s1) \<Rightarrow> (Some e, written, s1)
      | (None, written, s1) \<Rightarrow>
          if written = 0 then
            (case tcp_deviceWrite io None s1 of Inl e \<Rightarrow> (Some e, 0, s1) | Inr (n, s2) \<Rightarrow> (None, 0, s2))
          else (None, written, s1))"

text \<open>
  The variant with an error code \<open>ec\<close>: an exception becomes the last error of the connection or, when there is none,
  \<open>errno\<close>.
\<close>

definition write_some ::
  "'k asio \<Rightarrow> asio_error \<Rightarrow> byte list list \<Rightarrow> asio_error option \<Rightarrow> 'k socket \<Rightarrow> nat \<times> asio_error option \<times> 'k socket" where
  "write_some io errno bufs ec s =
     (case Writer_write io bufs s of
        (None, n, s1) \<Rightarrow> (n, ec, s1)
      | (Some e, n, s1) \<Rightarrow> (0, (case so_error s1 of Some x \<Rightarrow> Some x | None \<Rightarrow> Some errno), s1))"

section \<open>The connection as the response sees it\<close>

text \<open>
  \<open>ser\<close> is the serializer: the buffer sequences it hands to the writer, one after the other, for an item; it stops at an
  error. \<open>write_all\<close> is \<open>boost::asio::write\<close>.
\<close>

fun serialize :: "'k asio \<Rightarrow> asio_error \<Rightarrow> byte list list list \<Rightarrow> 'k socket \<Rightarrow> asio_error option \<times> 'k socket" where
  "serialize io errno [] s = (None, s)"
| "serialize io errno (bufs # rest) s =
     (case write_some io errno bufs None s of
        (n, Some e, s1) \<Rightarrow> (Some e, s1)
      | (n, None, s1) \<Rightarrow> serialize io errno rest s1)"

definition tcp_wire ::
  "(wire \<Rightarrow> byte list list list) \<Rightarrow> (byte list \<Rightarrow> 'k \<Rightarrow> asio_error option \<times> 'k) \<Rightarrow> asio_error \<Rightarrow> 'k asio \<Rightarrow> 'k socket wire_io" where
  "tcp_wire ser write_all errno io =
     \<lparr>wire_write = (\<lambda>w s.
        if wire_status w \<noteq> None then serialize io errno (ser w) s
        else (case write_all (concat (concat (ser w))) (so_socket s) of (e, k) \<Rightarrow> (e, s\<lparr>so_socket := k\<rparr>))),
      wire_open = (\<lambda>s. sock_is_open io (so_socket s)), wire_close = tcp_close io\<rparr>"

definition bytes_of :: "(wire \<Rightarrow> byte list list list) \<Rightarrow> wire \<Rightarrow> byte list" where
  "bytes_of ser w = concat (concat (ser w))"

section \<open>When sends are whole\<close>

definition whole_sends :: "'k asio \<Rightarrow> ('k \<Rightarrow> bool) \<Rightarrow> ('k \<Rightarrow> byte list) \<Rightarrow> bool" where
  "whole_sends io up sent \<longleftrightarrow>
     (\<forall>k. up k \<longrightarrow> sock_is_open io k) \<and>
     (\<forall>k bs. up k \<longrightarrow> bs \<noteq> [] \<longrightarrow> (\<exists>k'. sock_send io bs k = (Inr (length bs), k') \<and> up k' \<and> sent k' = sent k @ bs)) \<and>
     (\<forall>k. sent (snd (sock_close io k)) = sent k)"

definition writes_all :: "(byte list \<Rightarrow> 'k \<Rightarrow> asio_error option \<times> 'k) \<Rightarrow> ('k \<Rightarrow> bool) \<Rightarrow> ('k \<Rightarrow> byte list) \<Rightarrow> bool" where
  "writes_all write_all up sent \<longleftrightarrow>
     (\<forall>k bs. up k \<longrightarrow> (\<exists>k'. write_all bs k = (None, k') \<and> up k' \<and> sent k' = sent k @ bs))"

definition serializes :: "(wire \<Rightarrow> byte list list list) \<Rightarrow> bool" where
  "serializes ser \<longleftrightarrow> (\<forall>w. wire_status w \<noteq> None \<longrightarrow> (\<forall>bufs \<in> set (ser w). concat bufs \<noteq> [] \<and> (\<forall>b \<in> set bufs. length b \<le> TCP_max)))"

lemma tcp_deviceWrite_once:
  assumes "sock_send io b (so_socket s) = (Inr n, k)" "b \<noteq> []" "length b \<le> TCP_max"
  shows "tcp_deviceWrite io (Some b) s = Inr (of_nat n, s\<lparr>so_socket := k\<rparr>)"
proof -
  have "tcp_send_loop io b 0 (length b) 0 (so_socket s) = Inr (n, k)"
    using assms by (simp add: tcp_send_loop.simps [of io b 0] tcp_send_loop.simps [of io b "TCP_max"] chunk_at_def min_absorb2)
  then show ?thesis by (simp add: tcp_deviceWrite_def Let_def)
qed

lemma Writer_loop_whole:
  assumes "whole_sends io up sent"
  shows "up (so_socket s) \<Longrightarrow> (\<forall>b \<in> set bufs. length b \<le> TCP_max) \<Longrightarrow>
    \<exists>k. Writer_loop io bufs w s = (None, w + length (concat bufs), s\<lparr>so_socket := k\<rparr>) \<and> up k \<and>
      sent k = sent (so_socket s) @ concat bufs"
proof (induction bufs arbitrary: w s)
  case Nil
  then show ?case by (intro exI [of _ "so_socket s"]) simp
next
  case (Cons b bs)
  show ?case
  proof (cases "b = []")
    case True
    with Cons show ?thesis by simp
  next
    case False
    with assms Cons.prems(1) obtain k where k: "sock_send io b (so_socket s) = (Inr (length b), k)" "up k"
      "sent k = sent (so_socket s) @ b" unfolding whole_sends_def by blast
    have d: "tcp_deviceWrite io (Some b) s = Inr (of_nat (length b), s\<lparr>so_socket := k\<rparr>)"
      using k(1) False Cons.prems(2) by (intro tcp_deviceWrite_once) simp_all
    have "up (so_socket (s\<lparr>so_socket := k\<rparr>))" using k(2) by simp
    from Cons.IH [OF this, of "w + length b"] Cons.prems(2) k(3) d False show ?thesis by (auto simp: add.assoc)
  qed
qed

lemma serialize_whole:
  assumes "whole_sends io up sent"
  shows "up (so_socket s) \<Longrightarrow> (\<forall>bufs \<in> set seqs. concat bufs \<noteq> [] \<and> (\<forall>b \<in> set bufs. length b \<le> TCP_max)) \<Longrightarrow>
    \<exists>k. serialize io errno seqs s = (None, s\<lparr>so_socket := k\<rparr>) \<and> up k \<and> sent k = sent (so_socket s) @ concat (concat seqs)"
proof (induction seqs arbitrary: s)
  case Nil
  then show ?case by (intro exI [of _ "so_socket s"]) simp
next
  case (Cons bufs seqs)
  have le: "\<forall>b \<in> set bufs. length b \<le> TCP_max" and ne: "(length (concat bufs) = 0) = False"
    using Cons.prems(2) by simp_all
  from Writer_loop_whole [OF assms Cons.prems(1) le, of 0] obtain k where
    loop: "Writer_loop io bufs 0 s = (None, length (concat bufs), s\<lparr>so_socket := k\<rparr>)" and k: "up k" "sent k = sent (so_socket s) @ concat bufs"
    unfolding add_0 by blast
  have w: "write_some io errno bufs None s = (length (concat bufs), None, s\<lparr>so_socket := k\<rparr>)"
    by (simp only: write_some_def Writer_write_def loop prod.case option.case ne if_False)
  have "up (so_socket (s\<lparr>so_socket := k\<rparr>))" using k(1) by simp
  from Cons.IH [OF this] Cons.prems(2) k w show ?case by auto
qed

text \<open>
  The same connection with a log of the items that were written; a log that does not agree with the bytes on the socket
  counts as empty.
\<close>

definition logged :: "'k wire_io \<Rightarrow> ('k \<times> wire list) wire_io" where
  "logged io =
     \<lparr>wire_write = (\<lambda>w (k, ws). case wire_write io w k of (e, k') \<Rightarrow> (e, (k', ws @ [w]))),
      wire_open = (\<lambda>(k, ws). wire_open io k), wire_close = (\<lambda>(k, ws). (wire_close io k, ws))\<rparr>"

definition bytes_agree :: "('k \<Rightarrow> byte list) \<Rightarrow> (wire \<Rightarrow> byte list list list) \<Rightarrow> 'k socket \<times> wire list \<Rightarrow> bool" where
  "bytes_agree sent ser = (\<lambda>(s, ws). sent (so_socket s) = concat (map (bytes_of ser) ws))"

definition checked_log :: "('k \<Rightarrow> byte list) \<Rightarrow> (wire \<Rightarrow> byte list list list) \<Rightarrow> 'k socket \<times> wire list \<Rightarrow> wire list" where
  "checked_log sent ser st = (if bytes_agree sent ser st then snd st else [])"

lemma tcp_wire_write:
  assumes "whole_sends io up sent" "writes_all write_all up sent" "serializes ser" "up (so_socket s)"
  shows "\<exists>k. wire_write (tcp_wire ser write_all errno io) w s = (None, s\<lparr>so_socket := k\<rparr>) \<and> up k \<and>
    sent k = sent (so_socket s) @ bytes_of ser w"
proof (cases "wire_status w = None")
  case True
  from assms(2,4) obtain k where "write_all (bytes_of ser w) (so_socket s) = (None, k)" "up k" "sent k = sent (so_socket s) @ bytes_of ser w"
    unfolding writes_all_def by blast
  with True show ?thesis by (intro exI [of _ k]) (simp add: tcp_wire_def bytes_of_def)
next
  case False
  with serialize_whole [OF assms(1,4), of "ser w" errno] assms(3) show ?thesis
    by (simp add: tcp_wire_def bytes_of_def serializes_def)
qed

lemma tcp_wire_laws:
  assumes "whole_sends io up sent" "writes_all write_all up sent" "serializes ser"
  shows "wire_laws (logged (tcp_wire ser write_all errno io)) (\<lambda>(s, ws). up (so_socket s) \<and> bytes_agree sent ser (s, ws)) (checked_log sent ser)"
  unfolding wire_laws_def
proof (intro conjI allI impI)
  show "wire_open (logged (tcp_wire ser write_all errno io)) st"
    if "case st of (s, ws) \<Rightarrow> up (so_socket s) \<and> bytes_agree sent ser (s, ws)" for st
    using that assms(1) by (cases st) (auto simp: logged_def tcp_wire_def whole_sends_def)
  have "sent (so_socket (tcp_close io s)) = sent (so_socket s)" for s
    using assms(1) by (auto simp: tcp_close_def whole_sends_def split: prod.split) (metis snd_conv)
  then show "checked_log sent ser (wire_close (logged (tcp_wire ser write_all errno io)) st) = checked_log sent ser st" for st
    by (cases st) (simp add: logged_def tcp_wire_def checked_log_def bytes_agree_def)
  show "\<exists>st'. wire_write (logged (tcp_wire ser write_all errno io)) w st = (None, st') \<and>
      (case st' of (s, ws) \<Rightarrow> up (so_socket s) \<and> bytes_agree sent ser (s, ws)) \<and>
      checked_log sent ser st' = checked_log sent ser st @ [w]"
    if h: "case st of (s, ws) \<Rightarrow> up (so_socket s) \<and> bytes_agree sent ser (s, ws)" for st w
  proof -
    obtain s ws where st: "st = (s, ws)" "up (so_socket s)" "bytes_agree sent ser (s, ws)" using h by (cases st) auto
    from tcp_wire_write [OF assms st(2), of errno w] obtain k where
      "wire_write (tcp_wire ser write_all errno io) w s = (None, s\<lparr>so_socket := k\<rparr>)" "up k"
      "sent k = sent (so_socket s) @ bytes_of ser w" by blast
    with st show ?thesis
      by (intro exI [of _ "(s\<lparr>so_socket := k\<rparr>, ws @ [w])"]) (simp add: logged_def checked_log_def bytes_agree_def)
  qed
qed

text \<open>
  C39. A response over the socket of its connection. When every send takes what it is given, the bytes on the socket after
  \<open>write\<close> and a flush are those of the header, of chunks that make up the body in order, and of the last chunk, nothing
  more and nothing in between, the connection is told once, and \<open>write\<close> resolves with the length of the body.
\<close>

theorem response_bytes_on_socket:
  assumes "whole_sends io up sent" "writes_all write_all up sent" "serializes ser" "up (so_socket s)" "sent (so_socket s) = []"
    and "W = logged (tcp_wire ser write_all errno io)"
  shows "\<exists>r1 r2 cs. write_loop (response_ops W) data 0 (new_Response (new_Connection (s, [])) c) =
      Some (Inr (Resolved (Number (Fin (of_nat (length data)))), r1)) \<and>
    response_deviceWrite W None r1 = Inr (0, r2) \<and> concat cs = data \<and>
    sent (so_socket (fst (cn_socket (rs_connection r2)))) =
      bytes_of ser (WireHeader 200 [] True) @ concat (map (\<lambda>c. bytes_of ser (WireChunk c)) cs) @ bytes_of ser WireLastChunk"
proof -
  let ?up = "\<lambda>(s, ws). up (so_socket s) \<and> bytes_agree sent ser (s, ws)" and ?log = "checked_log sent ser"
  have net: "wire_net W ?up ?log" unfolding assms(6) by (rule wire_net.intro [OF tcp_wire_laws [OF assms(1-3)]])
  have new: "response_up ?up ?log 200 [] (new_Response (new_Connection (s, [])) c)"
    using assms(4,5) by (intro new_Response_up) (simp_all add: checked_log_def bytes_agree_def)
  have "response_log ?log (new_Response (new_Connection (s, [])) c) = []"
    by (simp add: response_log_def new_Response_def new_Connection_def checked_log_def)
  from wire_net.write_then_flush [OF net new this, of data] obtain r1 r2 cs where
    r: "write_loop (response_ops W) data 0 (new_Response (new_Connection (s, [])) c) =
        Some (Inr (Resolved (Number (Fin (of_nat (length data)))), r1))"
      "response_deviceWrite W None r1 = Inr (0, r2)" "concat cs = data"
    and l: "response_log ?log r2 = WireHeader 200 [] True # map WireChunk cs @ [WireLastChunk]"
    by blast
  obtain s2 ws where s2: "cn_socket (rs_connection r2) = (s2, ws)" by fastforce
  with l have "ws = WireHeader 200 [] True # map WireChunk cs @ [WireLastChunk]" "bytes_agree sent ser (s2, ws)"
    by (auto simp: response_log_def checked_log_def split: if_splits)
  then have "sent (so_socket s2) = bytes_of ser (WireHeader 200 [] True) @ concat (map (\<lambda>c. bytes_of ser (WireChunk c)) cs) @
      bytes_of ser WireLastChunk"
    by (simp add: bytes_agree_def comp_def)
  with r s2 show ?thesis by auto
qed

text \<open>A network in memory that takes every send whole; header, chunk and end are marked by a byte each.\<close>

fun toy_serializer :: "wire \<Rightarrow> byte list list list" where
  "toy_serializer (WireHeader st fs ch) = [[[1]]]"
| "toy_serializer (WireChunk b) = [[2 # b]]"
| "toy_serializer WireLastChunk = [[[3]]]"
| "toy_serializer (WireMessage st fs ch b) = [[[4], take 4 b]]"

definition whole_io :: "memory_net asio" where
  "whole_io = (memory_io 0)\<lparr>sock_send := (\<lambda>bs k. (Inr (length bs), k\<lparr>net_sent := net_sent k @ bs\<rparr>))\<rparr>"

definition whole_write :: "byte list \<Rightarrow> memory_net \<Rightarrow> asio_error option \<times> memory_net" where
  "whole_write bs k = (None, k\<lparr>net_sent := net_sent k @ bs\<rparr>)"

lemma whole_io_laws:
  "whole_sends whole_io net_open net_sent" "writes_all whole_write net_open net_sent"
  by (simp_all add: whole_sends_def writes_all_def whole_io_def memory_io_def whole_write_def)

lemma toy_serializes: "serializes toy_serializer"
proof -
  have "concat bufs \<noteq> [] \<and> (\<forall>b \<in> set bufs. length b \<le> TCP_max)" if "wire_status w \<noteq> None" "bufs \<in> set (toy_serializer w)" for w bufs
    using that by (cases w) (auto simp: TCP_max_def)
  then show ?thesis by (simp add: serializes_def)
qed

interpretation socket_wire: wire_net "logged (tcp_wire toy_serializer whole_write OperationCanceled whole_io)"
  "\<lambda>(s, ws). net_open (so_socket s) \<and> bytes_agree net_sent toy_serializer (s, ws)" "checked_log net_sent toy_serializer"
  by unfold_locales (rule tcp_wire_laws [OF whole_io_laws toy_serializes])

theorem response_bytes_on_socket_witness:
  "\<exists>(r2 :: (memory_net socket \<times> wire list) response) cs. concat cs = [7, 8, 9] \<and>
    net_sent (so_socket (fst (cn_socket (rs_connection r2)))) = [1] @ concat (map (\<lambda>c. 2 # c) cs) @ [3]"
proof -
  have "net_open (so_socket (new_TCPSocket memory_socket))" "net_sent (so_socket (new_TCPSocket memory_socket)) = []"
    by (simp_all add: new_TCPSocket_def memory_socket_def)
  from response_bytes_on_socket [OF whole_io_laws toy_serializes this refl, of OperationCanceled "[7, 8, 9]" False]
  show ?thesis by (auto simp: bytes_of_def)
qed

section \<open>When a send takes less\<close>



end
