(* ===== verification/TaskClasses.thy ===== *)
theory TaskClasses
  imports TaskGroup
begin

text \<open>
  The interface \<open>NX::AbstractTask\<close> and its two classes (\<open>include/task.h\<close>, \<open>src/task.cpp\<close>). The scheduler calls the virtual
  functions; the definitions \<open>task_*\<close> it uses say for both classes at once what they do. Here are the functions of
  \<open>CoroutineTask\<close> one by one, with the coroutine they resume, and what both classes promise the scheduler.
\<close>

section \<open>CoroutineTask\<close>

definition CoroutineTask_new :: "bool \<Rightarrow> act list \<Rightarrow> sched \<Rightarrow> nat \<times> sched" where
  "CoroutineTask_new hld b s =
     (let t = nextTask s;
          k = \<lparr>myKind = CoroutineK, myHolds = hld, myHandler = b, myCancellationHandlers = [],
               myCompletionHandlers = [], myCoroutine = False, myStatus = INACTIVE\<rparr>
      in (t, snd (Holder hld (s\<lparr>heap := (heap s)(t \<mapsto> k), nextTask := Suc t\<rparr>))))"

definition CoroutineTask_abort :: "nat \<Rightarrow> sched \<Rightarrow> sched res" where
  "CoroutineTask_abort t = with_task t (\<lambda>k s. Inr (run_handlers (myCancellationHandlers k) (store t ABORTED s)))"

definition CoroutineTask_exit :: "nat \<Rightarrow> sched \<Rightarrow> sched res" where
  "CoroutineTask_exit t = with_task t (\<lambda>k s. Inr (run_handlers (myCompletionHandlers k) s))"

definition CoroutineTask_addCancellationHandler :: "nat \<Rightarrow> handler \<Rightarrow> sched \<Rightarrow> sched res" where
  "CoroutineTask_addCancellationHandler t h = with_task t (\<lambda>k s.
     Inr (s\<lparr>heap := (heap s)(t \<mapsto> k\<lparr>myCancellationHandlers := myCancellationHandlers k @ [h]\<rparr>)\<rparr>))"

definition CoroutineTask_addCompletionHandler :: "nat \<Rightarrow> handler \<Rightarrow> sched \<Rightarrow> sched res" where
  "CoroutineTask_addCompletionHandler t h = with_task t (\<lambda>k s.
     Inr (s\<lparr>heap := (heap s)(t \<mapsto> k\<lparr>myCompletionHandlers := myCompletionHandlers k @ [h]\<rparr>)\<rparr>))"

definition CoroutineTask_await :: "nat \<Rightarrow> sched \<Rightarrow> (nat option \<times> sched) res" where
  "CoroutineTask_await t = with_task t (\<lambda>k s.
     if myStatus k = FINISHED \<or> myStatus k = ABORTED then Inr (None, s)
     else let f = nextFlag s; s1 = s\<lparr>nextFlag := Suc f, flags := (flags s)(f := False)\<rparr> in
       rbind (CoroutineTask_addCancellationHandler t (SetFlag f) s1) (\<lambda>s2.
       rbind (CoroutineTask_addCompletionHandler t (SetFlag f) s2) (\<lambda>s3. Inr (Some f, s3))))"

definition CoroutineTask_create :: "nat \<Rightarrow> nat \<Rightarrow> sched \<Rightarrow> sched res" where
  "CoroutineTask_create th t = with_task t (\<lambda>k s.
     if myStatus k = ABORTED then Inr s
     else with_task t (\<lambda>k1 s1. Inr (s1\<lparr>heap := (heap s1)(t \<mapsto> k1\<lparr>myCoroutine := True\<rparr>)\<rparr>))
            (makeCurrent th t (store t CREATED s)))"

text \<open>
  The body that \<open>enter\<close> resumes: at its first turn it starts the closure, later it goes on behind the \<open>yield\<close> that left it.
  Either way the task is made current and active and the rest of the closure runs; \<open>myCoroutine\<close> is a null pointer before
  \<open>create\<close>.
\<close>

definition CoroutineTask_coroutine :: "nat \<Rightarrow> nat \<Rightarrow> sched \<Rightarrow> sched res" where
  "CoroutineTask_coroutine th t = with_task t (\<lambda>k s.
     if myStatus k = ABORTED then Inr s
     else rbind (run_acts th (myHandler k) (store t ACTIVE (makeCurrent th t s))) (\<lambda>(s1, r).
            case r of
              None \<Rightarrow> Inr (store t FINISHED s1)
            | Some as \<Rightarrow> Inr (set_handler t as s1)))"

definition CoroutineTask_enter :: "nat \<Rightarrow> nat \<Rightarrow> sched \<Rightarrow> sched res" where
  "CoroutineTask_enter th t = with_task t (\<lambda>k s.
     if myStatus k = ABORTED then Inr s
     else if \<not> myCoroutine k then Inl (UB ''null coroutine'')
     else CoroutineTask_coroutine th t (makeCurrent th t (store t ACTIVE s)))"

text \<open>\<open>yield\<close> up to the switch, and what it does when the coroutine is resumed.\<close>

definition CoroutineTask_yield :: "nat \<Rightarrow> sched \<Rightarrow> sched res" where
  "CoroutineTask_yield t = with_task t (\<lambda>k s.
     if myStatus k = ABORTED then Inl (Exn ''task aborted, could not yield'') else Inr (store t PENDING s))"

definition CoroutineTask_resumed :: "nat \<Rightarrow> nat \<Rightarrow> sched \<Rightarrow> sched" where
  "CoroutineTask_resumed th t s = store t ACTIVE (makeCurrent th t s)"

section \<open>The scheduler calls these functions\<close>

definition of_kind :: "kind \<Rightarrow> nat \<Rightarrow> sched \<Rightarrow> bool" where
  "of_kind k t s \<longleftrightarrow> (\<exists>x. heap s t = Some x \<and> myKind x = k)"

lemma store_makeCurrent: "store t st (makeCurrent th t s) = makeCurrent th t (store t st s)"
  by (simp add: store_def makeCurrent_def split: option.split)

lemma store_store [simp]: "store t st (store t st' s) = store t st s"
  by (simp add: store_def split: option.split)

lemma makeCurrent_twice [simp]: "makeCurrent th t (makeCurrent th t s) = makeCurrent th t s"
  by (simp add: makeCurrent_def)

lemma CoroutineTask_enter_eq:
  assumes "heap s t = Some k" "myCoroutine k \<or> myStatus k = ABORTED"
  shows "CoroutineTask_enter th t s = task_enter th t s"
proof (cases "myStatus k = ABORTED")
  case True
  with assms(1) show ?thesis by (simp add: CoroutineTask_enter_def task_enter_def with_task_def)
next
  case False
  have "heap (makeCurrent th t (store t ACTIVE s)) t = Some (k\<lparr>myStatus := ACTIVE\<rparr>)"
    using assms(1) by (simp add: makeCurrent_def store_def)
  with assms False show ?thesis
    by (simp add: CoroutineTask_enter_def CoroutineTask_coroutine_def task_enter_def with_task_def store_makeCurrent)
qed

lemma handler_calls:
  "CoroutineTask_addCancellationHandler = addCancellationHandler" "CoroutineTask_addCompletionHandler = addCompletionHandler"
  by (intro ext, simp add: addCancellationHandler_def CoroutineTask_addCancellationHandler_def addCompletionHandler_def
      CoroutineTask_addCompletionHandler_def)+

lemma await_call: "task_await = CoroutineTask_await"
  unfolding task_await_def CoroutineTask_await_def handler_calls ..

lemma virtual_calls:
  "of_kind CoroutineK t s \<Longrightarrow> task_create th t s = CoroutineTask_create th t s"
  "of_kind CoroutineK t s \<Longrightarrow> task_yield t s = CoroutineTask_yield t s"
  "task_abort t s = CoroutineTask_abort t s"
  "task_exit t s = CoroutineTask_exit t s"
  "new_task CoroutineK hld b s = CoroutineTask_new hld b s"
  by (auto simp: of_kind_def task_create_def CoroutineTask_create_def task_yield_def CoroutineTask_yield_def task_abort_def
      CoroutineTask_abort_def task_exit_def CoroutineTask_exit_def with_task_def
      new_task_def CoroutineTask_new_def)

section \<open>What a task class promises\<close>

text \<open>
  The contract of \<open>AbstractTask\<close>: an operation keeps the class of the object; \<open>abort\<close> leaves it aborted, whatever its
  handlers do; an aborted task is not entered.
\<close>

locale abstract_task =
  fixes mine :: "nat \<Rightarrow> sched \<Rightarrow> bool"
    and abort :: "nat \<Rightarrow> sched \<Rightarrow> sched res"
    and enter :: "nat \<Rightarrow> nat \<Rightarrow> sched \<Rightarrow> sched res"
    and exits :: "nat \<Rightarrow> sched \<Rightarrow> sched res"
  assumes abort_aborts: "mine t s \<Longrightarrow> \<exists>s1 k. abort t s = Inr s1 \<and> mine t s1 \<and> heap s1 t = Some k \<and> myStatus k = ABORTED"
    and enter_aborted: "mine t s \<Longrightarrow> heap s t = Some k \<Longrightarrow> myStatus k = ABORTED \<Longrightarrow> enter th t s = Inr s"
    and exit_runs: "mine t s \<Longrightarrow> heap s t = Some k \<Longrightarrow> exits t s = Inr (run_handlers (myCompletionHandlers k) s)"
begin

lemma abort_before_enter:
  assumes "mine t s"
  shows "\<exists>s1. abort t s = Inr s1 \<and> enter th t s1 = Inr s1"
  using abort_aborts [OF assms] enter_aborted by blast

end

lemma task_abort_aborts:
  assumes "of_kind c t s"
  shows "\<exists>s1 k. task_abort t s = Inr s1 \<and> of_kind c t s1 \<and> heap s1 t = Some k \<and> myStatus k = ABORTED"
  using assms by (auto simp: of_kind_def task_abort_def with_task_def store_def run_handlers_heap)

interpretation regular_task: abstract_task "of_kind TaskK" task_abort task_enter task_exit
proof
  show "\<exists>s1 k. task_abort t s = Inr s1 \<and> of_kind TaskK t s1 \<and> heap s1 t = Some k \<and> myStatus k = ABORTED"
    if "of_kind TaskK t s" for t s using that by (rule task_abort_aborts)
qed (simp_all add: task_enter_def task_exit_def with_task_def)

interpretation coroutine_task: abstract_task "of_kind CoroutineK" CoroutineTask_abort CoroutineTask_enter CoroutineTask_exit
proof
  show "\<exists>s1 k. CoroutineTask_abort t s = Inr s1 \<and> of_kind CoroutineK t s1 \<and> heap s1 t = Some k \<and> myStatus k = ABORTED"
    if "of_kind CoroutineK t s" for t s using task_abort_aborts [OF that] by (simp add: virtual_calls(3))
qed (simp_all add: CoroutineTask_enter_def CoroutineTask_exit_def with_task_def)

text \<open>
  A task of either class that is aborted before it is entered never runs its closure. \<open>create\<close> is not part of this:
  \<open>Task::create\<close> does not look at the status, \<open>CoroutineTask::create\<close> does. The scheduler looks at the status before it calls
  \<open>create\<close>, in \<open>dispatcher\<close> as in \<open>drainTasks\<close>, so only an abort by another thread that falls between that look and the call
  can be undone by it.
\<close>

lemma create_revives_task:
  assumes "heap s t = Some k" "myKind k = TaskK" "myStatus k = ABORTED"
  shows "\<exists>s1. task_create th t s = Inr s1 \<and> heap s1 t = Some (k\<lparr>myStatus := CREATED\<rparr>)"
  using assms by (simp add: task_create_def with_task_def store_def)

lemma create_keeps_aborted_coroutine:
  "heap s t = Some k \<Longrightarrow> myStatus k = ABORTED \<Longrightarrow> CoroutineTask_create th t s = Inr s"
  by (simp add: CoroutineTask_create_def with_task_def)

text \<open>A coroutine that is entered before it was created uses a null pointer; the scheduler creates it first.\<close>

lemma process_enters_created:
  assumes "heap s t = Some k" "myKind k = CoroutineK" "myStatus k = INACTIVE"
  shows "\<exists>s1. task_create th t s = Inr s1 \<and> CoroutineTask_enter th t s1 = task_enter th t s1"
proof -
  let ?s1 = "(makeCurrent th t (store t CREATED s))\<lparr>heap := (heap s)(t \<mapsto> k\<lparr>myStatus := CREATED, myCoroutine := True\<rparr>)\<rparr>"
  have "task_create th t s = Inr ?s1"
    using assms by (simp add: task_create_def with_task_def store_def makeCurrent_def)
  moreover have "CoroutineTask_enter th t ?s1 = task_enter th t ?s1"
    by (rule CoroutineTask_enter_eq [of _ _ "k\<lparr>myStatus := CREATED, myCoroutine := True\<rparr>"]) simp_all
  ultimately show ?thesis by blast
qed

end
