(* ===== verification/MainLoop.thy ===== *)
theory MainLoop
  imports SchedulerRefine
begin

text \<open>
  Termination of the main loop: \<open>joinPool\<close> with its dispatcher returns when the closures are \<open>tame\<close> and the
  I/O service has finitely many handlers left to run. The service is the interface \<open>main_loop\<close>: it owns the
  tasks \<open>pending s\<close>, which wait for an event, and every handler it runs makes them fewer.
\<close>

section \<open>States the loop can drain\<close>

text \<open>A thread-initialisation task as \<open>Context\<close> schedules it: it runs to the end and holds nothing.\<close>

definition plain_init :: "sched \<Rightarrow> nat \<Rightarrow> bool" where
  "plain_init s t \<longleftrightarrow> (\<exists>k ns. heap s t = Some k \<and> myKind k = TaskK \<and> \<not> myHolds k \<and> myStatus k \<noteq> ABORTED \<and>
     myHandler k = map Host ns \<and> myCompletionHandlers k = [])"

text \<open>The tasks that are neither queued nor run by every thread.\<close>

definition waiting :: "sched \<Rightarrow> nat set" where
  "waiting s = unqueued s - set (myThreadInitQueue s)"

text \<open>
  The thread-specific pointer of the thread may still show an initialisation task, so \<open>drain_ok\<close> is asked of the
  state with the pointer cleared; the first pop overwrites it.
\<close>

definition drainable :: "nat \<Rightarrow> sched \<Rightarrow> bool" where
  "drainable th s \<longleftrightarrow> (\<exists>js. drain_ok th (release_current th s) js)"

definition loop_ok :: "nat \<Rightarrow> (sched \<Rightarrow> nat set) \<Rightarrow> sched \<Rightarrow> bool" where
  "loop_ok th pending s \<longleftrightarrow> drainable th s \<and> hold_inv 0 s \<and> held s \<subseteq> set (myTaskQueue s) \<union> pending s \<and>
     length (myTaskQueue s) + card (pending s) < 2 ^ 64 \<and> \<not> myServiceStopped s \<and> (\<forall>t \<in> set (myThreadInitQueue s). plain_init s t \<and> t \<notin> set (myTaskQueue s))"

lemma drain_step_release: "drain_step th t q (release_current th s) = drain_step th t q s"
  by (simp add: drain_step_def Let_def makeCurrent_def release_current_def)

lemma release_current_frame [simp]:
  "heap (release_current th s) = heap s" "myTaskQueue (release_current th s) = myTaskQueue s"
  "unqueued (release_current th s) = unqueued s" "myPauseTasks (release_current th s) = myPauseTasks s"
  "trace (release_current th s) = trace s"
  by (simp_all add: release_current_def unqueued_def)

lemma drain_loop_release:
  assumes "myTaskQueue s \<noteq> []"
  shows "drain_loop th n (release_current th s) = drain_loop th n s"
proof -
  from assms obtain t q where q: "myTaskQueue s = t # q" by (cases "myTaskQueue s") simp_all
  then have "myTaskQueue (release_current th s) = t # q" by simp
  from drain_loop.simps [of th n "release_current th s", unfolded this] drain_loop.simps [of th n s, unfolded q]
  show ?thesis by (simp add: drain_step_release)
qed

lemma drainTasks_drainable:
  assumes "drainable th s"
  shows "\<exists>n s'. drainTasks th s = Some (Inr (n, s')) \<and> drainable th s' \<and> myTaskQueue s' = [] \<and>
    myTaskCount s' = 0 \<and> unqueued s' = unqueued s \<and> (\<forall>u \<in> unqueued s. heap s' u = heap s u)"
proof -
  obtain js where js: "drain_ok th (release_current th s) js"
    using assms by (auto simp: drainable_def)
  have run: "\<not> myPauseTasks s" using js by (simp add: drain_ok_def)
  show ?thesis
  proof (cases "myTaskQueue s = []")
    case True
    then have "js = []" using js by (simp add: drain_ok_def)
    with js True run show ?thesis
      by (intro exI [of _ 0] exI [of _ s])
        (auto simp: drainTasks_def drain_loop.simps [of th 0 s] drainable_def drain_ok_def release_current_def)
  next
    case False
    obtain s' where s': "drain_loop th 0 (release_current th s) = Some (Inr (0 + drain_count js, s'))" "drain_ok th s' []"
      "unqueued s' = unqueued s" "\<forall>u \<in> unqueued s. heap s' u = heap s u"
      using drain_loop_ok [OF js, of 0] by auto
    have "release_current th s' = s'" using s'(2) by (simp add: release_current_def drain_ok_def fun_upd_idem)
    then have "drainable th s'" using s'(2) by (auto simp: drainable_def intro: exI [of _ "[]"])
    with s' run drain_loop_release [OF False, of th 0] show ?thesis
      by (auto simp: drainTasks_def drain_ok_def)
  qed
qed

section \<open>Initialisation tasks\<close>

lemma run_acts_hosts: "run_acts th (map Host ns) s = Inr (s\<lparr>trace := trace s @ ns\<rparr>, None)"
  by (induction ns arbitrary: s) simp_all

lemma plain_init_runs:
  assumes "heap s t = Some k" "myKind k = TaskK" "myStatus k \<noteq> ABORTED" "myHandler k = map Host ns"
    "myCompletionHandlers k = []"
  shows "run_init_tasks th [t] s = Inr (s\<lparr>heap := (heap s)(t \<mapsto> k\<lparr>myStatus := FINISHED\<rparr>),
    myCurrentTask := (myCurrentTask s)(th \<mapsto> t), trace := trace s @ ns\<rparr>)"
  using assms
  by (simp add: with_task_def task_create_def task_enter_def store_def makeCurrent_def run_acts_hosts task_exit_def
      run_handlers_def)

text \<open>What running initialisation tasks leaves as it was.\<close>

definition init_frame :: "nat list \<Rightarrow> sched \<Rightarrow> sched \<Rightarrow> bool" where
  "init_frame ts s s' \<longleftrightarrow> dom (heap s') = dom (heap s) \<and> (\<forall>u. u \<notin> set ts \<longrightarrow> heap s' u = heap s u) \<and>
     (\<forall>t. plain_init s t \<longrightarrow> plain_init s' t) \<and> held s' = held s \<and> myTaskQueue s' = myTaskQueue s \<and>
     nextTask s' = nextTask s \<and> myTaskCount s' = myTaskCount s \<and> myPauseTasks s' = myPauseTasks s"

lemma init_frame_trans: "init_frame ts s s1 \<Longrightarrow> init_frame us s1 s2 \<Longrightarrow> init_frame (ts @ us) s s2"
  unfolding init_frame_def by (elim conjE, intro conjI) simp_all

lemma run_init_tasks_Cons: "run_init_tasks th (t # ts) s = rbind (run_init_tasks th [t] s) (run_init_tasks th ts)"
  by (simp add: rbind_def split: sum.split)

lemma run_init_tasks_plain:
  "\<forall>t \<in> set ts. plain_init s t \<Longrightarrow> \<exists>s'. run_init_tasks th ts s = Inr s' \<and> init_frame ts s s'"
proof (induction ts arbitrary: s)
  case Nil
  then show ?case by (simp add: init_frame_def)
next
  case (Cons t ts)
  then obtain k ns where k: "heap s t = Some k" "myKind k = TaskK" "\<not> myHolds k" "myStatus k \<noteq> ABORTED"
    "myHandler k = map Host ns" "myCompletionHandlers k = []" by (auto simp: plain_init_def)
  let ?s1 = "s\<lparr>heap := (heap s)(t \<mapsto> k\<lparr>myStatus := FINISHED\<rparr>), myCurrentTask := (myCurrentTask s)(th \<mapsto> t),
    trace := trace s @ ns\<rparr>"
  have run: "run_init_tasks th [t] s = Inr ?s1" using plain_init_runs k by blast
  have pl: "plain_init s u \<Longrightarrow> plain_init ?s1 u" for u using k by (auto simp: plain_init_def)
  have "held ?s1 = held s" using k by (auto simp: held_def)
  moreover have "dom (heap ?s1) = dom (heap s)" using k by auto
  ultimately have fr: "init_frame [t] s ?s1" using pl by (simp add: init_frame_def)
  obtain s' where s': "run_init_tasks th ts ?s1 = Inr s'" "init_frame ts ?s1 s'"
    using Cons.IH [of ?s1] Cons.prems pl by auto
  have "run_init_tasks th (t # ts) s = Inr s'" 
    using run_init_tasks_Cons [of th t ts s] by (simp only: run rbind_simps s'(1))
  moreover have "init_frame (t # ts) s s'" using init_frame_trans [OF fr s'(2)] by simp
  ultimately show ?case by blast
qed

section \<open>The interface of the I/O service\<close>

text \<open>
  \<open>pending s\<close> are the tasks the service will queue. They belong to it: no closure that the loop runs touches
  them. A handler that runs leaves a state the loop can drain and fewer tasks to wait for; a poll that runs none
  changes nothing, and then there is none to wait for. \<open>drainCb\<close> runs the microtasks of the engine, which
  here schedule no task.
\<close>

locale main_loop =
  fixes poll_one :: "sched \<Rightarrow> bool \<times> sched" and drainCb :: "sched \<Rightarrow> sched" and th :: nat
    and pending :: "sched \<Rightarrow> nat set"
  assumes pending_waiting: "pending s \<subseteq> waiting s"
    and pending_frame: "waiting s' = waiting s \<Longrightarrow> (\<And>u. u \<in> waiting s \<Longrightarrow> heap s' u = heap s u) \<Longrightarrow> pending s' = pending s"
    and poll_idle: "\<not> fst (poll_one s) \<Longrightarrow> snd (poll_one s) = s \<and> (loop_ok th pending s \<longrightarrow> pending s = {})"
    and poll_runs: "fst (poll_one s) \<Longrightarrow> loop_ok th pending s \<Longrightarrow>
      loop_ok th pending (snd (poll_one s)) \<and> card (pending (snd (poll_one s))) < card (pending s)"
    and drainCb_frame: "heap (drainCb s) = heap s" "myHoldCount (drainCb s) = myHoldCount s"
      "myTaskQueue (drainCb s) = myTaskQueue s"
begin

lemma drained:
  assumes "loop_ok th pending s"
  shows "\<exists>n s'. drainTasks th s = Some (Inr (n, s')) \<and> loop_ok th pending s' \<and> myTaskQueue s' = [] \<and>
    myTaskCount s' = 0 \<and> pending s' = pending s"
proof -
  have ok: "drainable th s" "hold_inv 0 s" "held s \<subseteq> set (myTaskQueue s) \<union> pending s"
    "length (myTaskQueue s) + card (pending s) < 2 ^ 64" "\<not> myServiceStopped s" "\<forall>t \<in> set (myThreadInitQueue s). plain_init s t \<and> t \<notin> set (myTaskQueue s)"
    using assms by (simp_all add: loop_ok_def)
  obtain n s' where d: "drainTasks th s = Some (Inr (n, s'))" and s': "drainable th s'" "myTaskQueue s' = []"
    "myTaskCount s' = 0" "unqueued s' = unqueued s" "\<forall>u \<in> unqueued s. heap s' u = heap s u"
    using drainTasks_drainable [OF ok(1)] by blast
  have c: "myThreadInitQueue s' = myThreadInitQueue s" "myServiceStopped s' = myServiceStopped s"
    using config.I_drainTasks [OF refl d] by (simp_all add: config_def)
  have p: "pending s' = pending s"
    by (rule pending_frame) (use s' c in \<open>auto simp: waiting_def\<close>)
  have "held s' \<subseteq> pending s'"
  proof
    fix u assume u: "u \<in> held s'"
    then have "u \<in> unqueued s" using s' by (auto simp: held_def unqueued_def)
    with u s' have "u \<in> held s" "u \<notin> set (myTaskQueue s)" by (auto simp: held_def unqueued_def)
    with ok(3) p show "u \<in> pending s'" by blast
  qed
  moreover have "\<forall>t \<in> set (myThreadInitQueue s'). plain_init s' t"
    using ok(6) s' c by (fastforce simp: plain_init_def unqueued_def)
  ultimately show ?thesis
    using d s' c ok p hold.I_drainTasks [OF ok(2) d] by (simp add: loop_ok_def)
qed

lemma dispatch_loop_returns:
  "loop_ok th pending s \<Longrightarrow> \<exists>s'. dispatch_loop poll_one th s = Some (Inr s') \<and> loop_ok th pending s' \<and>
    myTaskQueue s' = [] \<and> pending s' = {}"
proof (induction "(card (pending s), length (myTaskQueue s))" arbitrary: s
    rule: wf_induct_rule [OF wf_lex_prod [OF wf_less wf_less], consumes 0])
  case (1 s)
  obtain ran s1 where p: "poll_one s = (ran, s1)" by fastforce
  show ?case
  proof (cases "ran \<or> queued s1 \<noteq> 0")
    case False
    with p poll_idle [of s] "1.prems" have s1: "s1 = s" "pending s = {}" by auto
    obtain js where "drain_ok th (release_current th s) js"
      using "1.prems" by (auto simp: loop_ok_def drainable_def)
    moreover from this have "length js = length (myTaskQueue s)" by (auto simp: drain_ok_def dest: list_all2_lengthD)
    moreover have "length (myTaskQueue s) < 2 ^ 64" using "1.prems" by (simp add: loop_ok_def)
    ultimately have "myTaskQueue s = []"
      using False s1 of_nat_eq_0_iff_small [of "length js"]
      by (auto simp: queued_def drain_ok_def release_current_def)
    with p False s1 "1.prems" show ?thesis by (simp add: dispatch_loop.simps [of poll_one th s])
  next
    case True
    have ok1: "loop_ok th pending s1" and le: "card (pending s1) \<le> card (pending s)"
      and lt: "ran \<Longrightarrow> card (pending s1) < card (pending s)"
      using p poll_idle [of s] poll_runs [of s] "1.prems" by (cases ran; auto)+
    obtain n s2 where s2: "drainTasks th s1 = Some (Inr (n, s2))" "loop_ok th pending s2" "myTaskQueue s2 = []"
      "pending s2 = pending s1" using drained [OF ok1] by blast
    have "\<not> ran \<Longrightarrow> myTaskQueue s \<noteq> []"
    proof
      assume r: "\<not> ran" and e: "myTaskQueue s = []"
      then have "s1 = s" using p poll_idle [of s] by auto
      with True r e "1.prems" show False
        by (auto simp: loop_ok_def drainable_def drain_ok_def queued_def release_current_def)
    qed
    then have "((card (pending s2), length (myTaskQueue s2)), (card (pending s), length (myTaskQueue s)))
        \<in> {(x, y). x < y} <*lex*> {(x, y). x < y}"
      using lt le s2(3,4) by (cases ran) auto
    from "1.hyps" [OF this s2(2)] have "\<exists>s'. dispatch_loop poll_one th s2 = Some (Inr s') \<and>
      loop_ok th pending s' \<and> myTaskQueue s' = [] \<and> pending s' = {}" .
    moreover have "\<not> myServiceStopped s2" using s2(2) by (simp add: loop_ok_def)
    ultimately show ?thesis using p True s2(1) by (simp add: dispatch_loop.simps [of poll_one th s])
  qed
qed

lemma initialised:
  assumes ok: "loop_ok th pending s"
  shows "\<exists>s'. run_init_tasks th (myThreadInitQueue s) s = Inr s' \<and> loop_ok th pending s'"
proof -
  let ?ts = "myThreadInitQueue s"
  have pl: "\<forall>t \<in> set ?ts. plain_init s t \<and> t \<notin> set (myTaskQueue s)" using ok by (simp add: loop_ok_def)
  then obtain s' where run: "run_init_tasks th ?ts s = Inr s'" and fr: "init_frame ?ts s s'"
    using run_init_tasks_plain by blast
  have c: "myThreadInitQueue s' = ?ts" "myServiceStopped s' = myServiceStopped s"
    using config.I_run_init_tasks [OF refl run] by (simp_all add: config_def)
  have h: "dom (heap s') = dom (heap s)" "myTaskQueue s' = myTaskQueue s" "held s' = held s"
    "nextTask s' = nextTask s" "myTaskCount s' = myTaskCount s" "myPauseTasks s' = myPauseTasks s"
    and u: "\<And>u. u \<notin> set ?ts \<Longrightarrow> heap s' u = heap s u" and pl': "\<And>t. plain_init s t \<Longrightarrow> plain_init s' t"
    using fr by (simp_all add: init_frame_def)
  have p: "pending s' = pending s"
    by (rule pending_frame) (use c h u in \<open>auto simp: waiting_def unqueued_def\<close>)
  obtain js where js: "drain_ok th (release_current th s) js"
    using ok by (auto simp: loop_ok_def drainable_def)
  have "list_all2 (ready (heap s)) (myTaskQueue s) js" using js by (simp add: drain_ok_def)
  then have "list_all2 (ready (heap s')) (myTaskQueue s) js"
    by (rule list.rel_mono_strong) (metis pl ready_mono u)
  then have "drain_ok th (release_current th s') js"
    using js h by (simp add: drain_ok_def release_current_def)
  then have "drainable th s'" by (auto simp: drainable_def)
  then show ?thesis
    using ok run h c p pl pl' hold.I_run_init_tasks [of 0 s th ?ts s'] by (auto simp: loop_ok_def)
qed

lemma loop_ok_threads: "loop_ok th pending s \<Longrightarrow> loop_ok th pending (s\<lparr>myThreadCount := c\<rparr>)"
  using pending_frame [of s "s\<lparr>myThreadCount := c\<rparr>"]
  by (auto simp: loop_ok_def drainable_def drain_ok_def release_current_def hold_inv_def held_def waiting_def
      unqueued_def plain_init_def)

text \<open>The main loop returns after one round of the dispatcher: then nothing is queued or waited for.\<close>

lemma joinPool_returns:
  assumes "loop_ok th pending s"
  shows "\<exists>s'. joinPool poll_one drainCb th s = Some (Inr s') \<and> myTaskQueue s' = [] \<and> myHoldCount s' = 0 \<and>
    (\<forall>t k. heap s' t = Some k \<longrightarrow> \<not> myHolds k)"
proof -
  obtain s1 where s1: "run_init_tasks th (myThreadInitQueue s) s = Inr s1" "loop_ok th pending s1"
    using initialised [OF assms] by blast
  obtain s2 where s2: "dispatch_loop poll_one th (s1\<lparr>myThreadCount := myThreadCount s1 + 1\<rparr>) = Some (Inr s2)"
    "loop_ok th pending s2" "myTaskQueue s2 = []" "pending s2 = {}"
    using dispatch_loop_returns [OF loop_ok_threads [OF s1(2)]] by blast
  let ?s3 = "s2\<lparr>myThreadCount := myThreadCount s2 - 1\<rparr>"
  have d: "dispatcher poll_one th s = Some (Inr ?s3)" using s1(1) s2(1) by (simp add: dispatcher_def)
  have h: "held s2 = {}" "myHoldCount s2 = 0" using s2(2-) by (simp_all add: loop_ok_def hold_inv_def)
  have "heap (drainCb ?s3) = heap s2" "myHoldCount (drainCb ?s3) = 0" "myTaskQueue (drainCb ?s3) = []"
    using drainCb_frame [of ?s3] h s2(3) by simp_all
  with h d show ?thesis by (auto simp: joinPool.simps [of poll_one drainCb th s] held_def)
qed

end

section \<open>Timers\<close>

text \<open>
  The I/O service of a program that only uses timers: every task of \<open>scheduleTimed\<close> that has not been queued or
  aborted yet is armed, and a poll runs the waiting handler of one of them, if any.
\<close>

definition armed_task :: "sched \<Rightarrow> nat \<Rightarrow> bool" where
  "armed_task s t =
     (case heap s t of
        None \<Rightarrow> False
      | Some k \<Rightarrow> t \<notin> set (myTaskQueue s) \<and> t \<notin> set (myThreadInitQueue s) \<and> myStatus k = INACTIVE \<and>
          tame (myKind k) (myHandler k) \<and> list_ex (\<lambda>h. case h of CancelTimer n \<Rightarrow> True | _ \<Rightarrow> False) (myCancellationHandlers k))"

definition armed :: "sched \<Rightarrow> nat set" where
  "armed s = {t. armed_task s t}"

definition timer_poll :: "sched \<Rightarrow> bool \<times> sched" where
  "timer_poll s =
     (case filter (armed_task s) [0..<nextTask s] of
        [] \<Rightarrow> (False, s)
      | t # _ \<Rightarrow> (True, timer_expired t s))"

lemma armed_waiting: "armed s \<subseteq> waiting s"
  by (auto simp: armed_def armed_task_def waiting_def unqueued_def split: option.splits)

lemma armed_task_waiting: "t \<in> waiting s \<Longrightarrow> armed_task s t \<longleftrightarrow> (\<exists>k. heap s t = Some k \<and> myStatus k = INACTIVE \<and>
    tame (myKind k) (myHandler k) \<and> list_ex (\<lambda>h. case h of CancelTimer n \<Rightarrow> True | _ \<Rightarrow> False) (myCancellationHandlers k))"
  by (auto simp: armed_task_def waiting_def unqueued_def)

lemma armed_frame:
  assumes "waiting s' = waiting s" "\<And>u. u \<in> waiting s \<Longrightarrow> heap s' u = heap s u"
  shows "armed s' = armed s"
proof -
  have "armed_task s' t \<longleftrightarrow> armed_task s t" if "t \<in> waiting s" for t
    using that assms by (simp add: armed_task_waiting)
  then show ?thesis using armed_waiting [of s] armed_waiting [of s'] assms(1) by (auto simp: armed_def)
qed

lemma timer_expired_fields:
  "heap (timer_expired t s) = heap s" "myTaskQueue (timer_expired t s) = myTaskQueue s @ [t]"
  "myTaskCount (timer_expired t s) = myTaskCount s + 1" "nextTask (timer_expired t s) = nextTask s"
  "myHoldCount (timer_expired t s) = myHoldCount s" "config (timer_expired t s) = config s"
  "myPauseTasks (timer_expired t s) = myPauseTasks s" "myCurrentTask (timer_expired t s) = myCurrentTask s"
  by (simp_all add: timer_expired_def scheduleAbstractTask_def Let_def config_def)

lemma armed_expired: "armed_task s t \<Longrightarrow> armed (timer_expired t s) = armed s - {t}"
  using timer_expired_fields(6) [of t s]
  by (auto simp: armed_def armed_task_def timer_expired_fields config_def split: option.splits)

lemma timer_fires:
  assumes t: "armed_task s t" and ok: "loop_ok th armed s"
  shows "loop_ok th armed (timer_expired t s)" and "card (armed (timer_expired t s)) < card (armed s)"
proof -
  let ?s = "timer_expired t s"
  have t': "t \<in> armed s" using t by (simp add: armed_def)
  have c: "myThreadInitQueue ?s = myThreadInitQueue s" "myServiceStopped ?s = myServiceStopped s"
    using timer_expired_fields(6) [of t s] by (simp_all add: config_def)
  have "finite (armed s)"
    using ok armed_waiting [of s] finite_subset [of "armed s" "{..<nextTask s}"]
    by (auto simp: loop_ok_def hold_inv_def waiting_def unqueued_def)
  with t' have card: "card (armed s) = Suc (card (armed ?s))"
    unfolding armed_expired [OF t] by (metis card_Suc_Diff1)
  then show "card (armed ?s) < card (armed s)" by simp
  obtain js where js: "drain_ok th (release_current th s) js" using ok by (auto simp: loop_ok_def drainable_def)
  obtain k where k: "heap s t = Some k" "t \<notin> set (myTaskQueue s)" "t \<notin> set (myThreadInitQueue s)"
    "ready (heap s) t (myHandler k, host_out (myCompletionHandlers k))"
    using t by (auto simp: armed_task_def ready_def split: option.splits)
  have "drain_ok th (release_current th ?s) (js @ [(myHandler k, host_out (myCompletionHandlers k))])"
    using js k by (auto simp: drain_ok_def release_current_def timer_expired_fields intro!: list_all2_appendI)
  then have "drainable th ?s" by (auto simp: drainable_def)
  moreover have "hold_inv 0 ?s" "held ?s = held s" "\<And>u. plain_init ?s u = plain_init s u"
    using ok by (simp_all add: loop_ok_def hold_inv_def held_def plain_init_def timer_expired_fields)
  ultimately show "loop_ok th armed ?s"
    using ok k(3) card c armed_expired [OF t] by (auto simp: loop_ok_def timer_expired_fields)
qed

interpretation timers: main_loop timer_poll id th armed for th
proof
  show "armed s \<subseteq> waiting s" for s by (rule armed_waiting)
  show "armed s' = armed s" if "waiting s' = waiting s" "\<And>u. u \<in> waiting s \<Longrightarrow> heap s' u = heap s u" for s s'
    using that by (rule armed_frame)
  show "snd (timer_poll s) = s \<and> (loop_ok th armed s \<longrightarrow> armed s = {})" if "\<not> fst (timer_poll s)" for s
  proof
    have e: "filter (armed_task s) [0..<nextTask s] = []" using that by (auto simp: timer_poll_def split: list.splits)
    then show "snd (timer_poll s) = s" by (simp add: timer_poll_def)
    have "armed_task s t \<Longrightarrow> heap s t \<noteq> None" for t by (auto simp: armed_task_def split: option.splits)
    with e show "loop_ok th armed s \<longrightarrow> armed s = {}"
      by (fastforce simp: loop_ok_def hold_inv_def armed_def filter_empty_conv)
  qed
  show "loop_ok th armed (snd (timer_poll s)) \<and> card (armed (snd (timer_poll s))) < card (armed s)"
    if "fst (timer_poll s)" "loop_ok th armed s" for s
  proof -
    from that(1) obtain t ts where "filter (armed_task s) [0..<nextTask s] = t # ts"
      by (auto simp: timer_poll_def split: list.splits)
    moreover from this have "armed_task s t" by (metis filter_eq_ConsD)
    ultimately show ?thesis using timer_fires [OF _ that(2)] by (simp add: timer_poll_def)
  qed
qed simp_all

section \<open>The main loop returns\<close>


definition sample_loop :: sched where
  "sample_loop = (new_scheduler 1)\<lparr>myServiceStopped := False, nextTask := 3, myThreadInitQueue := [0],
     myTaskQueue := [2], myTaskCount := 1, myHoldCount := 1,
     heap := [0 \<mapsto> spawned TaskK False [Host 7],
              1 \<mapsto> (spawned TaskK True [Host 8])\<lparr>myCancellationHandlers := [CancelTimer 0]\<rparr>,
              2 \<mapsto> spawned CoroutineK False [Yield, Host 9]]\<rparr>"

lemma sample_loop_heap:
  "heap sample_loop t = (if t = 0 then Some (spawned TaskK False [Host 7])
     else if t = 1 then Some ((spawned TaskK True [Host 8])\<lparr>myCancellationHandlers := [CancelTimer 0]\<rparr>)
     else if t = 2 then Some (spawned CoroutineK False [Yield, Host 9]) else None)"
  by (simp add: sample_loop_def)

lemma sample_loop_fields:
  "myTaskQueue sample_loop = [2]" "myThreadInitQueue sample_loop = [0]" "myHoldCount sample_loop = 1"
  "nextTask sample_loop = 3" "\<not> myServiceStopped sample_loop" "myTaskCount sample_loop = 1"
  "myCurrentTask sample_loop = (\<lambda>_. None)" "\<not> myPauseTasks sample_loop"
  by (simp_all add: sample_loop_def new_scheduler_def)

lemma sample_loop_sets: "held sample_loop = {1}" "armed sample_loop = {1}" "dom (heap sample_loop) = {0, 1, 2}"
proof -
  show "held sample_loop = {1}" by (auto simp: held_def sample_loop_heap spawned_def split: if_splits)
  have "armed_task sample_loop t \<longleftrightarrow> t = 1" for t
    by (simp add: armed_task_def sample_loop_heap sample_loop_fields spawned_def)
  then show "armed sample_loop = {1}" by (simp add: armed_def)
  show "dom (heap sample_loop) = {0, 1, 2}" by (auto simp: sample_loop_heap split: if_splits)
qed


end
