(* ===== verification/Classes.thy ===== *)
theory Classes
  imports Device
begin

text \<open>
  The native classes (\<open>include/classes\<close>): for each C++ class its direct bases, and the JavaScript class that its
  \<open>createClass\<close> defines: a name, the parent class, the functions with the C++ class their code casts
  \<open>this\<close> to (\<open>FromObject\<close>), and whether its finalizer deletes the C++ object. Classes are kept in the registry
  of \<open>Nexus::defineOrGetClass\<close> under their names, and finalizers run from the most derived class to the root.
\<close>

section \<open>The C++ classes\<close>

text \<open>\<open>Dev\<close> are the classes of \<open>device.h\<close> and the emitter; \<open>HT\<close> stands for the namespace \<open>HTCommon\<close>.\<close>

datatype nxclass =
    BaseC
  | Dev devclass
  | FilePullDeviceC
  | FilePushDeviceC
  | FileSinkDeviceC
  | BidirectionalFileDeviceC
  | SocketC
  | TCPSocketC
  | UDPSocketC
  | FilterC
  | EncodingConversionFilterC
  | UTF8StringFilterC
  | AcceptorC
  | HTTPServerC
  | HTTP2ServerC
  | HTConnectionC
  | HTTPConnectionC
  | HTRequestC
  | HTTPRequestC
  | HTResponseC
  | HTTPResponseC
  | ContextC
  | TaskC

instantiation devclass :: enum
begin

definition enum_devclass :: "devclass list" where
  "enum_devclass = [EmitterC, DeviceC, SourceDeviceC, PushSourceDeviceC, PullSourceDeviceC, SinkDeviceC,
     BidirectionalPullDeviceC, BidirectionalPushDeviceC, SeekableDeviceC, SeekableSourceDeviceC, SeekableSinkDeviceC,
     BidirectionalSeekableDeviceC, DualSeekableDeviceC, BidirectionalDualSeekableDeviceC]"

definition enum_all_devclass :: "(devclass \<Rightarrow> bool) \<Rightarrow> bool" where
  "enum_all_devclass P \<longleftrightarrow> list_all P enum_class.enum"

definition enum_ex_devclass :: "(devclass \<Rightarrow> bool) \<Rightarrow> bool" where
  "enum_ex_devclass P \<longleftrightarrow> list_ex P enum_class.enum"

instance
proof
  show "(UNIV :: devclass set) = set enum_class.enum"
    unfolding enum_devclass_def by (auto intro: devclass.exhaust)
  then show "enum_class.enum_all P \<longleftrightarrow> Ball UNIV P" "enum_class.enum_ex P \<longleftrightarrow> Bex UNIV P" for P :: "devclass \<Rightarrow> bool"
    unfolding enum_all_devclass_def enum_ex_devclass_def list_all_iff list_ex_iff by blast+
qed (simp add: enum_devclass_def)

end

instantiation nxclass :: enum
begin

definition enum_nxclass :: "nxclass list" where
  "enum_nxclass = BaseC # map Dev enum_class.enum @ [FilePullDeviceC, FilePushDeviceC, FileSinkDeviceC,
     BidirectionalFileDeviceC, SocketC, TCPSocketC, UDPSocketC, FilterC, EncodingConversionFilterC, UTF8StringFilterC,
     AcceptorC, HTTPServerC, HTTP2ServerC, HTConnectionC, HTTPConnectionC, HTRequestC, HTTPRequestC, HTResponseC,
     HTTPResponseC, ContextC, TaskC]"

definition enum_all_nxclass :: "(nxclass \<Rightarrow> bool) \<Rightarrow> bool" where
  "enum_all_nxclass P \<longleftrightarrow> list_all P enum_class.enum"

definition enum_ex_nxclass :: "(nxclass \<Rightarrow> bool) \<Rightarrow> bool" where
  "enum_ex_nxclass P \<longleftrightarrow> list_ex P enum_class.enum"

instance
proof
  have "c \<in> set enum_class.enum" for c :: nxclass
    by (cases c) (simp_all add: enum_nxclass_def enum_UNIV)
  then show "(UNIV :: nxclass set) = set enum_class.enum" by blast
  then show "enum_class.enum_all P \<longleftrightarrow> Ball UNIV P" "enum_class.enum_ex P \<longleftrightarrow> Bex UNIV P" for P :: "nxclass \<Rightarrow> bool"
    unfolding enum_all_nxclass_def enum_ex_nxclass_def list_all_iff list_ex_iff by blast+
  show "distinct (enum_class.enum :: nxclass list)"
    by (auto simp: enum_nxclass_def distinct_map enum_distinct inj_on_def)
qed

end

text \<open>The direct bases.\<close>

fun dev_bases :: "devclass \<Rightarrow> devclass list" where
  "dev_bases EmitterC = []"
| "dev_bases DeviceC = [EmitterC]"
| "dev_bases SourceDeviceC = [DeviceC]"
| "dev_bases PullSourceDeviceC = [SourceDeviceC]"
| "dev_bases PushSourceDeviceC = [SourceDeviceC]"
| "dev_bases SinkDeviceC = [DeviceC]"
| "dev_bases BidirectionalPullDeviceC = [PullSourceDeviceC, SinkDeviceC]"
| "dev_bases BidirectionalPushDeviceC = [PushSourceDeviceC, SinkDeviceC]"
| "dev_bases SeekableDeviceC = [DeviceC]"
| "dev_bases SeekableSourceDeviceC = [PullSourceDeviceC, SeekableDeviceC]"
| "dev_bases SeekableSinkDeviceC = [SinkDeviceC, SeekableDeviceC]"
| "dev_bases BidirectionalSeekableDeviceC = [SeekableSourceDeviceC, SeekableSinkDeviceC]"
| "dev_bases DualSeekableDeviceC = [DeviceC]"
| "dev_bases BidirectionalDualSeekableDeviceC = [DualSeekableDeviceC, BidirectionalPullDeviceC]"

fun bases :: "nxclass \<Rightarrow> nxclass list" where
  "bases BaseC = []"
| "bases (Dev d) = (if d = EmitterC then [BaseC] else map Dev (dev_bases d))"
| "bases FilePullDeviceC = [Dev SeekableSourceDeviceC]"
| "bases FilePushDeviceC = [Dev PushSourceDeviceC]"
| "bases FileSinkDeviceC = [Dev SeekableSinkDeviceC]"
| "bases BidirectionalFileDeviceC = [Dev BidirectionalDualSeekableDeviceC]"
| "bases SocketC = [Dev BidirectionalPushDeviceC]"
| "bases TCPSocketC = [SocketC]"
| "bases UDPSocketC = [SocketC]"
| "bases FilterC = [BaseC]"
| "bases EncodingConversionFilterC = [FilterC]"
| "bases UTF8StringFilterC = [FilterC]"
| "bases AcceptorC = [Dev EmitterC]"
| "bases HTTPServerC = [AcceptorC]"
| "bases HTTP2ServerC = [AcceptorC]"
| "bases HTConnectionC = [TCPSocketC]"
| "bases HTTPConnectionC = [HTConnectionC]"
| "bases HTRequestC = [Dev PushSourceDeviceC]"
| "bases HTTPRequestC = [HTRequestC]"
| "bases HTResponseC = [Dev SinkDeviceC]"
| "bases HTTPResponseC = [HTResponseC]"
| "bases ContextC = [BaseC]"
| "bases TaskC = [Dev EmitterC]"

text \<open>How far a class is from the root; inheritance ends because it goes down.\<close>

fun dev_depth :: "devclass \<Rightarrow> nat" where
  "dev_depth EmitterC = 1"
| "dev_depth DeviceC = 2"
| "dev_depth SourceDeviceC = 3"
| "dev_depth SinkDeviceC = 3"
| "dev_depth SeekableDeviceC = 3"
| "dev_depth DualSeekableDeviceC = 3"
| "dev_depth BidirectionalSeekableDeviceC = 6"
| "dev_depth BidirectionalDualSeekableDeviceC = 6"
| "dev_depth PullSourceDeviceC = 4"
| "dev_depth PushSourceDeviceC = 4"
| "dev_depth _ = 5"

fun depth :: "nxclass \<Rightarrow> nat" where
  "depth BaseC = 0"
| "depth (Dev d) = dev_depth d"
| "depth SocketC = 7"
| "depth TCPSocketC = 8"
| "depth UDPSocketC = 8"
| "depth HTConnectionC = 9"
| "depth HTTPConnectionC = 10"
| "depth FilterC = 1"
| "depth ContextC = 1"
| "depth AcceptorC = 2"
| "depth TaskC = 2"
| "depth EncodingConversionFilterC = 2"
| "depth UTF8StringFilterC = 2"
| "depth HTTPServerC = 3"
| "depth HTTP2ServerC = 3"
| "depth HTTPRequestC = 8"
| "depth HTTPResponseC = 8"
| "depth _ = 7"

lemma bases_depth: "b \<in> set (bases c) \<Longrightarrow> depth b < depth c"
proof -
  have "\<forall>c. list_all (\<lambda>b. depth b < depth c) (bases c)" by code_simp
  then show "b \<in> set (bases c) \<Longrightarrow> depth b < depth c" by (simp add: list_all_iff)
qed

text \<open>The class itself and everything it is derived from: the classes a \<open>dynamic_cast\<close> of the object succeeds to.\<close>

function ancestors :: "nxclass \<Rightarrow> nxclass list" where
  "ancestors c = c # concat (map ancestors (bases c))"
  by pat_completeness auto
termination
  by (relation "measure depth") (simp_all add: bases_depth)

declare ancestors.simps [simp del]

definition dynamic_cast :: "nxclass \<Rightarrow> nxclass \<Rightarrow> bool" where
  "dynamic_cast target object_class \<longleftrightarrow> target \<in> set (ancestors object_class)"

section \<open>The JavaScript classes\<close>

text \<open>The class whose table a device function is from: its code casts to that class.\<close>

definition device_cast :: "string \<Rightarrow> devclass" where
  "device_cast f =
     (if f \<in> set (Methods EmitterC) then EmitterC
      else if f \<in> set (Methods DeviceC) then DeviceC
      else if f \<in> set (Methods PushSourceDeviceC) then PushSourceDeviceC
      else if f \<in> set (Methods PullSourceDeviceC) then PullSourceDeviceC
      else if f \<in> set (Methods SinkDeviceC) then SinkDeviceC
      else if f \<in> set (Methods SeekableDeviceC) then SeekableDeviceC
      else DualSeekableDeviceC)"

definition device_functions :: "devclass \<Rightarrow> (string \<times> nxclass) list" where
  "device_functions d = map (\<lambda>f. (f, Dev (device_cast f))) (staticFunctions (createClass d))"

record jsdef =
  jsName :: string
  jsParent :: "nxclass option"
  jsFunctions :: "(string \<times> nxclass) list"
  jsDeletes :: bool

abbreviation jsdef :: "string \<Rightarrow> nxclass \<Rightarrow> (string \<times> nxclass) list \<Rightarrow> bool \<Rightarrow> jsdef" where
  "jsdef n p fs d \<equiv> \<lparr>jsName = n, jsParent = Some p, jsFunctions = fs, jsDeletes = d\<rparr>"

text \<open>
  What \<open>createClass\<close> passes to \<open>defineOrGetClass\<close>. The classes \<open>HTTP::Request\<close> and \<open>HTTP::Response\<close> use the
  definitions of their bases and \<open>UTF8StringFilter\<close> that of \<open>Filter\<close>, finalizer included; \<open>EncodingConversionFilter\<close>
  inherits \<open>createClass\<close>, and \<open>BidirectionalFileDevice\<close> inherits that of the dual seekable device.
\<close>

definition Base_Class :: jsdef where
  "Base_Class = \<lparr>jsName = ''NativeObject'', jsParent = None, jsFunctions = [], jsDeletes = True\<rparr>"

definition FilePullDevice_Class :: jsdef where
  "FilePullDevice_Class = jsdef ''FileSourceDevice'' (Dev SeekableSourceDeviceC) [] False"

definition FilePushDevice_Class :: jsdef where
  "FilePushDevice_Class = jsdef ''FilePushDevice'' (Dev PushSourceDeviceC) [] False"

definition FileSinkDevice_Class :: jsdef where
  "FileSinkDevice_Class = jsdef ''FileSinkDevice'' (Dev SeekableSinkDeviceC) [] False"

definition Socket_Class :: jsdef where
  "Socket_Class = jsdef ''Socket'' (Dev BidirectionalPushDeviceC)
     [(''close'', SocketC), (''cancel'', SocketC), (''connect'', SocketC)] False"

definition TCPSocket_Class :: jsdef where
  "TCPSocket_Class = jsdef ''TCPSocket'' SocketC [] False"

definition UDPSocket_Class :: jsdef where
  "UDPSocket_Class = jsdef ''UDPSocket'' SocketC [(''bind'', UDPSocketC)] False"

definition Filter_Class :: jsdef where
  "Filter_Class = jsdef ''Filter'' BaseC [(''process'', FilterC)] True"

definition UTF8StringFilter_Class :: jsdef where
  "UTF8StringFilter_Class = jsdef ''UTF8StringFilter'' FilterC [(''process'', FilterC), (''processSync'', FilterC)] True"

definition Acceptor_Class :: jsdef where
  "Acceptor_Class = jsdef ''Acceptor'' (Dev EmitterC) [(''bind'', AcceptorC), (''listen'', AcceptorC)] False"

definition HTTPServer_Class :: jsdef where
  "HTTPServer_Class = jsdef ''HTTPServer'' AcceptorC [] False"

definition HTTP2Server_Class :: jsdef where
  "HTTP2Server_Class = jsdef ''HTTP2Server'' AcceptorC [] False"

definition HTConnection_Class :: jsdef where
  "HTConnection_Class = jsdef ''Connection'' TCPSocketC [] False"

definition HTTPConnection_Class :: jsdef where
  "HTTPConnection_Class = jsdef ''HTTPConnection'' HTConnectionC [] False"

definition HTRequest_Class :: jsdef where
  "HTRequest_Class = jsdef ''Request'' (Dev PushSourceDeviceC) [] False"

definition HTTPRequest_Class :: jsdef where
  "HTTPRequest_Class = jsdef ''Request'' HTRequestC [] False"

definition HTResponse_Class :: jsdef where
  "HTResponse_Class = jsdef ''Response'' (Dev SinkDeviceC)
     [(''status'', HTResponseC), (''set'', HTResponseC), (''send'', HTResponseC)] False"

definition HTTPResponse_Class :: jsdef where
  "HTTPResponse_Class = jsdef ''Response'' HTResponseC
     [(''status'', HTResponseC), (''set'', HTResponseC), (''send'', HTResponseC)] False"

definition Context_Class :: jsdef where
  "Context_Class = jsdef ''Context'' BaseC [(''eval'', ContextC)] True"

definition Task_Class :: jsdef where
  "Task_Class = jsdef ''Task'' (Dev EmitterC) [(''abort'', TaskC)] True"

fun class_def :: "nxclass \<Rightarrow> jsdef" where
  "class_def BaseC = Base_Class"
| "class_def (Dev d) = jsdef (className (createClass d)) (case parentClass (createClass d) of None \<Rightarrow> BaseC | Some p \<Rightarrow> Dev p)
     (device_functions d) False"
| "class_def FilePullDeviceC = FilePullDevice_Class"
| "class_def FilePushDeviceC = FilePushDevice_Class"
| "class_def FileSinkDeviceC = FileSinkDevice_Class"
| "class_def BidirectionalFileDeviceC = jsdef ''BidirectionalSeekableDevice'' (Dev DualSeekableDeviceC)
     (device_functions BidirectionalDualSeekableDeviceC) False"
| "class_def SocketC = Socket_Class"
| "class_def TCPSocketC = TCPSocket_Class"
| "class_def UDPSocketC = UDPSocket_Class"
| "class_def FilterC = Filter_Class"
| "class_def EncodingConversionFilterC = Filter_Class"
| "class_def UTF8StringFilterC = UTF8StringFilter_Class"
| "class_def AcceptorC = Acceptor_Class"
| "class_def HTTPServerC = HTTPServer_Class"
| "class_def HTTP2ServerC = HTTP2Server_Class"
| "class_def HTConnectionC = HTConnection_Class"
| "class_def HTTPConnectionC = HTTPConnection_Class"
| "class_def HTRequestC = HTRequest_Class"
| "class_def HTTPRequestC = HTTPRequest_Class"
| "class_def HTResponseC = HTResponse_Class"
| "class_def HTTPResponseC = HTTPResponse_Class"
| "class_def ContextC = Context_Class"
| "class_def TaskC = Task_Class"

section \<open>Creating JavaScript classes\<close>

text \<open>A class of the engine: its name, its functions, whether its finalizer deletes the object, and its parent.\<close>

datatype jsclass = JSClass string "(string \<times> nxclass) list" bool "jsclass option"

type_synonym registry = "string \<Rightarrow> jsclass option"

text \<open>\<open>Nexus::defineOrGetClass\<close>: a class of that name is reused whatever its definition; otherwise one is made.\<close>

definition define_or_get :: "jsdef \<Rightarrow> jsclass option \<Rightarrow> registry \<Rightarrow> jsclass \<times> registry" where
  "define_or_get d parent reg =
     (case reg (jsName d) of
        Some k \<Rightarrow> (k, reg)
      | None \<Rightarrow> (let k = JSClass (jsName d) (jsFunctions d) (jsDeletes d) parent in (k, reg(jsName d \<mapsto> k))))"

text \<open>\<open>createClass\<close>: first the parent class is created or looked up, then the class itself.\<close>

function create_class :: "nxclass \<Rightarrow> registry \<Rightarrow> jsclass \<times> registry" where
  "create_class c reg =
     (case jsParent (class_def c) of
        None \<Rightarrow> define_or_get (class_def c) None reg
      | Some p \<Rightarrow> (let (parent, reg1) = create_class p reg in define_or_get (class_def c) (Some parent) reg1))"
  by pat_completeness auto

lemma parent_depth: "jsParent (class_def c) = Some p \<Longrightarrow> depth p < depth c"
proof -
  have "\<forall>c. list_all (\<lambda>p. depth p < depth c) (case jsParent (class_def c) of None \<Rightarrow> [] | Some p \<Rightarrow> [p])"
    by code_simp
  then have "list_all (\<lambda>p. depth p < depth c) (case jsParent (class_def c) of None \<Rightarrow> [] | Some p \<Rightarrow> [p])" ..
  then show "jsParent (class_def c) = Some p \<Longrightarrow> depth p < depth c" by simp
qed

termination create_class
  by (relation "measure (\<lambda>(c, _). depth c)") (simp_all add: parent_depth)

declare create_class.simps [simp del]

definition create_classes :: "nxclass list \<Rightarrow> registry \<Rightarrow> registry" where
  "create_classes cs reg = fold (\<lambda>c r. snd (create_class c r)) cs reg"

text \<open>A property of an object is looked up in its class and then in the parents.\<close>

fun class_chain :: "jsclass \<Rightarrow> jsclass list" where
  "class_chain (JSClass n fs d None) = [JSClass n fs d None]"
| "class_chain (JSClass n fs d (Some p)) = JSClass n fs d (Some p) # class_chain p"

fun own_functions :: "jsclass \<Rightarrow> (string \<times> nxclass) list" where
  "own_functions (JSClass _ fs _ _) = fs"

fun deletes_object :: "jsclass \<Rightarrow> bool" where
  "deletes_object (JSClass _ _ d _) = d"

definition functions_of :: "jsclass \<Rightarrow> (string \<times> nxclass) list" where
  "functions_of k = concat (map own_functions (class_chain k))"

text \<open>
  What \<open>obj.f(...)\<close> does for an object of the C++ class \<open>c\<close> whose JavaScript class is \<open>k\<close>: there is no such
  property, the cast of \<open>this\<close> gives a null pointer, or the code of the class \<open>t\<close> runs.
\<close>

datatype dispatch = NoProperty | NullThis nxclass | Runs nxclass

definition dispatch_call :: "nxclass \<Rightarrow> jsclass \<Rightarrow> string \<Rightarrow> dispatch" where
  "dispatch_call c k f =
     (case map_of (functions_of k) f of
        None \<Rightarrow> NoProperty
      | Some t \<Rightarrow> if dynamic_cast t c then Runs t else NullThis t)"

text \<open>How often the finalizers of an object's classes delete the C++ object, from its class up to the root.\<close>

definition deletions :: "jsclass \<Rightarrow> nat" where
  "deletions k = length (filter deletes_object (class_chain k))"

section \<open>What the registry gives\<close>

text \<open>
  The class a reader expects \<open>createClass\<close> to give, without a registry. A class that has the name of its parent is
  the parent.
\<close>

function declared :: "nxclass \<Rightarrow> jsclass" where
  "declared c =
     (let d = class_def c; new = JSClass (jsName d) (jsFunctions d) (jsDeletes d) in
      case jsParent d of
        None \<Rightarrow> new None
      | Some p \<Rightarrow> if jsName (class_def p) = jsName d then declared p else new (Some (declared p)))"
  by pat_completeness auto

termination declared
  by (relation "measure depth") (simp_all add: parent_depth)

declare declared.simps [simp del]

text \<open>The classes that share a name with an unrelated class.\<close>

definition shadowed :: "nxclass \<Rightarrow> bool" where
  "shadowed c \<longleftrightarrow> c \<in> {Dev BidirectionalSeekableDeviceC, Dev BidirectionalDualSeekableDeviceC, BidirectionalFileDeviceC}"

text \<open>Every other class that shares a name shares its declaration; \<open>named\<close> is the one that stands for them.\<close>

fun named :: "nxclass \<Rightarrow> nxclass" where
  "named EncodingConversionFilterC = FilterC"
| "named HTTPRequestC = HTRequestC"
| "named HTTPResponseC = HTResponseC"
| "named c = c"

lemma declared_named: "declared c = declared (named c)"
proof -
  have "\<forall>c. declared c = declared (named c)" by code_simp
  then show ?thesis ..
qed

lemma jsName_named: "jsName (class_def c) = jsName (class_def (named c))"
proof -
  have "\<forall>c. jsName (class_def c) = jsName (class_def (named c))" by code_simp
  then show ?thesis ..
qed

lemma named_not_shadowed: "shadowed (named c) = shadowed c"
  by (cases c) (simp_all add: shadowed_def)

lemma names_distinct:
  "distinct (map (\<lambda>c. jsName (class_def c)) (filter (\<lambda>c. named c = c \<and> \<not> shadowed c) enum_class.enum))"
  by code_simp

lemma shadowed_name: "(jsName (class_def c) = ''BidirectionalSeekableDevice'') = shadowed c"
proof -
  have "\<forall>c. (jsName (class_def c) = ''BidirectionalSeekableDevice'') = shadowed c" by code_simp
  then show ?thesis ..
qed

lemma declared_by_name:
  assumes "jsName (class_def c) = jsName (class_def d)" "\<not> shadowed c"
  shows "declared c = declared d"
proof -
  have *: "named c \<in> set (filter (\<lambda>c. named c = c \<and> \<not> shadowed c) enum_class.enum)" if "\<not> shadowed c" for c
    using that by (cases c) (simp_all add: enum_UNIV shadowed_def)
  from assms have "\<not> shadowed d" by (simp flip: shadowed_name)
  then have "named c = named d"
    using *[OF assms(2)] *[of d] names_distinct assms(1) jsName_named[of c] jsName_named[of d]
    by (simp only: distinct_map) (metis (no_types, lifting) inj_on_def)
  then show ?thesis using declared_named[of c] declared_named[of d] by simp
qed

lemma parent_not_shadowed: "jsParent (class_def c) = Some p \<Longrightarrow> \<not> shadowed p"
proof -
  have "\<forall>c. list_all (\<lambda>p. \<not> shadowed p) (case jsParent (class_def c) of None \<Rightarrow> [] | Some p \<Rightarrow> [p])" by code_simp
  then have "list_all (\<lambda>p. \<not> shadowed p) (case jsParent (class_def c) of None \<Rightarrow> [] | Some p \<Rightarrow> [p])" ..
  then show "jsParent (class_def c) = Some p \<Longrightarrow> \<not> shadowed p" by simp
qed

text \<open>
  Whatever classes have been created before, in whatever order: a name holds the declared class of one of the
  classes that carry it.
\<close>

definition registry_ok :: "registry \<Rightarrow> bool" where
  "registry_ok reg \<longleftrightarrow> (\<forall>n k. reg n = Some k \<longrightarrow> (\<exists>c. jsName (class_def c) = n \<and> k = declared c))"

lemma define_or_get_ok:
  assumes "registry_ok reg" "define_or_get (class_def c) parent reg = (k, reg')"
    "reg (jsName (class_def c)) = None \<Longrightarrow>
       declared c = JSClass (jsName (class_def c)) (jsFunctions (class_def c)) (jsDeletes (class_def c)) parent"
  shows "registry_ok reg' \<and> reg' (jsName (class_def c)) = Some k \<and>
         (\<exists>d. jsName (class_def d) = jsName (class_def c) \<and> k = declared d)"
proof (cases "reg (jsName (class_def c))")
  case (Some k')
  with assms show ?thesis by (auto simp: define_or_get_def registry_ok_def)
next
  case None
  with assms(2,3) have "k = declared c" "reg' = reg(jsName (class_def c) \<mapsto> k)"
    by (auto simp: define_or_get_def Let_def)
  with assms(1) show ?thesis by (auto simp: registry_ok_def)
qed

lemma create_class_ok:
  assumes "registry_ok reg" "create_class c reg = (k, reg')"
  shows "registry_ok reg' \<and> reg' (jsName (class_def c)) = Some k \<and>
         (\<exists>d. jsName (class_def d) = jsName (class_def c) \<and> k = declared d)"
  using assms
proof (induction c reg arbitrary: k reg' rule: create_class.induct)
  case (1 c reg)
  show ?case
  proof (cases "jsParent (class_def c)")
    case None
    with 1(3) have "define_or_get (class_def c) None reg = (k, reg')" by (simp add: create_class.simps[of c])
    with None show ?thesis by (intro define_or_get_ok[OF 1(2)]) (simp_all add: declared.simps[of c] Let_def)
  next
    case (Some p)
    obtain q reg1 where q: "create_class p reg = (q, reg1)" by (cases "create_class p reg")
    with Some 1(3) have def: "define_or_get (class_def c) (Some q) reg1 = (k, reg')" by (simp add: create_class.simps[of c])
    from 1(1)[OF Some 1(2) q] obtain d where P: "registry_ok reg1" "reg1 (jsName (class_def p)) = Some q"
      "jsName (class_def d) = jsName (class_def p)" "q = declared d" by blast
    with parent_not_shadowed[OF Some] have "q = declared p" using declared_by_name[of p d] by simp
    with P(2) Some show ?thesis
      by (intro define_or_get_ok[OF P(1) def]) (auto simp: declared.simps[of c] Let_def)
  qed
qed

lemma create_classes_ok: "registry_ok reg \<Longrightarrow> registry_ok (create_classes cs reg)"
proof (induction cs arbitrary: reg)
  case Nil
  then show ?case by (simp add: create_classes_def)
next
  case (Cons c cs)
  have "registry_ok (snd (create_class c reg))"
    using create_class_ok[OF Cons.prems, of c] by (metis surj_pair snd_conv)
  from Cons.IH[OF this] show ?case by (simp add: create_classes_def)
qed

lemma registry_ok_empty: "registry_ok Map.empty"
  by (simp add: registry_ok_def)

definition class_after :: "nxclass list \<Rightarrow> nxclass \<Rightarrow> jsclass" where
  "class_after cs c = fst (create_class c (create_classes cs Map.empty))"

lemma class_after_named: "\<exists>d. jsName (class_def d) = jsName (class_def c) \<and> class_after cs c = declared d"
  unfolding class_after_def
  using create_class_ok[OF create_classes_ok[OF registry_ok_empty]] by (metis surj_pair fst_conv)

lemma class_after_declared: "\<not> shadowed c \<Longrightarrow> class_after cs c = declared c"
  using class_after_named[of c cs] declared_by_name by metis

section \<open>Dispatch and finalizers\<close>

lemma declared_dispatch:
  assumes "\<not> shadowed c"
  shows "dispatch_call c (declared c) f \<noteq> NullThis t"
    and "dispatch_call c (declared c) f \<noteq> NoProperty \<longleftrightarrow> (\<exists>a \<in> set (ancestors c). f \<in> fst ` set (jsFunctions (class_def a)))"
proof -
  have "\<forall>c. list_all (\<lambda>(f, t). shadowed c \<or> t \<in> set (ancestors c)) (functions_of (declared c))" by code_simp
  with assms have *: "dynamic_cast t c" if "(f, t) \<in> set (functions_of (declared c))" for f t
    using that by (fastforce simp: list_all_iff dynamic_cast_def)
  then show "dispatch_call c (declared c) f \<noteq> NullThis t"
    by (auto simp: dispatch_call_def split: option.splits dest: map_of_SomeD)
  have "\<forall>c. shadowed c \<or> set (concat (map (\<lambda>a. map fst (jsFunctions (class_def a))) (ancestors c))) =
              set (map fst (functions_of (declared c)))" by code_simp
  with assms have "f \<in> set (concat (map (\<lambda>a. map fst (jsFunctions (class_def a))) (ancestors c))) \<longleftrightarrow>
              f \<in> set (map fst (functions_of (declared c)))" by blast
  then have "(\<exists>a \<in> set (ancestors c). f \<in> fst ` set (jsFunctions (class_def a))) \<longleftrightarrow> f \<in> fst ` set (functions_of (declared c))"
    by simp
  moreover have "dispatch_call c (declared c) f = NoProperty \<longleftrightarrow> f \<notin> fst ` set (functions_of (declared c))"
    by (simp add: dispatch_call_def map_of_eq_None_iff split: option.split)
      (metis map_of_eq_None_iff option.distinct(1))
  ultimately show "dispatch_call c (declared c) f \<noteq> NoProperty \<longleftrightarrow> (\<exists>a \<in> set (ancestors c). f \<in> fst ` set (jsFunctions (class_def a)))"
    by simp
qed



text \<open>
  The exception. Whichever of the two classes named \<open>BidirectionalSeekableDevice\<close> is created first serves for both: a
  file opened for reading and writing then has no \<open>readSeek\<close>, and its \<open>seek\<close> gets a null \<open>this\<close>.
\<close>

lemma shadowed_dispatch:
  "dispatch_call BidirectionalFileDeviceC (class_after [Dev BidirectionalSeekableDeviceC] BidirectionalFileDeviceC) ''readSeek'' =
     NoProperty"
  "dispatch_call BidirectionalFileDeviceC (class_after [Dev BidirectionalSeekableDeviceC] BidirectionalFileDeviceC) ''seek'' =
     NullThis (Dev SeekableDeviceC)"
  "dispatch_call BidirectionalFileDeviceC (class_after [] BidirectionalFileDeviceC) ''readSeek'' =
     Runs (Dev DualSeekableDeviceC)"
  by code_simp+

text \<open>
  C25. Finalizers. The engine runs the finalizer of every class of an object, and each class whose finalizer
  deletes the private data deletes the same C++ object. In every history the object is deleted exactly once,
  except objects of the classes \<open>Task\<close>, \<open>Context\<close>, \<open>Filter\<close> and the encoding filter, which are deleted twice, by
  their own finalizer and by that of \<open>NativeObject\<close>, and UTF-8 filters, which are deleted three times, because their
  class copies the definition of \<open>Filter\<close> and has it as its parent as well. (Deleting the null pointer of an object
  made by \<open>new Nexus.IO.Filter()\<close> does nothing.)
\<close>

theorem finalizers_delete:
  "deletions (class_after cs c) =
     (if c \<in> {TaskC, ContextC, FilterC, EncodingConversionFilterC} then 2 else if c = UTF8StringFilterC then 3 else 1)"
proof -
  have "\<forall>d. deletions (declared d) = (if jsName (class_def d) \<in> {''Task'', ''Context'', ''Filter''} then 2
          else if jsName (class_def d) = ''UTF8StringFilter'' then 3 else 1)" by code_simp
  moreover have "\<forall>c. (jsName (class_def c) \<in> {''Task'', ''Context'', ''Filter''}) =
          (c \<in> {TaskC, ContextC, FilterC, EncodingConversionFilterC})" by code_simp
  moreover have "\<forall>c. (jsName (class_def c) = ''UTF8StringFilter'') = (c = UTF8StringFilterC)" by code_simp
  ultimately show ?thesis using class_after_named[of c cs] by metis
qed

end
