(* ===== verification/Objects.thy ===== *)
theory Objects
  imports Promises
begin

text \<open>
  The rest of \<open>NX::Object\<close> and \<open>NX::Exception\<close> (\<open>src/object.cpp\<close>, \<open>src/exception.cpp\<close>): property access,
  arrays, \<open>push\<close>, the callbacks of \<open>then\<close> and \<open>await\<close>.
\<close>

section \<open>Properties\<close>

text \<open>
  \<open>operator[]\<close>: a null pointer (\<open>None\<close>) when the handle has no object, and the text of the engine's exception
  when the read throws. With an index, \<open>exception\<close> is not initialised: \<open>garbage\<close> is its value when the engine
  does not store into it.
\<close>

definition Object_get :: "engine \<Rightarrow> string \<Rightarrow> nxobject \<Rightarrow> jsval option res" where
  "Object_get en name ob =
     (case myObject ob of
        None \<Rightarrow> Inr None
      | Some v \<Rightarrow>
          (case GetProperty en v name of
             Inl e \<Rightarrow> rbind (Value_toString en e) (\<lambda>m. Inl (Exn m))
           | Inr x \<Rightarrow> Inr (Some x)))"

definition Object_get_at ::
  "engine \<Rightarrow> (jsval \<Rightarrow> nat \<Rightarrow> jsval + jsval) \<Rightarrow> bool \<Rightarrow> nat \<Rightarrow> nxobject \<Rightarrow> jsval option res" where
  "Object_get_at en GetPropertyAtIndex garbage index ob =
     (case myObject ob of
        None \<Rightarrow> Inr None
      | Some v \<Rightarrow>
          (case GetPropertyAtIndex v index of
             Inl e \<Rightarrow> rbind (Value_toString en e) (\<lambda>m. Inl (Exn m))
           | Inr x \<Rightarrow> if garbage then Inl (UB ''uninitialised exception'') else Inr (Some x)))"

definition Object_toString :: "engine \<Rightarrow> nxobject \<Rightarrow> string res" where
  "Object_toString en ob =
     (case myObject ob of None \<Rightarrow> Inl (UB ''null value passed to the engine'') | Some v \<Rightarrow> Value_toString en v)"

text \<open>\<open>Value::toObject\<close>; \<open>to_object\<close> is \<open>JSValueToObject\<close>.\<close>

definition Value_toObject :: "engine \<Rightarrow> (jsval \<Rightarrow> jsval + jsval) \<Rightarrow> jsval \<Rightarrow> jsval res" where
  "Value_toObject en to_object v =
     (case to_object v of
        Inl e \<Rightarrow> rbind (Value_toString en e) (\<lambda>m. Inl (Exn m))
      | Inr x \<Rightarrow> Inr x)"

text \<open>
  The text of an engine exception, for the constructor of \<open>NX::Exception\<close>: the exception is converted to an
  object, and when that throws, the constructor of the object throws an \<open>NX::Exception\<close> made from the second
  exception in the same way. \<open>None\<close> is a conversion that throws for ever.
\<close>

partial_function (option) JSExceptionToString ::
  "engine \<Rightarrow> (jsval \<Rightarrow> jsval + jsval) \<Rightarrow> jsval \<Rightarrow> (exn + string) option" where
  "JSExceptionToString en to_object v =
     (case to_object v of
        Inr x \<Rightarrow> Some (Value_toString en x)
      | Inl e \<Rightarrow>
          Option.bind (JSExceptionToString en to_object e) (\<lambda>r. Some (rbind r (\<lambda>m. Inl (Exn m)))))"

text \<open>\<open>throw NX::Exception(ctx, e)\<close>: the exception that is thrown.\<close>

definition throw_value :: "engine \<Rightarrow> (jsval \<Rightarrow> jsval + jsval) \<Rightarrow> jsval \<Rightarrow> exn option" where
  "throw_value en to_object e =
     (case JSExceptionToString en to_object e of
        None \<Rightarrow> None | Some (Inl x) \<Rightarrow> Some x | Some (Inr m) \<Rightarrow> Some (Exn m))"

text \<open>The constructors from a value, an error code, a time and a list of values.\<close>

definition Object_from_value ::
  "engine \<Rightarrow> (jsval \<Rightarrow> jsval + jsval) \<Rightarrow> jsval \<Rightarrow> protects \<Rightarrow> (nxobject \<times> protects) res option" where
  "Object_from_value en to_object v p =
     (case to_object v of
        Inl e \<Rightarrow> (case throw_value en to_object e of None \<Rightarrow> None | Some x \<Rightarrow> Some (Inl x))
      | Inr ob \<Rightarrow> Some (Inr (Object_new ob p)))"

definition Object_from_time ::
  "engine \<Rightarrow> (jsval \<Rightarrow> jsval + jsval) \<Rightarrow> (jsval list \<Rightarrow> jsval + jsval) \<Rightarrow> int \<Rightarrow> protects \<Rightarrow> (nxobject \<times> protects) res option" where
  "Object_from_time en to_object make_date val p =
     (case make_date [Number (Fin (of_int (val * 1000)))] of
        Inl e \<Rightarrow> (case throw_value en to_object e of None \<Rightarrow> None | Some x \<Rightarrow> Some (Inl x))
      | Inr ob \<Rightarrow> Some (Inr (Object_new ob p)))"

definition Object_from_error :: "string \<Rightarrow> protects \<Rightarrow> nxobject \<times> protects" where
  "Object_from_error message p = Object_new (ErrorObj message) p"

definition Object_from_values ::
  "engine \<Rightarrow> (jsval list \<Rightarrow> jsval + jsval) \<Rightarrow> jsval list \<Rightarrow> protects \<Rightarrow> (nxobject \<times> protects) res" where
  "Object_from_values en make_array vs p =
     (case make_array vs of
        Inl e \<Rightarrow> rbind (Value_toString en e) (\<lambda>m. Inl (Exn m))
      | Inr ob \<Rightarrow> Inr (Object_new ob p))"

text \<open>
  \<open>push\<close> reads the method, converts it to an object and calls it with the value; a null pointer is dereferenced
  on an empty handle. \<open>call\<close> is \<open>JSObjectCallAsFunction\<close> on a function, \<open>this\<close> and arguments; its exception goes
  into the slot of the caller.
\<close>

definition Object_push ::
  "engine \<Rightarrow> (jsval \<Rightarrow> jsval + jsval) \<Rightarrow> (jsval \<Rightarrow> jsval \<Rightarrow> jsval list \<Rightarrow> jsval + jsval) \<Rightarrow> jsval \<Rightarrow> nxobject \<Rightarrow>
   (jsval + jsval) res" where
  "Object_push en to_object call v ob =
     (case myObject ob of
        None \<Rightarrow> Inl (UB ''null pointer'')
      | Some this \<Rightarrow>
          rbind (Object_get en ''push'' ob) (\<lambda>f.
          case f of
            None \<Rightarrow> Inl (UB ''null pointer'')
          | Some fv \<Rightarrow> rbind (Value_toObject en to_object fv) (\<lambda>fo. Inr (call fo this [v]))))"

section \<open>then\<close>

text \<open>
  \<open>then\<close> calls the method \<open>then\<close> of the promise with the bound callbacks (\<open>None\<close>: the empty callback, passed as
  \<open>undefined\<close>) and wraps the result; the exception of the call is not asked for, so a call that throws gives a
  null value.
\<close>

definition Object_then ::
  "engine \<Rightarrow> (jsval \<Rightarrow> jsval + jsval) \<Rightarrow> (jsval \<Rightarrow> jsval \<Rightarrow> jsval list \<Rightarrow> jsval + jsval) \<Rightarrow>
   jsval option \<Rightarrow> jsval option \<Rightarrow> nxobject \<Rightarrow> protects \<Rightarrow> (nxobject \<times> protects) res option" where
  "Object_then en to_object call onResolve onReject ob p =
     (case myObject ob of
        None \<Rightarrow> Some (Inl (Exn ''not a promise''))
      | Some this \<Rightarrow>
          (let resolve = (case onResolve of Some f \<Rightarrow> f | None \<Rightarrow> Undefined);
               reject = (case onReject of Some f \<Rightarrow> f | None \<Rightarrow> Undefined)
           in case rbind (Object_get en ''then'' ob) (\<lambda>f.
                   case f of None \<Rightarrow> Inl (UB ''null pointer'') | Some fv \<Rightarrow> Value_toObject en to_object fv) of
                Inl x \<Rightarrow> Some (Inl x)
              | Inr fo \<Rightarrow>
                  (case call fo this [resolve, reject] of
                     Inl e \<Rightarrow> Some (Inl (UB ''null value passed to the engine''))
                   | Inr r \<Rightarrow> Object_from_value en to_object r p)))"

text \<open>
  The two callbacks share one \<open>PromiseData\<close>, deleted by the one that is called; the pointer in the carrier is
  not cleared. \<open>then_data\<close> is the state of that object, \<open>callback\<close> the function given to \<open>then\<close>.
\<close>

datatype then_data = Live | Deleted

definition then_callback :: "(jsval \<Rightarrow> jscall) \<Rightarrow> jsval list \<Rightarrow> then_data \<Rightarrow> (jscall \<times> then_data) res" where
  "then_callback callback as d =
     (case d of
        Deleted \<Rightarrow> Inl (UB ''use of deleted promise data'')
      | Live \<Rightarrow> (case as of [] \<Rightarrow> Inl (UB ''read past the end of the arguments'') | v # _ \<Rightarrow> Inr (callback v, Deleted)))"

section \<open>await\<close>

text \<open>
  \<open>await\<close> in a coroutine: the callbacks of \<open>then\<close> store the result or the exception, protected, and set the
  flag the loop around \<open>yield\<close> waits for; then the protection is given back and the result returned or
  thrown. \<open>await_settle\<close> is the callback, \<open>await_finish\<close> what follows the loop, \<open>None\<close> while it goes on.
\<close>

record await_state =
  aw_result :: "jsval option"
  aw_exception :: "jsval option"

definition await_start :: await_state where
  "await_start = \<lparr>aw_result = None, aw_exception = None\<rparr>"

definition await_settle :: "settle \<Rightarrow> await_state \<times> protects \<Rightarrow> await_state \<times> protects" where
  "await_settle s = (\<lambda>(aw, p).
     case s of
       Resolved v \<Rightarrow> (aw\<lparr>aw_result := Some v\<rparr>, JSValueProtect v p)
     | Rejected e \<Rightarrow> (aw\<lparr>aw_exception := Some e\<rparr>, JSValueProtect e p))"

definition await_finish :: "await_state \<times> protects \<Rightarrow> ((jsval + jsval) \<times> protects) option" where
  "await_finish = (\<lambda>(aw, p).
     case (aw_exception aw, aw_result aw) of
       (None, None) \<Rightarrow> None
     | (Some e, None) \<Rightarrow> Some (Inl e, JSValueUnprotect e p)
     | (None, Some v) \<Rightarrow> Some (Inr v, JSValueUnprotect v p)
     | (Some e, Some v) \<Rightarrow> Some (Inl e, JSValueUnprotect v (JSValueUnprotect e p)))"

text \<open>
  One turn of the loop: done when the promise has settled, otherwise a yield of the current coroutine, which
  throws elsewhere. What it throws in the end is the exception made from the rejected value.
\<close>

definition await_turn ::
  "nat \<Rightarrow> await_state \<times> protects \<Rightarrow> sched \<Rightarrow> (((jsval + jsval) \<times> protects) option \<times> sched) res" where
  "await_turn th st s =
     (case await_finish st of
        Some r \<Rightarrow> Inr (Some r, s)
      | None \<Rightarrow> rbind (yield th s) (\<lambda>s1. Inr (None, s1)))"

text \<open>
  A settled promise ends the loop with its outcome and no protection left, so the value that \<open>await\<close>
  returns is no longer protected when the caller gets it.
\<close>

lemma await_outcome:
  "await_finish (await_settle s (await_start, p)) =
    Some (case s of Resolved v \<Rightarrow> Inr v | Rejected e \<Rightarrow> Inl e, p)"
  by (cases s) (simp_all add: await_finish_def await_settle_def await_start_def)

lemma await_waits:
  assumes "myCurrentTask s th = None"
  shows "await_turn th (await_start, p) s = Inl (Exn ''call to yield outside of a scheduler task'')"
  using assms by (simp add: await_turn_def await_finish_def await_start_def yield_def)

text \<open>An exception that converts to an object gives its text; \<open>null\<close> gives the exception of its conversion.\<close>

lemma throw_value_object:
  assumes "to_object e = Inr x" "Value_toString en x = Inr m"
  shows "throw_value en to_object e = Some (Exn m)"
  using assms by (simp add: throw_value_def JSExceptionToString.simps [of en to_object e])

lemma throw_value_converted:
  assumes "to_object e = Inl e2" "throw_value en to_object e2 = Some (Exn m)"
  shows "throw_value en to_object e = Some (Exn m)"
  using assms
  by (auto simp: throw_value_def JSExceptionToString.simps [of en to_object e] split: option.splits sum.splits)

text \<open>The second call of the callbacks of one \<open>then\<close> would use the deleted data; the engine makes only one.\<close>

lemma then_callback_once:
  assumes "then_callback f [v] Live = Inr (r, d)"
  shows "r = f v" "then_callback g [w] d = Inl (UB ''use of deleted promise data'')"
  using assms by (auto simp: then_callback_def)

end
