(* ===== verification/Handles.thy ===== *)
theory Handles
  imports Objects
begin

text \<open>
  The small classes around the values of the engine: \<open>NX::Value\<close> (\<open>src/value.cpp\<close>), \<open>NX::ScopedString\<close>
  (\<open>include/scoped_string.h\<close>), the inline functions of \<open>NX::Object\<close> (\<open>include/object.h\<close>), \<open>NX::Exception\<close>
  (\<open>include/exception.h\<close>), \<open>JSBindFunction\<close> and \<open>JSCopyObjectShallow\<close> (\<open>src/util.cpp\<close>), and what a history of the
  handles of both classes does to the protect counts.
\<close>

section \<open>NX::ScopedString\<close>

text \<open>A string goes to the engine as a C string: it ends at its first NUL.\<close>

definition ScopedString :: "string \<Rightarrow> string" where
  "ScopedString s = takeWhile (\<lambda>ch. ch \<noteq> CHR 0x00) s"

lemma ScopedString_idem [simp]: "ScopedString (ScopedString s) = ScopedString s"
  by (simp add: ScopedString_def)

lemma ScopedString_id: "CHR 0x00 \<notin> set s \<Longrightarrow> ScopedString s = s"
  by (auto simp: ScopedString_def takeWhile_eq_all_conv)

section \<open>NX::Value\<close>

record nxvalue =
  vl_context :: bool
  vl_value :: "jsval option"

definition Value_new :: "jsval \<Rightarrow> protects \<Rightarrow> nxvalue \<times> protects" where
  "Value_new v p = (\<lparr>vl_context = True, vl_value = Some v\<rparr>, JSValueProtect v p)"

text \<open>From a string of the engine, which the constructor releases (\<open>rc\<close> is its reference count).\<close>

definition Value_from_JSString :: "string \<Rightarrow> int \<Rightarrow> protects \<Rightarrow> nxvalue \<times> int \<times> protects" where
  "Value_from_JSString str rc p =
     (let v = String str in (\<lparr>vl_context = True, vl_value = Some v\<rparr>, rc - 1, JSValueProtect v p))"

definition Value_from_string :: "string \<Rightarrow> protects \<Rightarrow> nxvalue \<times> protects" where
  "Value_from_string str p =
     (let v = String (ScopedString str) in (\<lparr>vl_context = True, vl_value = Some v\<rparr>, JSValueProtect v p))"

definition Value_from_number :: "jsnum \<Rightarrow> protects \<Rightarrow> nxvalue \<times> protects" where
  "Value_from_number x p =
     (let v = Number x in (\<lparr>vl_context = True, vl_value = Some v\<rparr>, JSValueProtect v p))"

definition Value_destroy :: "nxvalue \<Rightarrow> protects \<Rightarrow> protects" where
  "Value_destroy h p =
     (case vl_value h of Some v \<Rightarrow> if vl_context h then JSValueUnprotect v p else p | None \<Rightarrow> p)"

text \<open>The copy constructor protects without looking; the move constructor takes the protection over.\<close>

definition Value_copy :: "nxvalue \<Rightarrow> protects \<Rightarrow> (nxvalue \<times> protects) res" where
  "Value_copy other p =
     (case vl_value other of
        Some v \<Rightarrow> if vl_context other then Inr (\<lparr>vl_context = True, vl_value = Some v\<rparr>, JSValueProtect v p)
                  else Inl (UB ''null value passed to the engine'')
      | None \<Rightarrow> Inl (UB ''null value passed to the engine''))"

definition Value_move :: "nxvalue \<Rightarrow> nxvalue \<times> nxvalue" where
  "Value_move other =
     (\<lparr>vl_context = vl_context other, vl_value = vl_value other\<rparr>, \<lparr>vl_context = False, vl_value = None\<rparr>)"

text \<open>\<open>isObject\<close>, \<open>isFunction\<close> and \<open>toBoolean\<close>; the last is the truth of a value.\<close>

definition Value_isObject :: "jsval \<Rightarrow> bool" where
  "Value_isObject v \<longleftrightarrow> JSValueGetType v = kObject"

definition Value_isFunction :: "engine \<Rightarrow> jsval \<Rightarrow> bool" where
  "Value_isFunction en v \<longleftrightarrow> Value_isObject v \<and> IsFunction en v"

fun JSValueToBoolean :: "jsval \<Rightarrow> bool" where
  "JSValueToBoolean Undefined = False"
| "JSValueToBoolean Null = False"
| "JSValueToBoolean (Boolean b) = b"
| "JSValueToBoolean (Number x) = (x \<noteq> NaN \<and> x \<noteq> Fin 0)"
| "JSValueToBoolean (String s) = (s \<noteq> [])"
| "JSValueToBoolean _ = True"

definition Value_toBoolean :: "nxvalue \<Rightarrow> bool res" where
  "Value_toBoolean h =
     (case vl_value h of Some v \<Rightarrow> Inr (JSValueToBoolean v) | None \<Rightarrow> Inl (UB ''null value passed to the engine''))"

section \<open>Functions of NX::Object\<close>

text \<open>
  \<open>put\<close>, \<open>call\<close> and \<open>construct\<close> are \<open>JSObjectSetProperty\<close>, \<open>JSObjectCallAsFunction\<close> and \<open>JSObjectCallAsConstructor\<close>; a
  null object handed to them is undefined.
\<close>

definition with_object :: "nxobject \<Rightarrow> (jsval \<Rightarrow> 'a res) \<Rightarrow> 'a res" where
  "with_object ob f =
     (case myObject ob of
        Some v \<Rightarrow> if myContext ob then f v else Inl (UB ''null value passed to the engine'')
      | None \<Rightarrow> Inl (UB ''null value passed to the engine''))"

definition Object_set :: "(jsval \<Rightarrow> string \<Rightarrow> jsval \<Rightarrow> 'w \<Rightarrow> jsval option \<times> 'w) \<Rightarrow> string \<Rightarrow> jsval \<Rightarrow> nxobject \<Rightarrow> 'w \<Rightarrow>
   (jsval option \<times> 'w) res" where
  "Object_set put name x ob w = with_object ob (\<lambda>v. Inr (put v (ScopedString name) x w))"

definition Object_call :: "(jsval \<Rightarrow> jsval option \<Rightarrow> jsval list \<Rightarrow> jsval + jsval) \<Rightarrow> jsval option \<Rightarrow> jsval list \<Rightarrow> nxobject \<Rightarrow>
   (jsval + jsval) res" where
  "Object_call call this as ob = with_object ob (\<lambda>f. Inr (call f this as))"

definition Object_construct :: "(jsval \<Rightarrow> jsval list \<Rightarrow> jsval + jsval) \<Rightarrow> jsval list \<Rightarrow> nxobject \<Rightarrow> (jsval + jsval) res" where
  "Object_construct new as ob = with_object ob (\<lambda>f. Inr (new f as))"

text \<open>A new object of a class, with private data; \<open>make\<close> is \<open>JSObjectMake\<close>.\<close>

definition Object_make :: "('c option \<Rightarrow> 'd option \<Rightarrow> 'w \<Rightarrow> jsval \<times> 'w) \<Rightarrow> 'c option \<Rightarrow> 'd option \<Rightarrow> protects \<Rightarrow> 'w \<Rightarrow>
   nxobject \<times> protects \<times> 'w" where
  "Object_make mk cls data p w =
     (let (v, w1) = mk cls data w; ob = \<lparr>myContext = True, myObject = Some v\<rparr> in (ob, Object_attach ob p, w1))"

definition getPrivate :: "(jsval \<Rightarrow> 'd option) \<Rightarrow> nxobject \<Rightarrow> 'd option res" where
  "getPrivate private ob = (case myObject ob of Some v \<Rightarrow> Inr (private v) | None \<Rightarrow> Inl (UB ''null value passed to the engine''))"

definition setPrivate :: "'d option \<Rightarrow> (jsval \<Rightarrow> 'd option) \<Rightarrow> nxobject \<Rightarrow> (jsval \<Rightarrow> 'd option) res" where
  "setPrivate d private ob =
     (case myObject ob of Some v \<Rightarrow> Inr (private(v := d)) | None \<Rightarrow> Inl (UB ''null value passed to the engine''))"

section \<open>NX::Exception\<close>

text \<open>
  \<open>toError\<close>, and the error object made from an exception with the stack trace that its dump \<open>dumped\<close> gives.
\<close>

definition toError :: "exn \<Rightarrow> jsval" where
  "toError x = ErrorObj (ScopedString (message_of x))"

definition Object_from_exception :: "string \<Rightarrow> exn \<Rightarrow> protects \<Rightarrow> nxobject \<times> protects" where
  "Object_from_exception dumped x p =
     (let text = ScopedString (message_of x) @ [CHR 0x0A] @ dumped @ [CHR 0x0A]
      in Object_new (ErrorObj (ScopedString text)) p)"

section \<open>Binding and copying\<close>

text \<open>
  \<open>JSBindFunction\<close> calls the method \<open>bind\<close> of the prototype of the global \<open>Function\<close>. The exception slot of the caller
  is \<open>None\<close> for a null pointer, otherwise its content. Every step but the lookup of \<open>bind\<close> goes on with a null pointer
  when it throws. \<open>call\<close> gets the function, \<open>this\<close> and the arguments.
\<close>

definition or_null :: "jsval + 'a \<Rightarrow> 'a res" where
  "or_null r = (case r of Inl e \<Rightarrow> Inl (UB ''null value passed to the engine'') | Inr x \<Rightarrow> Inr x)"

definition JSBindFunction ::
  "engine \<Rightarrow> (jsval \<Rightarrow> jsval + jsval) \<Rightarrow> (jsval \<Rightarrow> jsval) \<Rightarrow> (jsval \<Rightarrow> jsval \<Rightarrow> jsval list \<Rightarrow> jsval + jsval) \<Rightarrow> jsval \<Rightarrow> jsval \<Rightarrow> jsval \<Rightarrow>
   jsval list \<Rightarrow> jsval option option \<Rightarrow> (jsval option \<times> jsval option option) res" where
  "JSBindFunction en to_object prototype call global function this as slot =
     rbind (or_null (GetProperty en global ''Function'')) (\<lambda>f.
     rbind (or_null (to_object f)) (\<lambda>fo.
     rbind (or_null (to_object (prototype fo))) (\<lambda>proto.
     let bind = GetProperty en proto ''bind'';
         slot1 = (case (bind, slot) of (Inl e, Some _) \<Rightarrow> Some (Some e) | _ \<Rightarrow> slot)
     in case slot1 of
          Some (Some e) \<Rightarrow> Inr (None, slot1)
        | _ \<Rightarrow>
            rbind (or_null bind) (\<lambda>b.
            rbind (or_null (to_object b)) (\<lambda>bo.
            rbind (or_null (call bo function (this # as))) (\<lambda>r.
            case to_object r of
              Inl e \<Rightarrow> Inr (None, map_option (\<lambda>_. Some e) slot1)
            | Inr ro \<Rightarrow> Inr (Some ro, slot1)))))))"

text \<open>
  \<open>JSCopyObjectShallow\<close>: the enumerable names of the object, each read and written to a new object; the source is
  protected meanwhile. \<open>names\<close> is \<open>JSObjectCopyPropertyNames\<close>; the result is the list of the writes.
\<close>

fun copy_properties :: "engine \<Rightarrow> jsval \<Rightarrow> string list \<Rightarrow> (string \<rightharpoonup> jsval) \<Rightarrow> (string \<rightharpoonup> jsval) res" where
  "copy_properties en ob [] d = Inr d"
| "copy_properties en ob (n # ns) d =
     rbind (or_null (GetProperty en ob n)) (\<lambda>x. copy_properties en ob ns (d(n \<mapsto> x)))"

definition JSCopyObjectShallow :: "engine \<Rightarrow> (jsval \<Rightarrow> string list) \<Rightarrow> jsval \<Rightarrow> protects \<Rightarrow> ((string \<rightharpoonup> jsval) \<times> protects) res" where
  "JSCopyObjectShallow en names ob p =
     (let p1 = JSValueProtect ob p
      in rbind (copy_properties en ob (names ob) Map.empty) (\<lambda>d. Inr (d, JSValueUnprotect ob p1)))"

section \<open>Histories of handles\<close>

text \<open>
  What the constructors and destructors of \<open>NX::Value\<close> do in a program: values wrapped, handles copied, moved and
  destroyed. A destroyed handle is \<open>None\<close>; \<open>None\<close> as a result is a step that cannot happen or is undefined.
\<close>

datatype value_op = VWrap jsval | VCopy nat | VMove nat | VDestroy nat

definition live :: "nxvalue option list \<Rightarrow> nat \<Rightarrow> nxvalue option" where
  "live hs i = (if i < length hs then hs ! i else None)"

fun value_step :: "value_op \<Rightarrow> nxvalue option list \<times> protects \<Rightarrow> (nxvalue option list \<times> protects) option" where
  "value_step (VWrap v) (hs, p) = (let (h, p1) = Value_new v p in Some (hs @ [Some h], p1))"
| "value_step (VCopy i) (hs, p) =
     (case live hs i of None \<Rightarrow> None | Some h \<Rightarrow>
        (case Value_copy h p of Inl _ \<Rightarrow> None | Inr (h1, p1) \<Rightarrow> Some (hs @ [Some h1], p1)))"
| "value_step (VMove i) (hs, p) =
     (case live hs i of None \<Rightarrow> None | Some h \<Rightarrow> let (h1, old) = Value_move h in Some (hs[i := Some old] @ [Some h1], p))"
| "value_step (VDestroy i) (hs, p) =
     (case live hs i of None \<Rightarrow> None | Some h \<Rightarrow> Some (hs[i := None], Value_destroy h p))"

definition value_ref :: "nxvalue option \<Rightarrow> jsval \<Rightarrow> int" where
  "value_ref h v = (case h of None \<Rightarrow> 0 | Some h \<Rightarrow> if vl_context h \<and> vl_value h = Some v then 1 else 0)"

definition value_refs :: "nxvalue option list \<Rightarrow> jsval \<Rightarrow> int" where
  "value_refs hs v = (\<Sum>h\<leftarrow>hs. value_ref h v)"

fun history :: "('c \<Rightarrow> 's \<Rightarrow> 's option) \<Rightarrow> 'c list \<Rightarrow> 's \<Rightarrow> 's option" where
  "history step [] s = Some s"
| "history step (c # cs) s = (case step c s of None \<Rightarrow> None | Some s1 \<Rightarrow> history step cs s1)"

text \<open>The protections a history takes that no destructor will give back, by what each step leaks.\<close>

fun leaked :: "('c \<Rightarrow> 's \<Rightarrow> 's option) \<Rightarrow> ('c \<Rightarrow> 's \<Rightarrow> 'v \<Rightarrow> int) \<Rightarrow> 'c list \<Rightarrow> 's \<Rightarrow> 'v \<Rightarrow> int" where
  "leaked step leak [] s v = 0"
| "leaked step leak (c # cs) s v =
     leak c s v + (case step c s of None \<Rightarrow> 0 | Some s1 \<Rightarrow> leaked step leak cs s1 v)"

text \<open>
  The contract of a class of handles: each step changes the difference between the counts and the references of
  the live handles by what it leaks.
\<close>

locale counted_handles =
  fixes step :: "'c \<Rightarrow> 's \<Rightarrow> 's option"
    and counts :: "'s \<Rightarrow> jsval \<Rightarrow> int"
    and refs :: "'s \<Rightarrow> jsval \<Rightarrow> int"
    and leak :: "'c \<Rightarrow> 's \<Rightarrow> jsval \<Rightarrow> int"
  assumes step_counts: "step c s = Some s1 \<Longrightarrow> counts s1 v - refs s1 v = counts s v - refs s v + leak c s v"
    and leak_nonneg: "0 \<le> leak c s v"
begin

lemma history_counts:
  "history step cs s = Some s1 \<Longrightarrow> counts s1 v - refs s1 v = counts s v - refs s v + leaked step leak cs s v"
proof (induction cs arbitrary: s)
  case Nil
  then show ?case by simp
next
  case (Cons c cs)
  then obtain s2 where s2: "step c s = Some s2" "history step cs s2 = Some s1" by (auto split: option.splits)
  from Cons.IH [OF s2(2)] step_counts [OF s2(1), of v] s2(1) show ?case by simp
qed

lemma leaked_nonneg: "0 \<le> leaked step leak cs s v"
  by (induction cs arbitrary: s) (auto simp: leak_nonneg split: option.split)

lemma history_protects: "history step cs s = Some s1 \<Longrightarrow> counts s v - refs s v + refs s1 v \<le> counts s1 v"
  using history_counts [of cs s s1 v] leaked_nonneg [of cs s v] by linarith

end

text \<open>An object that is moved keeps its old protection, and so does one that is assigned to.\<close>

fun object_leak :: "handle_op \<Rightarrow> nxobject list \<times> protects \<Rightarrow> jsval \<Rightarrow> int" where
  "object_leak (Move i) (hs, p) v = (if i < length hs then handle_refs [hs ! i] v else 0)"
| "object_leak (Assign i j) (hs, p) v = (if i < length hs then handle_refs [hs ! i] v else 0)"
| "object_leak c s v = 0"

lemma value_refs_simps [simp]:
  "value_refs [] v = 0"
  "value_refs (hs @ hs') v = value_refs hs v + value_refs hs' v"
  "value_refs (h # hs) v = value_ref h v + value_refs hs v"
  by (simp_all add: value_refs_def)

lemma value_refs_update:
  "i < length hs \<Longrightarrow> value_refs (hs[i := h]) v = value_refs hs v - value_ref (hs ! i) v + value_ref h v"
  by (induction hs arbitrary: i) (auto split: nat.split)

lemma live_Some: "live hs i = Some h \<longleftrightarrow> i < length hs \<and> hs ! i = Some h"
  by (auto simp: live_def)

interpretation value_handles: counted_handles value_step snd "\<lambda>s. value_refs (fst s)" "\<lambda>c s v. 0"
proof
  show "snd s1 v - value_refs (fst s1) v = snd s v - value_refs (fst s) v + 0" if "value_step c s = Some s1" for c s s1 v
    using that
    by (cases s; cases c)
      (auto simp: live_Some Value_new_def Value_copy_def Value_move_def Value_destroy_def JSValueProtect_def
        JSValueUnprotect_def value_ref_def value_refs_update split: option.splits if_splits)
qed simp

interpretation object_handles: counted_handles handle_step snd "\<lambda>s. handle_refs (fst s)" object_leak
proof
  show "snd s1 v - handle_refs (fst s1) v = snd s v - handle_refs (fst s) v + object_leak c s v"
    if "handle_step c s = Some s1" for c s s1 v
    using that
    by (cases s; cases c)
      (auto simp: Object_new_def Object_copy_def Object_move_def Object_assign_def Object_clear_def Object_attach_def Let_def
        JSValueProtect_def JSValueUnprotect_def handle_refs_update split: option.splits if_splits)
  show "0 \<le> object_leak c s v" for c s v by (cases s; cases c) auto
qed

lemma leaked_0: "\<not> list_ex move_or_assign cs \<Longrightarrow> leaked handle_step object_leak cs s v = 0"
proof (induction cs arbitrary: s)
  case (Cons c cs)
  have "object_leak c s v = 0" using Cons.prems by (cases s; cases c) auto
  with Cons show ?case by (auto split: option.split)
qed simp

text \<open>
  C33. Protect counts, after any history of the handles of both classes: a value is protected once for every live handle
  that refers to it, plus once for every time an \<open>NX::Object\<close> that referred to it was moved or assigned to.
  Moving an \<open>NX::Value\<close> is free of that, and no history protects a value less than its handles need.
\<close>

theorem handles_counted:
  assumes "history value_step vs ([], p) = Some (ws, p1)" "history handle_step os ([], p1) = Some (hs, p2)"
  shows "p2 v = p v + value_refs ws v + handle_refs hs v + leaked handle_step object_leak os ([], p1) v \<and>
    0 \<le> leaked handle_step object_leak os ([], p1) v \<and>
    (\<not> list_ex move_or_assign os \<longrightarrow> leaked handle_step object_leak os ([], p1) v = 0)"
proof (intro conjI impI)
  have "leaked value_step (\<lambda>c s v. 0) vs s v = 0" for s
    by (induction vs arbitrary: s) (auto split: option.split)
  with value_handles.history_counts [OF assms(1), of v] have "p1 v = p v + value_refs ws v" by simp
  with object_handles.history_counts [OF assms(2), of v]
  show "p2 v = p v + value_refs ws v + handle_refs hs v + leaked handle_step object_leak os ([], p1) v" by simp
  show "0 \<le> leaked handle_step object_leak os ([], p1) v" by (rule object_handles.leaked_nonneg)
  show "leaked handle_step object_leak os ([], p1) v = 0" if "\<not> list_ex move_or_assign os" using that by (rule leaked_0)
qed

theorem handles_counted_witness:
  "\<exists>ws hs p1 p2. history value_step [VWrap (Object 1), VMove 0, VDestroy 0, VDestroy 1] ([], \<lambda>_. 0) = Some (ws, p1) \<and>
    history handle_step [Wrap (Object 1), Move 0, Destroy 0, Destroy 1] ([], p1) = Some (hs, p2) \<and> p2 (Object 1) = 1"
proof -
  let ?vs = "[VWrap (Object 1), VMove 0, VDestroy 0, VDestroy 1]" and ?os = "[Wrap (Object 1), Move 0, Destroy 0, Destroy 1]"
  obtain ws p1 where w: "history value_step ?vs ([], \<lambda>_. 0) = Some (ws, p1)" "value_refs ws (Object 1) = 0"
    by (simp add: Value_new_def Value_move_def live_def Let_def value_ref_def)
  obtain hs p2 where h: "history handle_step ?os ([], p1) = Some (hs, p2)" "handle_refs hs (Object 1) = 0"
    by (simp add: Object_new_def Object_move_def Object_clear_def Let_def)
  have "leaked handle_step object_leak ?os ([], p1) (Object 1) = 1"
    by (simp add: Object_new_def Object_move_def Object_clear_def Let_def)
  with handles_counted [OF w(1) h(1), of "Object 1"] w h show ?thesis by auto
qed

section \<open>Strings, binding and copying\<close>

text \<open>A string that went into the engine comes back from \<open>toString\<close> up to its first NUL.\<close>

lemma Value_string_back:
  assumes "ToString en (String (ScopedString s)) = Inr (ScopedString s)"
  shows "\<exists>h p1. Value_from_string s p = (h, p1) \<and> (\<exists>v. vl_value h = Some v \<and> Value_toString en v = Inr (ScopedString s))"
  using assms by (simp add: Value_from_string_def Value_toString_def Let_def)

text \<open>
  \<open>JSBindFunction\<close> in an engine with the ordinary \<open>Function.prototype.bind\<close>: the bound function, or a null pointer and the
  exception of the lookup. Without an exception slot, a lookup that throws is undefined.
\<close>

lemma JSBindFunction_result:
  assumes "GetProperty en global ''Function'' = Inr F" "to_object F = Inr F" "to_object (prototype F) = Inr P"
  shows "GetProperty en P ''bind'' = Inr b \<Longrightarrow> to_object b = Inr b \<Longrightarrow> call b f (this # as) = Inr r \<Longrightarrow> to_object r = Inr r \<Longrightarrow>
      slot \<in> {None, Some None} \<Longrightarrow> JSBindFunction en to_object prototype call global f this as slot = Inr (Some r, slot)"
    and "GetProperty en P ''bind'' = Inl e \<Longrightarrow>
      JSBindFunction en to_object prototype call global f this as (Some None) = Inr (None, Some (Some e))"
    and "GetProperty en P ''bind'' = Inl e \<Longrightarrow>
      JSBindFunction en to_object prototype call global f this as None = Inl (UB ''null value passed to the engine'')"
  using assms by (auto simp: JSBindFunction_def or_null_def)

text \<open>A shallow copy has the enumerable properties of its source, and the source is unprotected again.\<close>

lemma copy_properties_result:
  "\<forall>n \<in> set ns. GetProperty en ob n = Inr (get n) \<Longrightarrow>
    copy_properties en ob ns d = Inr (\<lambda>n. if n \<in> set ns then Some (get n) else d n)"
proof (induction ns arbitrary: d)
  case (Cons n ns)
  then have "copy_properties en ob (n # ns) d = Inr (\<lambda>m. if m \<in> set ns then Some (get m) else (d(n \<mapsto> get n)) m)"
    by (simp add: or_null_def)
  also have "(\<lambda>m. if m \<in> set ns then Some (get m) else (d(n \<mapsto> get n)) m) = (\<lambda>m. if m \<in> set (n # ns) then Some (get m) else d m)"
    by auto
  finally show ?case .
qed simp

lemma JSCopyObjectShallow_result:
  assumes "\<forall>n \<in> set (names ob). GetProperty en ob n = Inr (get n)"
  shows "JSCopyObjectShallow en names ob p = Inr (\<lambda>n. if n \<in> set (names ob) then Some (get n) else None, p)"
  using copy_properties_result [of "names ob" en ob get] assms by (simp add: JSCopyObjectShallow_def)

text \<open>A getter that throws in the middle leaves a null value to be stored.\<close>

lemma copy_properties_throws:
  "list_all (\<lambda>n. \<exists>x. GetProperty en ob n = Inr x) ns \<Longrightarrow> GetProperty en ob n = Inl e \<Longrightarrow>
    copy_properties en ob (ns @ n # ms) d = Inl (UB ''null value passed to the engine'')"
  by (induction ns arbitrary: d) (auto simp: or_null_def)

end
