(* ===== verification/Contexts.thy ===== *)
theory Contexts
  imports MainLoop Globals Classes Handles
begin

text \<open>
  Contexts inside one program: \<open>NX::Context\<close> objects come and go (\<open>src/context.cpp\<close>), every one of them registers
  each new thread with the engine, and the JavaScript class \<open>Nexus.Context\<close> (\<open>src/classes/context.cpp\<close>) wraps a
  clone of the current context, so that a script can be evaluated apart.
\<close>

section \<open>Contexts and threads\<close>

text \<open>
  The scheduler and the live \<open>NX::Context\<close> objects by their addresses. The closure \<open>registerThread\<close> of a context is
  the step \<open>Host a\<close> of an initialisation task, where \<open>a\<close> is the captured \<open>this\<close>.
\<close>

record realm =
  rl_sched :: sched
  rl_contexts :: "nat \<Rightarrow> nx_context option"
  rl_next :: nat

definition new_realm :: "usize \<Rightarrow> realm" where
  "new_realm maxThreads = \<lparr>rl_sched = new_scheduler maxThreads, rl_contexts = (\<lambda>_. None), rl_next = 0\<rparr>"

text \<open>
  The constructor (\<open>create\<close>, \<open>clone\<close>): the task for new threads, then the global object; \<open>fresh\<close> is the context with
  the global object as the engine makes it.
\<close>

definition Context_new :: "nx_context \<Rightarrow> realm \<Rightarrow> (nat \<times> realm) res" where
  "Context_new fresh w =
     (let a = rl_next w in
      rbind (scheduleThreadInitTask (Some [Host a]) (rl_sched w)) (\<lambda>(t, s).
      Inr (a, w\<lparr>rl_sched := s, rl_contexts := (rl_contexts w)(a \<mapsto> fresh\<lparr>myGlobals := Map.empty\<rparr>), rl_next := Suc a\<rparr>)))"

text \<open>\<open>delete\<close>: the protect counts after the destructor, and the context is gone; its initialisation task is not.\<close>

definition Context_delete :: "string list \<Rightarrow> nat \<Rightarrow> realm \<Rightarrow> (protects \<times> realm) res" where
  "Context_delete keys a w =
     (case rl_contexts w a of
        None \<Rightarrow> Inl (UB ''double delete'')
      | Some c \<Rightarrow> Inr (Context_destroy keys c, w\<lparr>rl_contexts := (rl_contexts w)(a := None)\<rparr>))"

definition registerThread :: "nat \<Rightarrow> realm \<Rightarrow> realm res" where
  "registerThread a w = (if rl_contexts w a = None then Inl (UB ''use of a deleted context'') else Inr w)"

fun registerThreads :: "nat list \<Rightarrow> realm \<Rightarrow> realm res" where
  "registerThreads [] w = Inr w"
| "registerThreads (a # as) w = rbind (registerThread a w) (registerThreads as)"

text \<open>
  What a thread does before its loop, and the main thread each time \<open>joinPool\<close> enters the dispatcher: it runs the
  initialisation tasks, whose steps register it with the contexts they captured.
\<close>

definition thread_start :: "nat \<Rightarrow> realm \<Rightarrow> realm res" where
  "thread_start th w =
     (let s = rl_sched w in
      rbind (run_init_tasks th (myThreadInitQueue s) s) (\<lambda>s1.
      registerThreads (drop (length (trace s)) (trace s1)) (w\<lparr>rl_sched := s1\<rparr>)))"

text \<open>A history of the program: contexts are made and deleted, threads start.\<close>

datatype realm_op = NewContext nx_context | DeleteContext "string list" nat | StartThread nat

fun realm_step :: "realm_op \<Rightarrow> realm \<Rightarrow> realm res" where
  "realm_step (NewContext fresh) w = rbind (Context_new fresh w) (\<lambda>(a, w'). Inr w')"
| "realm_step (DeleteContext keys a) w = rbind (Context_delete keys a w) (\<lambda>(p, w'). Inr w')"
| "realm_step (StartThread th) w = thread_start th w"

fun realm_run :: "realm_op list \<Rightarrow> realm \<Rightarrow> realm res" where
  "realm_run [] w = Inr w"
| "realm_run (c # cs) w = rbind (realm_step c w) (realm_run cs)"

section \<open>Nexus.Context\<close>

text \<open>
  The constructor is written and has a getter, but \<open>NexusProperties\<close> (\<open>src/globals/global.cpp\<close>) leaves the getter
  out, so scripts do not reach the class yet.
\<close>

text \<open>What \<open>JSObjectGetPrivate\<close> gives for \<open>this\<close>: nothing, a \<open>Classes::Context\<close> with its context, another object.\<close>

datatype native = NoPrivate | NativeContext nat | OtherNative nxclass

text \<open>
  The constructor of \<open>Classes::Context\<close>: a clone, and the properties of the argument set on its global object.
  \<open>names\<close> are the property names the engine lists, \<open>put\<close> its write to a property of the global object. A read
  that throws gives a null value; the exception is not asked for.
\<close>

fun copy_overrides ::
  "engine \<Rightarrow> (string \<Rightarrow> jsval \<Rightarrow> nx_context \<Rightarrow> nx_context) \<Rightarrow> jsval \<Rightarrow> string list \<Rightarrow> nx_context \<Rightarrow> nx_context res" where
  "copy_overrides en put v [] c = Inr c"
| "copy_overrides en put v (n # ns) c =
     (case GetProperty en v n of
        Inl e \<Rightarrow> Inl (UB ''null value passed to the engine'')
      | Inr x \<Rightarrow> copy_overrides en put v ns (put n x c))"

definition Classes_Context ::
  "engine \<Rightarrow> (jsval \<Rightarrow> string list) \<Rightarrow> (string \<Rightarrow> jsval \<Rightarrow> nx_context \<Rightarrow> nx_context) \<Rightarrow> nx_context \<Rightarrow>
   jsval option \<Rightarrow> protects \<Rightarrow> realm \<Rightarrow> (nat \<times> protects \<times> realm) res" where
  "Classes_Context en names put fresh globalOverrides p w =
     rbind (Context_new fresh w) (\<lambda>(a, w1).
     case globalOverrides of
       None \<Rightarrow> Inr (a, p, w1)
     | Some v \<Rightarrow>
         (let p1 = JSValueProtect v p in
          rbind (case rl_contexts w1 a of
                   None \<Rightarrow> Inl (UB ''null pointer'')
                 | Some c \<Rightarrow> copy_overrides en put v (names v) c) (\<lambda>c.
          Inr (a, JSValueUnprotect v p1, w1\<lparr>rl_contexts := (rl_contexts w1)(a \<mapsto> c)\<rparr>))))"

text \<open>
  The JavaScript constructor. The handle around the argument lives until the object is made; an argument that is an
  object converts to itself. The result is the private data of the object made, and the exception.
\<close>

definition Context_Constructor ::
  "engine \<Rightarrow> (jsval \<Rightarrow> string list) \<Rightarrow> (string \<Rightarrow> jsval \<Rightarrow> nx_context \<Rightarrow> nx_context) \<Rightarrow> nx_context \<Rightarrow>
   jsval list \<Rightarrow> protects \<Rightarrow> realm \<Rightarrow> ((native \<times> jsval option) \<times> protects \<times> realm) res" where
  "Context_Constructor en names put fresh as p w =
     (if as \<noteq> [] \<and> JSValueGetType (as ! 0) \<noteq> kObject then
        Inr ((NoPrivate, Some (ErrorObj ''argument must be an object'')), p, w)
      else
        (case (case as of
                 [] \<Rightarrow> Classes_Context en names put fresh None p w
               | v # _ \<Rightarrow>
                   (let (ob, p1) = Object_new v p in
                    rbind (Classes_Context en names put fresh (myObject ob) p1 w) (\<lambda>(a, p2, w1).
                    Inr (a, Object_destroy ob p2, w1)))) of
           Inl (Exn m) \<Rightarrow> Inr ((NoPrivate, Some (ErrorObj m)), p, w)
         | Inl x \<Rightarrow> Inl x
         | Inr (a, p', w') \<Rightarrow> Inr ((NativeContext a, None), p', w')))"

text \<open>
  \<open>evaluateScript\<close>: the file name is left out when it is empty. The text goes through \<open>ScopedString\<close>, which takes
  it as a C string, up to the first NUL. \<open>evaluate\<close> is \<open>JSEvaluateScript\<close> in the context at an address; a script can
  do anything to the realm.
\<close>

type_synonym evaluator = "nat \<Rightarrow> string \<Rightarrow> string option \<Rightarrow> int \<Rightarrow> realm \<Rightarrow> (jsval + jsval) \<times> realm"

definition evaluateScript :: "evaluator \<Rightarrow> nat \<Rightarrow> string \<Rightarrow> string \<Rightarrow> int \<Rightarrow> realm \<Rightarrow> (jscall \<times> realm) res" where
  "evaluateScript evaluate a src filePath lineNo w =
     (if rl_contexts w a = None then Inl (UB ''use of a deleted context'')
      else (case evaluate a (ScopedString src) (if filePath \<noteq> [] then Some (ScopedString filePath) else None) lineNo w of
              (Inl e, w1) \<Rightarrow> Inr ((Undefined, Some e), w1)
            | (Inr v, w1) \<Rightarrow> Inr ((v, None), w1)))"

text \<open>
  The method \<open>eval\<close>: the first argument is read whether there is one or not, and \<open>this\<close> is neither compared with
  the null pointer nor checked to be a context (the cast is a \<open>static_cast\<close>).
\<close>

definition eval_arguments :: "engine \<Rightarrow> jsval list \<Rightarrow> (string \<times> string \<times> int) res" where
  "eval_arguments en as =
     rbind (if as = [] then Inl (UB ''read past the end of the arguments'') else Value_toString en (as ! 0)) (\<lambda>source.
     rbind (if length as \<ge> 2 then Value_toString en (as ! 1) else Inr []) (\<lambda>fileName.
     rbind (if length as \<ge> 3 then rbind (Value_toNumber en (as ! 2)) (to_integer 0 (2 ^ 32 - 1)) else Inr 0) (\<lambda>lineNo.
     Inr (source, fileName, lineNo))))"

definition Context_eval :: "engine \<Rightarrow> evaluator \<Rightarrow> native \<Rightarrow> jsval list \<Rightarrow> realm \<Rightarrow> (jscall \<times> realm) res" where
  "Context_eval en evaluate this as w =
     (case eval_arguments en as of
        Inl (Exn m) \<Rightarrow> Inr ((Undefined, Some (ErrorObj m)), w)
      | Inl x \<Rightarrow> Inl x
      | Inr (source, fileName, lineNo) \<Rightarrow>
          (case this of
             NoPrivate \<Rightarrow> Inl (UB ''null this'')
           | OtherNative c \<Rightarrow> Inl (UB ''cast to another class'')
           | NativeContext a \<Rightarrow> evaluateScript evaluate a source fileName lineNo w))"

definition Context_exports :: "native \<Rightarrow> jscall res" where
  "Context_exports this =
     (case this of
        NoPrivate \<Rightarrow> Inr (Undefined, Some (ErrorObj ''invalid `this` value''))
      | OtherNative c \<Rightarrow> Inl (UB ''cast to another class'')
      | NativeContext a \<Rightarrow> Inr (Undefined, None))"

section \<open>Threads register with every context there ever was\<close>

definition init_of :: "sched \<Rightarrow> nat \<Rightarrow> nat \<Rightarrow> bool" where
  "init_of s t a \<longleftrightarrow> (\<exists>k. heap s t = Some k \<and> myKind k = TaskK \<and> myStatus k \<noteq> ABORTED \<and> myHandler k = [Host a] \<and>
     myCompletionHandlers k = [])"

lemma run_init_task_of:
  assumes "init_of s t a"
  obtains s' where "run_init_tasks th [t] s = Inr s'" "trace s' = trace s @ [a]" "\<forall>u b. init_of s u b \<longrightarrow> init_of s' u b"
    "myThreadInitQueue s' = myThreadInitQueue s" "nextTask s' = nextTask s"
proof -
  from assms obtain k where k: "heap s t = Some k" "myKind k = TaskK" "myStatus k \<noteq> ABORTED" "myHandler k = map Host [a]"
    "myCompletionHandlers k = []" by (auto simp: init_of_def)
  show ?thesis
    by (rule that [OF plain_init_runs [OF k]]) (use k in \<open>auto simp: init_of_def\<close>)
qed

lemma run_init_tasks_of:
  "list_all2 (init_of s) ts as \<Longrightarrow>
   \<exists>s'. run_init_tasks th ts s = Inr s' \<and> trace s' = trace s @ as \<and> (\<forall>u b. init_of s u b \<longrightarrow> init_of s' u b) \<and>
     myThreadInitQueue s' = myThreadInitQueue s \<and> nextTask s' = nextTask s"
proof (induction ts arbitrary: s as)
  case Nil
  then show ?case by simp
next
  case (Cons t ts)
  from Cons.prems obtain a as' where as: "as = a # as'" "init_of s t a" "list_all2 (init_of s) ts as'"
    by (auto simp: list_all2_Cons1)
  obtain s1 where s1: "run_init_tasks th [t] s = Inr s1" "trace s1 = trace s @ [a]" "\<forall>u b. init_of s u b \<longrightarrow> init_of s1 u b"
    "myThreadInitQueue s1 = myThreadInitQueue s" "nextTask s1 = nextTask s" using run_init_task_of [OF as(2)] by metis
  have "list_all2 (init_of s1) ts as'" using as(3) s1(3) by (auto elim: list_all2_mono)
  from Cons.IH [OF this] obtain s2 where s2: "run_init_tasks th ts s1 = Inr s2" "trace s2 = trace s1 @ as'"
    "\<forall>u b. init_of s1 u b \<longrightarrow> init_of s2 u b" "myThreadInitQueue s2 = myThreadInitQueue s1" "nextTask s2 = nextTask s1"
    by blast
  have "run_init_tasks th (t # ts) s = Inr s2"
    using run_init_tasks_Cons [of th t ts s] by (simp only: s1(1) rbind_simps s2(1))
  with s1 s2 as(1) show ?case by auto
qed

lemma registerThreads_eq:
  "registerThreads as w =
    (if \<forall>a \<in> set as. rl_contexts w a \<noteq> None then Inr w else Inl (UB ''use of a deleted context''))"
  by (induction as) (auto simp: registerThread_def)

text \<open>\<open>D\<close> are the addresses of the contexts that have been deleted.\<close>

definition realm_ok :: "nat set \<Rightarrow> realm \<Rightarrow> bool" where
  "realm_ok D w \<longleftrightarrow>
     list_all2 (init_of (rl_sched w)) (myThreadInitQueue (rl_sched w)) [0..<rl_next w] \<and>
     (\<forall>t \<in> set (myThreadInitQueue (rl_sched w)). t < nextTask (rl_sched w)) \<and>
     D \<subseteq> {..<rl_next w} \<and> (\<forall>a. rl_contexts w a \<noteq> None \<longleftrightarrow> a < rl_next w \<and> a \<notin> D)"

lemma realm_ok_new: "realm_ok {} (new_realm n)"
  by (simp add: realm_ok_def new_realm_def new_scheduler_def)

lemma Context_new_eq:
  "Context_new fresh w =
    Inr (rl_next w, w\<lparr>rl_sched := (rl_sched w)\<lparr>heap := (heap (rl_sched w))(nextTask (rl_sched w) \<mapsto> spawned TaskK False [Host (rl_next w)]),
           nextTask := Suc (nextTask (rl_sched w)), myThreadInitQueue := myThreadInitQueue (rl_sched w) @ [nextTask (rl_sched w)]\<rparr>,
         rl_contexts := (rl_contexts w)(rl_next w \<mapsto> fresh\<lparr>myGlobals := Map.empty\<rparr>), rl_next := Suc (rl_next w)\<rparr>)"
  by (simp add: Context_new_def scheduleThreadInitTask_def new_task_def Holder_def Let_def spawned_def)

lemma realm_ok_Context_new:
  assumes "realm_ok D w" "Context_new fresh w = Inr (a, w')"
  shows "realm_ok D w' \<and> a = rl_next w"
proof -
  let ?s = "rl_sched w"
  let ?s' = "?s\<lparr>heap := (heap ?s)(nextTask ?s \<mapsto> spawned TaskK False [Host (rl_next w)]), nextTask := Suc (nextTask ?s),
    myThreadInitQueue := myThreadInitQueue ?s @ [nextTask ?s]\<rparr>"
  have w': "w' = w\<lparr>rl_sched := ?s', rl_contexts := (rl_contexts w)(rl_next w \<mapsto> fresh\<lparr>myGlobals := Map.empty\<rparr>),
    rl_next := Suc (rl_next w)\<rparr>" "a = rl_next w"
    using assms(2) by (auto simp: Context_new_eq)
  from assms(1) have old: "list_all2 (init_of ?s) (myThreadInitQueue ?s) [0..<rl_next w]"
    "\<forall>t \<in> set (myThreadInitQueue ?s). t < nextTask ?s" by (simp_all add: realm_ok_def)
  have "list_all2 (init_of ?s') (myThreadInitQueue ?s) [0..<rl_next w]"
    by (rule list.rel_mono_strong [OF old(1)]) (use old(2) in \<open>auto simp: init_of_def\<close>)
  moreover have "init_of ?s' (nextTask ?s) (rl_next w)" by (simp add: init_of_def spawned_def)
  ultimately have "list_all2 (init_of ?s') (myThreadInitQueue ?s') [0..<Suc (rl_next w)]" by (simp add: list_all2_appendI)
  with assms(1) old(2) show ?thesis unfolding w'
    by (auto simp: realm_ok_def less_Suc_eq)
qed

lemma realm_ok_Context_delete:
  assumes "realm_ok D w" "Context_delete keys a w = Inr (p, w')"
  shows "realm_ok (insert a D) w'"
  using assms by (auto simp: realm_ok_def Context_delete_def split: option.splits if_splits)

lemma thread_start_eq:
  assumes "realm_ok D w"
  obtains s' where "trace s' = trace (rl_sched w) @ [0..<rl_next w]" "realm_ok D (w\<lparr>rl_sched := s'\<rparr>)"
    "thread_start th w = (if D = {} then Inr (w\<lparr>rl_sched := s'\<rparr>) else Inl (UB ''use of a deleted context''))"
proof -
  let ?s = "rl_sched w"
  have l: "list_all2 (init_of ?s) (myThreadInitQueue ?s) [0..<rl_next w]" using assms by (simp add: realm_ok_def)
  obtain s' where s': "run_init_tasks th (myThreadInitQueue ?s) ?s = Inr s'" "trace s' = trace ?s @ [0..<rl_next w]"
    "\<forall>u b. init_of ?s u b \<longrightarrow> init_of s' u b" "myThreadInitQueue s' = myThreadInitQueue ?s" "nextTask s' = nextTask ?s"
    using run_init_tasks_of [OF l] by blast
  have l': "list_all2 (init_of s') (myThreadInitQueue s') [0..<rl_next w]"
    unfolding s'(4) by (rule list_all2_mono [OF l]) (use s'(3) in blast)
  have "thread_start th w = registerThreads [0..<rl_next w] (w\<lparr>rl_sched := s'\<rparr>)"
    by (simp add: thread_start_def s' Let_def)
  moreover have "(\<forall>a \<in> set [0..<rl_next w]. rl_contexts w a \<noteq> None) \<longleftrightarrow> D = {}"
    using assms by (auto simp: realm_ok_def subset_iff)
  ultimately have "thread_start th w = (if D = {} then Inr (w\<lparr>rl_sched := s'\<rparr>) else Inl (UB ''use of a deleted context''))"
    by (simp add: registerThreads_eq)
  moreover have "realm_ok D (w\<lparr>rl_sched := s'\<rparr>)" using assms s' l' by (simp add: realm_ok_def)
  ultimately show ?thesis using s'(2) that by blast
qed

fun deleted :: "realm_op \<Rightarrow> nat set" where
  "deleted (DeleteContext keys a) = {a}"
| "deleted _ = {}"

lemma deleted_iff: "a \<in> deleted c \<longleftrightarrow> (\<exists>keys. c = DeleteContext keys a)"
  by (cases c) auto

lemma realm_ok_step:
  assumes "realm_ok D w" "realm_step c w = Inr w'"
  shows "realm_ok (D \<union> deleted c) w'"
proof (cases c)
  case (NewContext fresh)
  with assms show ?thesis using realm_ok_Context_new [OF assms(1)] by (auto simp: rbind_eq_Inr)
next
  case (DeleteContext keys a)
  with assms show ?thesis using realm_ok_Context_delete [OF assms(1)] by (auto simp: rbind_eq_Inr)
next
  case (StartThread th)
  with assms thread_start_eq [OF assms(1), of th] show ?thesis by (metis Inl_Inr_False Inr_inject deleted.simps(3) realm_step.simps(3) sup_bot_right)
qed

lemma realm_ok_run:
  "realm_ok D w \<Longrightarrow> realm_run cs w = Inr w' \<Longrightarrow> realm_ok (D \<union> \<Union> (set (map deleted cs))) w'"
proof (induction cs arbitrary: D w)
  case Nil
  then show ?case by simp
next
  case (Cons c cs)
  then obtain w1 where "realm_step c w = Inr w1" "realm_run cs w1 = Inr w'" by (auto simp: rbind_eq_Inr)
  from Cons.IH [OF realm_ok_step [OF Cons.prems(1) this(1)] this(2)] show ?case by (simp add: Un_assoc)
qed

text \<open>
  C24. Threads and contexts, after any history of contexts made and deleted and threads started: while no context has
  been deleted, a thread that starts registers with every context in the order they were made; once one has been
  deleted, every thread that starts (and every turn of \<open>joinPool\<close>) uses the deleted context, because its
  initialisation task stays in the scheduler.
\<close>

theorem thread_start_after_history:
  assumes "realm_run cs (new_realm n) = Inr w"
  shows "if \<exists>keys a. DeleteContext keys a \<in> set cs
         then thread_start th w = Inl (UB ''use of a deleted context'')
         else \<exists>s'. thread_start th w = Inr (w\<lparr>rl_sched := s'\<rparr>) \<and> trace s' = trace (rl_sched w) @ [0..<rl_next w]"
proof -
  let ?D = "\<Union> (set (map deleted cs))"
  have ok: "realm_ok ?D w" using realm_ok_run [OF realm_ok_new assms] by simp
  have "a \<in> ?D \<longleftrightarrow> (\<exists>keys. DeleteContext keys a \<in> set cs)" for a by (auto simp: deleted_iff)
  then have "?D \<noteq> {} \<longleftrightarrow> (\<exists>keys a. DeleteContext keys a \<in> set cs)" by blast
  with thread_start_eq [OF ok, of th] show ?thesis by metis
qed

definition sample_context :: nx_context where
  "sample_context = \<lparr>myGlobals = Map.empty, own_property = Map.empty, ctx_protects = (\<lambda>_. 0), next_object = 0\<rparr>"

definition sample_history :: "realm_op list" where
  "sample_history = [NewContext sample_context, StartThread 1, NewContext sample_context, DeleteContext [] 1]"

lemma sample_history_runs: "\<exists>w. realm_run sample_history (new_realm 4) = Inr w"
proof -
  obtain w1 where w1: "Context_new sample_context (new_realm 4) = Inr (0, w1)" "realm_ok {} w1"
    using realm_ok_Context_new [OF realm_ok_new [of 4], of sample_context] by (auto simp: Context_new_eq new_realm_def)
  obtain s1 where s1: "thread_start 1 w1 = Inr (w1\<lparr>rl_sched := s1\<rparr>)" "realm_ok {} (w1\<lparr>rl_sched := s1\<rparr>)"
    using thread_start_eq [OF w1(2), of 1] by metis
  let ?w2 = "w1\<lparr>rl_sched := s1\<rparr>"
  obtain a w3 where w3: "Context_new sample_context ?w2 = Inr (a, w3)" "rl_contexts w3 1 \<noteq> None"
    using w1(1) by (auto simp: Context_new_eq new_realm_def)
  then obtain p w4 where w4: "Context_delete [] 1 w3 = Inr (p, w4)" by (auto simp: Context_delete_def)
  have "realm_run sample_history (new_realm 4) = Inr w4"
    unfolding sample_history_def realm_run.simps realm_step.simps w1(1) rbind_simps prod.case s1(1) w3(1) w4 ..
  then show ?thesis ..
qed

theorem thread_start_after_history_witness:
  "\<exists>w. realm_run sample_history (new_realm 4) = Inr w \<and> thread_start 2 w = Inl (UB ''use of a deleted context'')"
proof -
  obtain w where w: "realm_run sample_history (new_realm 4) = Inr w" using sample_history_runs by blast
  have "DeleteContext [] 1 \<in> set sample_history" by (simp add: sample_history_def)
  with thread_start_after_history [OF w, of 2] w show ?thesis by (metis (full_types))
qed

section \<open>A context of one's own\<close>

text \<open>What \<open>put\<close> of the engine does on a plain global object: it sets one own property and nothing else.\<close>

definition plain_put :: "string \<Rightarrow> jsval \<Rightarrow> nx_context \<Rightarrow> nx_context" where
  "plain_put n x c = c\<lparr>own_property := (own_property c)(n \<mapsto> x)\<rparr>"

lemma copy_overrides_plain:
  assumes "\<forall>n \<in> set ns. GetProperty en v n = Inr (get n)"
  shows "copy_overrides en plain_put v ns c =
    Inr (c\<lparr>own_property := (\<lambda>n. if n \<in> set ns then Some (get n) else own_property c n)\<rparr>)"
  using assms
proof (induction ns arbitrary: c)
  case Nil
  then show ?case by simp
next
  case (Cons n ns)
  let ?g = "\<lambda>c m. if m \<in> set ns then Some (get m) else own_property c m"
  have "copy_overrides en plain_put v (n # ns) c = copy_overrides en plain_put v ns (plain_put n (get n) c)"
    using Cons.prems by simp
  also have "\<dots> = Inr ((plain_put n (get n) c)\<lparr>own_property := ?g (plain_put n (get n) c)\<rparr>)"
    using Cons by simp
  also have "(plain_put n (get n) c)\<lparr>own_property := ?g (plain_put n (get n) c)\<rparr> =
    c\<lparr>own_property := ?g (plain_put n (get n) c)\<rparr>" by (simp add: plain_put_def)
  also have "?g (plain_put n (get n) c) = (\<lambda>m. if m \<in> set (n # ns) then Some (get m) else own_property c m)"
    by (auto simp: plain_put_def)
  finally show ?case .
qed

text \<open>An engine for examples: strings and numbers convert to themselves, other values do not convert.\<close>

definition sample_engine :: engine where
  "sample_engine = \<lparr>ToNumber = (\<lambda>v. case v of Number n \<Rightarrow> Inr n | _ \<Rightarrow> Inl Null),
     ToString = (\<lambda>v. case v of String s \<Rightarrow> Inr s | _ \<Rightarrow> Inl Null), Stringify = (\<lambda>v n. Inl Null),
     GetProperty = (\<lambda>v n. Inr (String n)), TypeErr = Undefined, CallFunction = (\<lambda>f as. Inr Undefined),
     IsFunction = (\<lambda>v. False)\<rparr>"

text \<open>
  \<open>new Nexus.Context(overrides)\<close> makes a context at a new address with no globals of its own, whose global object
  has the properties of the argument in place of or beside its own; the other contexts, the protect counts and the
  queue of tasks are as before, and one initialisation task more is waiting for new threads.
\<close>

theorem Context_Constructor_isolates:
  assumes "JSValueGetType v = kObject" "\<forall>n \<in> set (names v). GetProperty en v n = Inr (get n)"
  shows "\<exists>w'. Context_Constructor en names plain_put fresh (v # as) p w = Inr ((NativeContext (rl_next w), None), p, w') \<and>
    rl_contexts w' = (rl_contexts w)(rl_next w \<mapsto> fresh\<lparr>myGlobals := Map.empty,
      own_property := (\<lambda>n. if n \<in> set (names v) then Some (get n) else own_property fresh n)\<rparr>) \<and>
    rl_next w' = Suc (rl_next w) \<and> myTaskQueue (rl_sched w') = myTaskQueue (rl_sched w) \<and>
    myThreadInitQueue (rl_sched w') = myThreadInitQueue (rl_sched w) @ [nextTask (rl_sched w)]"
proof -
  have "own_property (fresh\<lparr>myGlobals := Map.empty\<rparr>) = own_property fresh" by simp
  then have "copy_overrides en plain_put v (names v) (fresh\<lparr>myGlobals := Map.empty\<rparr>) = Inr (fresh\<lparr>myGlobals := Map.empty,
      own_property := (\<lambda>n. if n \<in> set (names v) then Some (get n) else own_property fresh n)\<rparr>)"
    using copy_overrides_plain [OF assms(2), of "fresh\<lparr>myGlobals := Map.empty\<rparr>"] by (simp only:)
  with assms(1) show ?thesis
    by (simp add: Context_Constructor_def Object_new_def Object_attach_def Object_destroy_def Object_clear_def
        Classes_Context_def Context_new_eq Let_def)
qed

theorem Context_Constructor_isolates_witness:
  "\<exists>w'. Context_Constructor sample_engine (\<lambda>v. [''print'']) plain_put sample_context [Object 3] (\<lambda>_. 0) (new_realm 4) =
      Inr ((NativeContext 0, None), (\<lambda>_. 0), w') \<and>
    own_property (the (rl_contexts w' 0)) ''print'' = Some (String ''print'')"
proof -
  have "rl_next (new_realm 4) = 0" by (simp add: new_realm_def)
  then show ?thesis
    using Context_Constructor_isolates [of "Object 3" "\<lambda>v. [''print'']" sample_engine String sample_context "[]" "\<lambda>_. 0"
        "new_realm 4"]
    by (auto simp: sample_engine_def)
qed

text \<open>
  \<open>eval\<close>: with a context as \<open>this\<close> and arguments that convert, the script runs in that context under the file name
  (none when it is absent or empty) and from the line given (0 when it is absent, otherwise rounded down), and its
  value or its exception comes back; source and file name end at their first NUL. A source that does not convert is an error and nothing runs. Without arguments,
  and whenever \<open>this\<close> is not a context, the behaviour is undefined.
\<close>

theorem Context_eval_outcome:
  assumes "Value_toString en src = Inr s" "Value_toString en file = Inr f" "Value_toNumber en line = Inr (Fin r)"
    "0 \<le> r" "r < 2 ^ 32" "rl_contexts w a \<noteq> None" "ToString en bad = Inl e"
  defines "outcome \<equiv> \<lambda>(r, w1). Inr ((case r of Inl e \<Rightarrow> (Undefined, Some e) | Inr v \<Rightarrow> (v, None)), w1)"
    and "name \<equiv> (if f = [] then None else Some (ScopedString f))"
  shows "Context_eval en evaluate (NativeContext a) [src] w = outcome (evaluate a (ScopedString s) None 0 w) \<and>
    Context_eval en evaluate (NativeContext a) [src, file] w = outcome (evaluate a (ScopedString s) name 0 w) \<and>
    Context_eval en evaluate (NativeContext a) (src # file # line # rest) w = outcome (evaluate a (ScopedString s) name \<lfloor>r\<rfloor> w) \<and>
    Context_eval en evaluate this (bad # rest) w = Inr ((Undefined, Some (ErrorObj ''could not convert value to string'')), w) \<and>
    Context_eval en evaluate this [] w = Inl (UB ''read past the end of the arguments'') \<and>
    Context_eval en evaluate NoPrivate [src] w = Inl (UB ''null this'') \<and>
    Context_eval en evaluate (OtherNative c) [src] w = Inl (UB ''cast to another class'')"
proof -
  have "to_integer 0 (2 ^ 32 - 1) (Fin r) = Inr \<lfloor>r\<rfloor>"
    using assms(4,5) by (simp add: to_integer_def trunc_def floor_less_iff)
  with assms(1-7) show ?thesis
    by (simp add: Context_eval_def eval_arguments_def evaluateScript_def outcome_def name_def Value_toString_def
        split: prod.split sum.splits)
qed

theorem Context_eval_outcome_witness:
  "Context_eval sample_engine (\<lambda>a s f l w. (Inr (String s), w)) (NativeContext 2) [String ''1'', String ''a.js'', Number (Fin 7)]
     ((new_realm 4)\<lparr>rl_contexts := [2 \<mapsto> sample_context]\<rparr>) =
   Inr ((String ''1'', None), (new_realm 4)\<lparr>rl_contexts := [2 \<mapsto> sample_context]\<rparr>)"
  using Context_eval_outcome [of sample_engine "String ''1''" "''1''" "String ''a.js''" "''a.js''" "Number (Fin 7)" 7
      "(new_realm 4)\<lparr>rl_contexts := [2 \<mapsto> sample_context]\<rparr>" 2 Undefined Null "\<lambda>a s f l w. (Inr (String s), w)" "[]"]
  by (simp add: sample_engine_def Value_toString_def Value_toNumber_def ScopedString_def)

end
