(* ===== verification/NexusMain.thy ===== *)
theory NexusMain
  imports SchedulerProps MainLoop Objects
begin

text \<open>
  The program (\<open>src/nexus.cpp\<close>): the command line, the entry script, reporting exceptions, and \<open>run\<close>, which
  starts the scheduler and waits for it.

  \<open>boost::program_options\<close> and \<open>boost::filesystem\<close> are outside the sources: \<open>parsed\<close> is what the parser gives
  (\<open>Inl\<close> the error it throws), \<open>absolute\<close> and \<open>exists\<close> the two functions of the file system.
\<close>

section \<open>The command line\<close>

record options =
  opt_help :: bool
  opt_version :: bool
  opt_concurrency :: usize
  opt_loaders :: "string list"
  opt_module :: "string option"

record nexus =
  myScriptPath :: string
  myScriptLoaders :: "string list"
  myExitStatus :: int

definition new_Nexus :: nexus where
  "new_Nexus = \<lparr>myScriptPath = [], myScriptLoaders = [], myExitStatus = 0\<rparr>"

text \<open>\<open>parseArguments\<close>: whether the program is to end here.\<close>

definition parseArguments ::
  "(string \<Rightarrow> string) \<Rightarrow> (string \<Rightarrow> bool) \<Rightarrow> nat \<Rightarrow> string + options \<Rightarrow> nexus \<Rightarrow> (bool \<times> nexus) res" where
  "parseArguments absolute exists argc parsed n =
     (case parsed of
        Inl m \<Rightarrow> Inl (Exn m)
      | Inr opts \<Rightarrow>
          if argc \<le> 1 \<or> opt_help opts then Inr (True, n)
          else if opt_version opts then Inr (True, n)
          else
            (case opt_module opts of
               None \<Rightarrow> Inl (Exn ''boost::bad_any_cast: failed conversion using boost::any_cast'')
             | Some m \<Rightarrow>
                 (let n1 = n\<lparr>myScriptPath := absolute m,
                             myScriptLoaders := (if opt_loaders opts \<noteq> [] then opt_loaders opts else myScriptLoaders n)\<rparr>
                  in Inr (\<not> exists (myScriptPath n1), n1))))"

text \<open>
  What it prints, on the output and the error stream; \<open>ver\<close> is the version the build defines, \<open>desc\<close> the list of options
  as the parser prints it.
\<close>

definition parse_output ::
  "string \<Rightarrow> string \<Rightarrow> (string \<Rightarrow> string) \<Rightarrow> (string \<Rightarrow> bool) \<Rightarrow> nat \<Rightarrow> options \<Rightarrow> string list \<times> string list" where
  "parse_output ver desc absolute exists argc opts =
     (if argc \<le> 1 \<or> opt_help opts then
        ([''Nexus.js - The next-gen JavaScript platform'', ''Version: '' @ ver, [], desc], [])
      else if opt_version opts then ([ver], [])
      else
        (case opt_module opts of
           None \<Rightarrow> ([], [])
         | Some m \<Rightarrow> ([], if exists (absolute m) then [] else [''file not found: '' @ absolute m])))"

section \<open>The entry script\<close>

fun digits :: "nat \<Rightarrow> string" where
  "digits n = (if n < 10 then [char_of (48 + n)] else digits (n div 10) @ [char_of (48 + n mod 10)])"

declare digits.simps [simp del]

definition quote :: "string \<Rightarrow> string" where
  "quote s = CHR 0x22 # s @ [CHR 0x22]"

definition entry_script :: "string list \<Rightarrow> string \<Rightarrow> string" where
  "entry_script loaders scriptPath =
     concat (map (\<lambda>(i, l). ''import { resolve as resolve'' @ digits i @ '' } from '' @ quote l @ '';'' @ [CHR 0x0A])
               (enumerate 0 loaders)) @
     concat (map (\<lambda>i. ''Nexus.Module.registerResolver(resolve'' @ digits i @ '');'' @ [CHR 0x0A]) [0..<length loaders]) @
     ''import '' @ quote scriptPath @ '';'' @ [CHR 0x0A]"

section \<open>Reporting\<close>

text \<open>
  What \<open>ReportException\<close> writes to the error stream. A property that cannot be read throws, and then only the
  text of that exception is written. \<open>to_boolean\<close> is the engine's conversion.
\<close>

definition report_lines :: "string list \<Rightarrow> string" where
  "report_lines ls = concat (map (\<lambda>l. l @ [CHR 0x0A]) ls)"

definition read_property :: "engine \<Rightarrow> jsval \<Rightarrow> string \<Rightarrow> jsval res" where
  "read_property en v name =
     (case GetProperty en v name of
        Inl e \<Rightarrow> rbind (Value_toString en e) (\<lambda>m. Inl (Exn m))
      | Inr x \<Rightarrow> Inr x)"

definition report_object :: "engine \<Rightarrow> (jsval \<Rightarrow> bool) \<Rightarrow> jsval \<Rightarrow> string list res" where
  "report_object en to_boolean v =
     rbind (read_property en v ''sourceURL'') (\<lambda>sourceURL.
     rbind (read_property en v ''line'') (\<lambda>line.
     rbind (read_property en v ''message'') (\<lambda>message.
     rbind (read_property en v ''stack'') (\<lambda>stack.
     rbind (read_property en v ''name'') (\<lambda>name.
     rbind (if to_boolean name then Value_toString en name else Inr ''Exception'') (\<lambda>n.
     rbind (Value_toString en sourceURL) (\<lambda>u.
     rbind (Value_toString en line) (\<lambda>l.
     rbind (Value_toString en message) (\<lambda>m.
     rbind (Value_toString en stack) (\<lambda>st.
     Inr [[], ''Unhandled '' @ n @ '' in '' @ u @ '':'' @ l, m, ''Stack:'', st, []]))))))))))"

definition ReportException :: "engine \<Rightarrow> (jsval \<Rightarrow> bool) \<Rightarrow> jsval \<Rightarrow> string res" where
  "ReportException en to_boolean v =
     (let text =
        (if JSValueGetType v \<noteq> kObject then
           rbind (Value_toString en v) (\<lambda>s. Inr [[], ''Unhandled exception: '' @ s, []])
         else report_object en to_boolean v)
      in case text of
           Inr ls \<Rightarrow> Inr (report_lines ls)
         | Inl (Exn m) \<Rightarrow> Inr (report_lines [''An exception occurred: '' @ m])
         | Inl x \<Rightarrow> Inl x)"

definition ReportException_std :: "string \<Rightarrow> string" where
  "ReportException_std m = report_lines [[], m]"

definition ReportSyntaxError :: "string \<Rightarrow> nat \<Rightarrow> string \<Rightarrow> string" where
  "ReportSyntaxError origin line message = report_lines [[], ''at '' @ origin @ '':'' @ digits line, message]"

text \<open>
  The hook of the engine for promises (\<open>src/global_object.cpp\<close>): it is called when a promise is rejected without a
  handler and again when such a promise gets one; it does not look at which.
\<close>

datatype rejection_operation = RejectOperation | HandleOperation

definition promiseRejectionTracker :: "engine \<Rightarrow> (jsval \<Rightarrow> bool) \<Rightarrow> jsval \<Rightarrow> rejection_operation \<Rightarrow> string res" where
  "promiseRejectionTracker en to_boolean result operation = ReportException en to_boolean result"

text \<open>\<open>moduleLoaderEvaluate\<close>: a value that is no module record is skipped.\<close>

definition moduleLoaderEvaluate :: "('r \<Rightarrow> jsval + jsval) \<Rightarrow> 'r option \<Rightarrow> jsval + jsval" where
  "moduleLoaderEvaluate evaluate moduleRecord = (case moduleRecord of None \<Rightarrow> Inr Undefined | Some r \<Rightarrow> evaluate r)"

section \<open>run\<close>

definition initScheduler :: "options \<Rightarrow> sched" where
  "initScheduler opts = new_scheduler (opt_concurrency opts)"

text \<open>\<open>Context::create\<close> schedules the task \<open>w\<close> that registers every worker with the engine.\<close>

definition Context_create :: "nat \<Rightarrow> sched \<Rightarrow> sched res" where
  "Context_create w s = rbind (scheduleThreadInitTask (Some [Host w]) s) (\<lambda>(t, s1). Inr s1)"

text \<open>
  \<open>Context::evaluateModule\<close>: a null promise (\<open>None\<close>) for a syntax error, otherwise what the engine does with
  the module: it may schedule tasks, and its promise settles before the pool is joined or not at all.
\<close>

definition Context_evaluateModule ::
  "(string \<Rightarrow> string \<Rightarrow> bool) \<Rightarrow> (string \<Rightarrow> string \<Rightarrow> sched \<Rightarrow> settle option \<times> sched) \<Rightarrow>
   string \<Rightarrow> string \<Rightarrow> sched \<Rightarrow> (settle option \<times> sched) option" where
  "Context_evaluateModule checkModuleSyntax loadAndEvaluateModule src path s =
     (if checkModuleSyntax src path then Some (loadAndEvaluateModule src path s) else None)"

text \<open>The status after the handlers of the promise have run.\<close>

definition exit_status :: "settle option \<Rightarrow> nexus \<Rightarrow> int" where
  "exit_status outcome n =
     (case outcome of None \<Rightarrow> myExitStatus n | Some (Resolved v) \<Rightarrow> 0 | Some (Rejected e) \<Rightarrow> 1)"

definition run_body ::
  "(string \<Rightarrow> string \<Rightarrow> sched \<Rightarrow> (settle option \<times> sched) option) \<Rightarrow>
   (sched \<Rightarrow> bool \<times> sched) \<Rightarrow> (sched \<Rightarrow> sched) \<Rightarrow> nat \<Rightarrow> nat \<Rightarrow> options \<Rightarrow> nexus \<Rightarrow> int res option" where
  "run_body evaluateModule poll_one drainCb th w opts n =
     (case Context_create w (initScheduler opts) of
        Inl x \<Rightarrow> Some (Inl x)
      | Inr s0 \<Rightarrow>
          (case evaluateModule (entry_script (myScriptLoaders n) (myScriptPath n)) (myScriptPath n @ ''[entry]'') s0 of
             None \<Rightarrow> Some (Inl (UB ''null promise''))
           | Some (outcome, s1) \<Rightarrow>
               (case start s1 of
                  Inl x \<Rightarrow> Some (Inl x)
                | Inr s2 \<Rightarrow>
                    (case joinPool poll_one drainCb th s2 of
                       None \<Rightarrow> None
                     | Some (Inl x) \<Rightarrow> Some (Inl x)
                     | Some (Inr s3) \<Rightarrow> Some (Inr (exit_status outcome n))))))"

text \<open>
  \<open>run\<close>: the exit status of the process; an exception is reported and gives 1. \<open>None\<close> when \<open>joinPool\<close> does not
  return.
\<close>

definition run ::
  "(string \<Rightarrow> string) \<Rightarrow> (string \<Rightarrow> bool) \<Rightarrow> (string \<Rightarrow> string \<Rightarrow> sched \<Rightarrow> (settle option \<times> sched) option) \<Rightarrow>
   (sched \<Rightarrow> bool \<times> sched) \<Rightarrow> (sched \<Rightarrow> sched) \<Rightarrow> nat \<Rightarrow> nat \<Rightarrow> nat \<Rightarrow> string + options \<Rightarrow> nexus \<Rightarrow> int res option" where
  "run absolute exists evaluateModule poll_one drainCb th w argc parsed n =
     (case parseArguments absolute exists argc parsed n of
        Inl (Exn m) \<Rightarrow> Some (Inr 1)
      | Inl x \<Rightarrow> Some (Inl x)
      | Inr (True, n1) \<Rightarrow> Some (Inr 0)
      | Inr (False, n1) \<Rightarrow>
          (case parsed of
             Inl m \<Rightarrow> Some (Inr 1)
           | Inr opts \<Rightarrow>
               (case run_body evaluateModule poll_one drainCb th w opts n1 of
                  Some (Inl (Exn m)) \<Rightarrow> Some (Inr 1)
                | r \<Rightarrow> r)))"

section \<open>main\<close>

text \<open>
  The process before \<open>run\<close>: two signals are ignored, so that a write to a broken connection is an error of the write
  and nothing else; a locale the C library does not know is logged; the memory cage of the engine is switched off where
  it can be. \<open>locale_ok\<close>, \<open>cage\<close> and \<open>wasm\<close> are what the C library and the engine answer.
\<close>

record process =
  pr_ignored :: "string list"
  pr_log :: "string list"
  pr_caged :: bool
  pr_started :: "string list"

definition main_setup :: "bool \<Rightarrow> bool \<Rightarrow> bool \<Rightarrow> process" where
  "main_setup locale_ok cage wasm =
     \<lparr>pr_ignored = [''SIGALRM'', ''SIGPIPE''],
      pr_log = (if locale_ok then [] else [''Locale not supported by C library.'' @ [CHR 0x0A, CHR 0x09] @ ''Using the fallback 'C' locale.'']),
      pr_caged = (\<not> cage),
      pr_started = [''WTF::initializeMainThread'', ''WTF::initializeThreading'', ''JSC::initializeThreading''] @
        (if wasm then [''JSC::Wasm::enableFastMemory''] else [])\<rparr>"

definition main ::
  "bool \<Rightarrow> bool \<Rightarrow> bool \<Rightarrow> (process \<Rightarrow> nexus \<Rightarrow> int res option) \<Rightarrow> process \<times> int res option" where
  "main locale_ok cage wasm running =
     (let p = main_setup locale_ok cage wasm in (p, running p new_Nexus))"

text \<open>A script that does not exist is reported, but the program ends with the status of success.\<close>

lemma missing_script_exits_with_success:
  assumes "1 < argc" "\<not> opt_help o1" "\<not> opt_version o1" "opt_module o1 = Some m" "\<not> exists (absolute m)"
  shows "run absolute exists ev poll cb th w argc (Inr o1) new_Nexus = Some (Inr 0)"
    and "parse_output ver desc absolute exists argc o1 = ([], [''file not found: '' @ absolute m])"
    and "snd (main locale_ok cage wasm (\<lambda>p. run absolute exists ev poll cb th w argc (Inr o1))) = Some (Inr 0)"
  using assms by (simp_all add: run_def parseArguments_def parse_output_def main_def Let_def)

text \<open>
  A path with a quotation mark ends the string of the import early; the null promise of the syntax error is
  then dereferenced.
\<close>

lemma syntax_error_dereferences_null:
  assumes "parseArguments absolute exists argc (Inr o1) n = Inr (False, n1)"
    and "\<not> check (entry_script (myScriptLoaders n1) (myScriptPath n1)) (myScriptPath n1 @ ''[entry]'')"
  shows "run absolute exists (Context_evaluateModule check load) poll cb th w argc (Inr o1) n
    = Some (Inl (UB ''null promise''))"
  using assms
  by (simp add: run_def run_body_def Context_evaluateModule_def Context_create_def scheduleThreadInitTask_def
      split: prod.split)

text \<open>A rejected entry module ends the program with status 1, and only that; a resolved one with status 0.\<close>

lemma run_status:
  assumes "parseArguments absolute exists argc (Inr o1) n = Inr (False, n1)"
    and "Context_create w (initScheduler o1) = Inr s0"
    and "ev (entry_script (myScriptLoaders n1) (myScriptPath n1)) (myScriptPath n1 @ ''[entry]'') s0 = Some (outcome, s1)"
    and "start s1 = Inr s2" "joinPool poll cb th s2 = Some (Inr s3)"
  shows "run absolute exists ev poll cb th w argc (Inr o1) n = Some (Inr (exit_status outcome n1))"
  using assms by (simp add: run_def run_body_def)

lemma entry_script_example:
  "entry_script [''l.js''] ''/a.js'' =
    ''import { resolve as resolve0 } from '' @ quote ''l.js'' @ '';'' @ [CHR 0x0A] @
    ''Nexus.Module.registerResolver(resolve0);'' @ [CHR 0x0A] @ ''import '' @ quote ''/a.js'' @ '';'' @ [CHR 0x0A]"
  by code_simp

text \<open>A rejected promise that is handled later is reported twice, the second time when it is no longer unhandled.\<close>

lemma handled_rejection_reported:
  "JSValueGetType v \<noteq> kObject \<Longrightarrow> Value_toString en v = Inr s \<Longrightarrow>
    promiseRejectionTracker en to_boolean v HandleOperation = Inr (report_lines [[], ''Unhandled exception: '' @ s, []])"
  by (simp add: promiseRejectionTracker_def ReportException_def)

section \<open>A program that ends\<close>

lemma loop_ok_cong:
  assumes "loop_ok th armed s" "heap s' = heap s" "myTaskQueue s' = myTaskQueue s" "nextTask s' = nextTask s"
    "myHoldCount s' = myHoldCount s" "myTaskCount s' = myTaskCount s" "myPauseTasks s' = myPauseTasks s"
    "config s' = config s"
  shows "loop_ok th armed s'"
proof -
  have c: "myThreadInitQueue s' = myThreadInitQueue s" "myServiceStopped s' = myServiceStopped s"
    using assms(8) by (simp_all add: config_def)
  have "armed_task s' = armed_task s" by (simp add: armed_task_def assms c fun_eq_iff split: option.split)
  then have "armed s' = armed s" "held s' = held s" "plain_init s' = plain_init s"
    by (simp_all add: armed_def held_def plain_init_def assms fun_eq_iff)
  with assms c show ?thesis
    by (auto simp: loop_ok_def drainable_def drain_ok_def release_current_def hold_inv_def)
qed

text \<open>The scheduler after the main context has been created.\<close>

definition context_sched :: "nat \<Rightarrow> options \<Rightarrow> sched" where
  "context_sched w opts = (initScheduler opts)\<lparr>heap := [0 \<mapsto> spawned TaskK False [Host w]], nextTask := 1,
     myThreadInitQueue := [0]\<rparr>"

lemma Context_create_eq: "Context_create w (initScheduler opts) = Inr (context_sched w opts)"
  by (simp add: Context_create_def scheduleThreadInitTask_def new_task_def Holder_def Let_def initScheduler_def
      new_scheduler_def context_sched_def spawned_def)


definition sample_options :: options where
  "sample_options = \<lparr>opt_help = False, opt_version = False, opt_concurrency = 2, opt_loaders = [''l.js''],
     opt_module = Some ''a.js''\<rparr>"

text \<open>A module that sets a timeout and throws.\<close>

definition sample_module :: "string \<Rightarrow> string \<Rightarrow> sched \<Rightarrow> (settle option \<times> sched) option" where
  "sample_module src path s =
     (case scheduleTask_timed 3 (Some [Host 5]) s of
        Inr (t, s1) \<Rightarrow> Some (Some (Rejected (ErrorObj ''boom'')), s1)
      | Inl x \<Rightarrow> None)"

definition sample_end :: sched where
  "sample_end = (context_sched 4 sample_options)\<lparr>nextTask := 2, myHoldCount := 1,
     heap := [0 \<mapsto> spawned TaskK False [Host 4],
              1 \<mapsto> (spawned TaskK True [Host 5])\<lparr>myCancellationHandlers := [CancelTimer 3]\<rparr>]\<rparr>"

lemma sample_module_end:
  "sample_module src path (context_sched 4 sample_options) = Some (Some (Rejected (ErrorObj ''boom'')), sample_end)"
  by (simp add: sample_module_def scheduleTask_timed_def scheduleTimed_def new_task_def Let_def Holder_def hold_def
      addCancellationHandler_def with_task_def context_sched_def initScheduler_def new_scheduler_def sample_end_def
      spawned_def fun_upd_twist)

lemma sample_end_ok: "loop_ok 0 armed (sample_end\<lparr>myServiceStopped := False\<rparr>)"
proof -
  let ?s = "sample_end\<lparr>myServiceStopped := False\<rparr>"
  have h: "heap sample_end t = (if t = 0 then Some (spawned TaskK False [Host 4]) else if t = 1 then
      Some ((spawned TaskK True [Host 5])\<lparr>myCancellationHandlers := [CancelTimer 3]\<rparr>) else None)" for t
    by (simp add: sample_end_def)
  have f: "myTaskQueue sample_end = []" "myThreadInitQueue sample_end = [0]" "myHoldCount sample_end = 1"
    "nextTask sample_end = 2" "myTaskCount sample_end = 0" "\<not> myPauseTasks sample_end"
    by (simp_all add: sample_end_def context_sched_def initScheduler_def new_scheduler_def)
  have held: "held ?s = {1}" by (auto simp: held_def h spawned_def split: if_splits)
  have "armed_task ?s t \<longleftrightarrow> t = 1" for t by (simp add: armed_task_def h f spawned_def)
  then have armed: "armed ?s = {1}" by (simp add: armed_def)
  have dom: "dom (heap ?s) \<subseteq> {..<2}" by (auto simp: h split: if_splits)
  have "drain_ok 0 (release_current 0 ?s) []"
    using f dom by (simp add: drain_ok_def) (simp add: release_current_def)
  moreover have "plain_init ?s 0" by (auto simp: plain_init_def h spawned_def intro: exI [of _ "[4]"])
  ultimately show ?thesis
    using f held armed dom by (auto simp: loop_ok_def drainable_def hold_inv_def)
qed

lemma sample_end_stopped: "myServiceStopped sample_end"
  by (simp add: sample_end_def context_sched_def initScheduler_def new_scheduler_def)


end
