(* ===== verification/Namespaces.thy ===== *)
theory Namespaces
  imports Contexts NexusMain
begin

text \<open>
  Global objects and the namespace \<open>Nexus\<close> (\<open>src/context.cpp\<close>, \<open>src/global_object.cpp\<close>, \<open>src/globals/global.cpp\<close>,
  \<open>src/classes/io/stream.cpp\<close>): how a context makes its global object and is found again from a call of a script, the
  tables of static properties, and what reading them does when several contexts live in one program.
\<close>

section \<open>Global objects\<close>

text \<open>
  \<open>GlobalObject\<close> as the code sees it: the class and the prototype the engine gives it, the pointer to the program and
  the private pointer to the context, an address that nothing clears when the context is deleted.
\<close>

record global_object =
  go_class :: string
  go_prototype :: "jsval option"
  go_nexus :: bool
  go_private :: "nat option"

definition new_GlobalObject :: "string \<Rightarrow> global_object" where
  "new_GlobalObject cls = \<lparr>go_class = cls, go_prototype = None, go_nexus = False, go_private = None\<rparr>"

text \<open>
  The program with its contexts, the virtual machine of each context, its global object and the heap of global
  objects.
\<close>

record world =
  wd_realm :: realm
  wd_vm :: "nat \<Rightarrow> nat option"
  wd_global :: "nat \<Rightarrow> nat option"
  wd_objects :: "nat \<Rightarrow> global_object option"
  wd_next_vm :: nat
  wd_next_object :: nat

definition new_world :: "usize \<Rightarrow> world" where
  "new_world maxThreads = \<lparr>wd_realm = new_realm maxThreads, wd_vm = Map.empty, wd_global = Map.empty,
     wd_objects = Map.empty, wd_next_vm = 0, wd_next_object = 0\<rparr>"

text \<open>\<open>prototype\<close> is the prototype of the class in the engine; without one it is \<open>null\<close>.\<close>

definition createGlobalObject :: "jsval option \<Rightarrow> nat \<Rightarrow> world \<Rightarrow> nat \<times> world" where
  "createGlobalObject prototype this w =
     (let g = wd_next_object w;
          ob = (new_GlobalObject ''Global'')
            \<lparr>go_prototype := Some (case prototype of None \<Rightarrow> Null | Some v \<Rightarrow> v), go_nexus := True, go_private := Some this\<rparr>
      in (g, w\<lparr>wd_objects := (wd_objects w)(g \<mapsto> ob), wd_next_object := Suc g\<rparr>))"

definition toJSContext :: "nat \<Rightarrow> world \<Rightarrow> nat option" where
  "toJSContext a w = wd_global w a"

definition FromJsContext :: "nat \<Rightarrow> world \<Rightarrow> nat option" where
  "FromJsContext g w = (case wd_objects w g of None \<Rightarrow> None | Some ob \<Rightarrow> go_private ob)"

definition globalThisValue :: "nat \<Rightarrow> world \<Rightarrow> jsval res" where
  "globalThisValue a w = (case wd_global w a of None \<Rightarrow> Inl (UB ''null pointer'') | Some g \<Rightarrow> Inr (Object g))"

text \<open>
  The constructor: the task for new threads first, then the global object. \<open>create\<close> makes a virtual machine of its own,
  \<open>clone\<close> shares that of the context it is called on.
\<close>

definition Context_make :: "nat \<Rightarrow> nx_context \<Rightarrow> jsval option \<Rightarrow> world \<Rightarrow> (nat \<times> world) res" where
  "Context_make vm fresh prototype w =
     rbind (Context_new fresh (wd_realm w)) (\<lambda>(a, r).
     let (g, w1) = createGlobalObject prototype a (w\<lparr>wd_realm := r\<rparr>)
     in Inr (a, w1\<lparr>wd_vm := (wd_vm w1)(a \<mapsto> vm), wd_global := (wd_global w1)(a \<mapsto> g)\<rparr>))"

definition create :: "nx_context \<Rightarrow> jsval option \<Rightarrow> world \<Rightarrow> (nat \<times> world) res" where
  "create fresh prototype w = Context_make (wd_next_vm w) fresh prototype (w\<lparr>wd_next_vm := Suc (wd_next_vm w)\<rparr>)"

definition clone :: "nx_context \<Rightarrow> jsval option \<Rightarrow> nat \<Rightarrow> world \<Rightarrow> (nat \<times> world) res" where
  "clone fresh prototype this w =
     (if rl_contexts (wd_realm w) this = None then Inl (UB ''use of a deleted context'')
      else case wd_vm w this of
        None \<Rightarrow> Inl (UB ''null pointer'')
      | Some vm \<Rightarrow> Context_make vm fresh prototype w)"

text \<open>\<open>garbageCollect\<close> collects in the virtual machine and returns the size of the heap; \<open>collect\<close> is the engine's.\<close>

definition garbageCollect :: "(nat \<Rightarrow> 'h \<Rightarrow> nat \<times> 'h) \<Rightarrow> nat \<Rightarrow> world \<Rightarrow> 'h \<Rightarrow> (nat \<times> 'h) res" where
  "garbageCollect collect this w h =
     (case wd_vm w this of None \<Rightarrow> Inl (UB ''null pointer'') | Some vm \<Rightarrow> Inr (collect vm h))"

section \<open>The tables\<close>

text \<open>
  The static properties of the global object and of \<open>Nexus\<close>: the rows of a namespace or a constructor are made at their
  first read, \<open>Module\<close> by a script; \<open>Context\<close>, \<open>Promise\<close> and \<open>Loader\<close> are not in the tables.
\<close>

datatype static_value = ThisGlobal | Version | Script | Lazy getter | FromScript string

definition GlobalProperties :: "(string \<times> static_value) list" where
  "GlobalProperties = [(''global'', ThisGlobal), (''Nexus'', Lazy Nexus_Get), (''console'', Lazy Console_Get)]"

definition NexusProperties :: "(string \<times> static_value) list" where
  "NexusProperties =
     [(''version'', Version), (''script'', Script), (''EventEmitter'', Lazy EventEmitter_Get), (''Scheduler'', Lazy Scheduler_Get),
      (''IO'', Lazy IO_Get), (''Net'', Lazy Net_Get), (''FileSystem'', Lazy FileSystem_Get), (''Module'', FromScript ''Nexus.Module'')]"

definition GlobalFunctions :: "string list" where
  "GlobalFunctions = [''setTimeout'', ''clearTimeout'']"

record js_class_def =
  className :: string
  staticValues :: "(string \<times> static_value) list"
  staticFunctions :: "string list"

definition InitGlobalClass :: js_class_def where
  "InitGlobalClass = \<lparr>className = ''Global'', staticValues = GlobalProperties, staticFunctions = GlobalFunctions\<rparr>"

definition NexusClass :: js_class_def where
  "NexusClass = \<lparr>className = ''Nexus'', staticValues = NexusProperties, staticFunctions = []\<rparr>"

text \<open>
  A read of a static property by a script that runs with the global object \<open>g\<close>; \<open>version\<close> is the version the build
  defines, \<open>moduleScript\<close> the value of the module script or its exception. \<open>None\<close>: the table has no such row.
\<close>

definition read_static ::
  "string \<Rightarrow> string \<Rightarrow> jsval + jsval \<Rightarrow> (jsval option \<Rightarrow> jsval + jsval) \<Rightarrow> js_class_def \<Rightarrow> string \<Rightarrow> nat \<Rightarrow> world \<Rightarrow>
   (jscall \<times> world) res option" where
  "read_static version scriptPath moduleScript to_object cls name g w =
     (case map_of (staticValues cls) name of
        None \<Rightarrow> None
      | Some p \<Rightarrow> Some
          (case FromJsContext g w of
             None \<Rightarrow> Inl (UB ''null pointer'')
           | Some a \<Rightarrow>
               (case rl_contexts (wd_realm w) a of
                  None \<Rightarrow> Inl (UB ''use of a deleted context'')
                | Some c \<Rightarrow>
                    (let put = (\<lambda>c'. w\<lparr>wd_realm := (wd_realm w)\<lparr>rl_contexts := (rl_contexts (wd_realm w))(a \<mapsto> c')\<rparr>\<rparr>) in
                     case p of
                       ThisGlobal \<Rightarrow> rbind (globalThisValue a w) (\<lambda>v. Inr ((v, None), w))
                     | Version \<Rightarrow> Inr ((String (ScopedString version), None), w)
                     | Script \<Rightarrow> Inr ((String (ScopedString scriptPath), None), w)
                     | Lazy gt \<Rightarrow> (case lazy_get gt c of (v, c') \<Rightarrow> Inr ((v, None), put c'))
                     | FromScript n \<Rightarrow> (case script_get n moduleScript to_object c of (r, c') \<Rightarrow> Inr (r, put c'))))))"

section \<open>Streams\<close>

text \<open>
  The constructors of the two stream classes are values of scripts in the binary. \<open>evaluated\<close> is the outcome of the
  script (\<open>Inl\<close>: it threw and gave a null value), \<open>to_object\<close> the conversion, of a null value too. An exception is
  reported and the property is a plain object instead.
\<close>

definition script_constructor ::
  "jsval + jsval \<Rightarrow> (jsval option \<Rightarrow> jsval + jsval) \<Rightarrow> jsval \<Rightarrow> jsval list \<times> jsval" where
  "script_constructor evaluated to_object plain =
     (let ctor = (case evaluated of Inl e \<Rightarrow> None | Inr v \<Rightarrow> Some v);
          exc = (case evaluated of Inl e \<Rightarrow> Some e | Inr v \<Rightarrow> None)
      in case to_object ctor of
           Inl e \<Rightarrow> ([e], plain)
         | Inr ob \<Rightarrow> (case exc of None \<Rightarrow> ([], ob) | Some e \<Rightarrow> ([e], plain)))"

definition ReadableStream_getConstructor ::
  "(string \<Rightarrow> jsval + jsval) \<Rightarrow> (jsval option \<Rightarrow> jsval + jsval) \<Rightarrow> jsval \<Rightarrow> jsval list \<times> jsval" where
  "ReadableStream_getConstructor evaluate to_object plain =
     script_constructor (evaluate ''readable_stream.js'') to_object plain"

definition WritableStream_getConstructor ::
  "(string \<Rightarrow> jsval + jsval) \<Rightarrow> (jsval option \<Rightarrow> jsval + jsval) \<Rightarrow> jsval \<Rightarrow> jsval list \<times> jsval" where
  "WritableStream_getConstructor evaluate to_object plain =
     script_constructor (evaluate ''writable_stream.js'') to_object plain"

section \<open>Histories\<close>

datatype world_op =
    WCreate nx_context "jsval option"
  | WClone nx_context "jsval option" nat
  | WDelete "string list" nat
  | WThread nat
  | WRead js_class_def string nat

fun world_step ::
  "string \<Rightarrow> string \<Rightarrow> jsval + jsval \<Rightarrow> (jsval option \<Rightarrow> jsval + jsval) \<Rightarrow> world_op \<Rightarrow> world \<Rightarrow> world res" where
  "world_step ver sp ms ob (WCreate fresh proto) w = rbind (create fresh proto w) (\<lambda>(a, w'). Inr w')"
| "world_step ver sp ms ob (WClone fresh proto a) w = rbind (clone fresh proto a w) (\<lambda>(a, w'). Inr w')"
| "world_step ver sp ms ob (WDelete keys a) w =
     rbind (Context_delete keys a (wd_realm w)) (\<lambda>(p, r). Inr (w\<lparr>wd_realm := r\<rparr>))"
| "world_step ver sp ms ob (WThread th) w = rbind (thread_start th (wd_realm w)) (\<lambda>r. Inr (w\<lparr>wd_realm := r\<rparr>))"
| "world_step ver sp ms ob (WRead cls name g) w =
     (case read_static ver sp ms ob cls name g w of
        None \<Rightarrow> Inr w
      | Some r \<Rightarrow> rbind r (\<lambda>(v, w'). Inr w'))"

fun world_run ::
  "string \<Rightarrow> string \<Rightarrow> jsval + jsval \<Rightarrow> (jsval option \<Rightarrow> jsval + jsval) \<Rightarrow> world_op list \<Rightarrow> world \<Rightarrow> world res" where
  "world_run ver sp ms ob [] w = Inr w"
| "world_run ver sp ms ob (c # cs) w = rbind (world_step ver sp ms ob c w) (world_run ver sp ms ob cs)"

text \<open>Every context that was ever made has a global object of its own that leads back to it.\<close>

definition linked :: "world \<Rightarrow> nat \<Rightarrow> bool" where
  "linked w a \<longleftrightarrow> (\<exists>g. toJSContext a w = Some g \<and> FromJsContext g w = Some a \<and> g < wd_next_object w) \<and>
     (\<exists>vm. wd_vm w a = Some vm \<and> vm < wd_next_vm w)"

definition world_ok :: "world \<Rightarrow> bool" where
  "world_ok w \<longleftrightarrow> (\<forall>a < rl_next (wd_realm w). linked w a) \<and> dom (wd_global w) = {..<rl_next (wd_realm w)} \<and>
     dom (rl_contexts (wd_realm w)) \<subseteq> {..<rl_next (wd_realm w)}"

lemma world_ok_new: "world_ok (new_world n)"
  by (simp add: world_ok_def new_world_def new_realm_def)

lemma Context_make_world_ok:
  assumes "world_ok w" "Context_make vm fresh proto w = Inr (a, w')" "vm < wd_next_vm w"
  shows "world_ok w' \<and> a = rl_next (wd_realm w) \<and> wd_vm w' a = Some vm"
proof -
  from assms(2) have a: "a = rl_next (wd_realm w)"
    and w': "rl_next (wd_realm w') = Suc a" "wd_global w' = (wd_global w)(a \<mapsto> wd_next_object w)"
      "wd_vm w' = (wd_vm w)(a \<mapsto> vm)" "wd_next_object w' = Suc (wd_next_object w)" "wd_next_vm w' = wd_next_vm w"
      "\<exists>ob. wd_objects w' = (wd_objects w)(wd_next_object w \<mapsto> ob) \<and> go_private ob = Some a"
      "\<exists>c. rl_contexts (wd_realm w') = (rl_contexts (wd_realm w))(a \<mapsto> c)"
    by (auto simp: Context_make_def createGlobalObject_def Context_new_eq Let_def)
  have "linked w' b" if "b < Suc a" for b
  proof (cases "b = a")
    case True
    with w' assms(3) show ?thesis by (auto simp: linked_def toJSContext_def FromJsContext_def)
  next
    case False
    with that assms(1) a have "linked w b" by (simp add: world_ok_def)
    with w' False show ?thesis by (fastforce simp: linked_def toJSContext_def FromJsContext_def split: option.splits)
  qed
  moreover have "dom (rl_contexts (wd_realm w')) = insert a (dom (rl_contexts (wd_realm w)))" using w'(7) by auto
  ultimately show ?thesis using assms(1) a w' by (auto simp: world_ok_def)
qed

lemma registerThreads_same: "registerThreads as w = Inr w' \<Longrightarrow> w' = w"
  by (induction as arbitrary: w) (auto simp: rbind_eq_Inr registerThread_def split: if_splits)

lemma thread_start_same:
  "thread_start th r = Inr r' \<Longrightarrow> rl_contexts r' = rl_contexts r \<and> rl_next r' = rl_next r"
  by (auto simp: thread_start_def rbind_eq_Inr Let_def dest!: registerThreads_same)

text \<open>What a read of a static property does to the world: at most the globals of the context that reads change.\<close>

lemma read_static_frame:
  assumes "read_static ver sp ms ob cls name g w = Some (Inr (r, w'))"
  shows "\<exists>a c c'. FromJsContext g w = Some a \<and> rl_contexts (wd_realm w) a = Some c \<and>
    w' = w\<lparr>wd_realm := (wd_realm w)\<lparr>rl_contexts := (rl_contexts (wd_realm w))(a \<mapsto> c')\<rparr>\<rparr>"
proof -
  from assms obtain a c where a: "FromJsContext g w = Some a" "rl_contexts (wd_realm w) a = Some c"
    by (auto simp: read_static_def split: option.splits)
  have same: "w = w\<lparr>wd_realm := (wd_realm w)\<lparr>rl_contexts := (rl_contexts (wd_realm w))(a \<mapsto> c)\<rparr>\<rparr>"
    using a(2) by (simp add: fun_upd_idem)
  show ?thesis
  proof (rule exI [of _ a], rule exI [of _ c])
    show "\<exists>c'. FromJsContext g w = Some a \<and> rl_contexts (wd_realm w) a = Some c \<and>
        w' = w\<lparr>wd_realm := (wd_realm w)\<lparr>rl_contexts := (rl_contexts (wd_realm w))(a \<mapsto> c')\<rparr>\<rparr>"
      using assms a same by (auto simp: read_static_def rbind_eq_Inr Let_def split: option.splits static_value.splits prod.splits)
  qed
qed

lemma linked_realm [simp]: "linked (w\<lparr>wd_realm := r\<rparr>) a = linked w a"
  by (simp add: linked_def toJSContext_def FromJsContext_def)

lemma world_ok_realm:
  assumes "world_ok w" "rl_next r = rl_next (wd_realm w)" "dom (rl_contexts r) \<subseteq> dom (rl_contexts (wd_realm w))"
  shows "world_ok (w\<lparr>wd_realm := r\<rparr>)"
proof -
  have "dom (rl_contexts r) \<subseteq> {..<rl_next (wd_realm w)}" using assms(1,3) unfolding world_ok_def by (meson subset_trans)
  with assms(1,2) show ?thesis by (simp add: world_ok_def)
qed

lemma world_ok_step:
  assumes "world_ok w" "world_step ver sp ms ob c w = Inr w'"
  shows "world_ok w'"
proof (cases c)
  case (WCreate fresh proto)
  with assms(2) obtain a where "Context_make (wd_next_vm w) fresh proto (w\<lparr>wd_next_vm := Suc (wd_next_vm w)\<rparr>) = Inr (a, w')"
    by (auto simp: create_def rbind_eq_Inr)
  moreover have "world_ok (w\<lparr>wd_next_vm := Suc (wd_next_vm w)\<rparr>)"
    using assms(1) by (fastforce simp: world_ok_def linked_def toJSContext_def FromJsContext_def)
  ultimately show ?thesis using Context_make_world_ok by fastforce
next
  case (WClone fresh proto b)
  with assms(2) obtain a vm where m: "Context_make vm fresh proto w = Inr (a, w')" "wd_vm w b = Some vm"
    "rl_contexts (wd_realm w) b \<noteq> None"
    by (auto simp: clone_def rbind_eq_Inr split: if_splits option.splits)
  then have "linked w b" using assms(1) by (auto simp: world_ok_def)
  with m(2) have "vm < wd_next_vm w" by (auto simp: linked_def)
  with Context_make_world_ok [OF assms(1) m(1)] show ?thesis by simp
next
  case (WDelete keys b)
  with assms(2) obtain c where "rl_contexts (wd_realm w) b = Some c"
    "w' = w\<lparr>wd_realm := (wd_realm w)\<lparr>rl_contexts := (rl_contexts (wd_realm w))(b := None)\<rparr>\<rparr>"
    by (auto simp: rbind_eq_Inr Context_delete_def split: option.splits)
  moreover have "dom ((rl_contexts (wd_realm w))(b := None)) \<subseteq> dom (rl_contexts (wd_realm w))" by auto
  ultimately show ?thesis using world_ok_realm [OF assms(1)] by simp
next
  case (WThread th)
  with assms(2) obtain r where "thread_start th (wd_realm w) = Inr r" "w' = w\<lparr>wd_realm := r\<rparr>"
    by (auto simp: rbind_eq_Inr)
  with thread_start_same [OF this(1)] world_ok_realm [OF assms(1), of r] show ?thesis by simp
next
  case (WRead cls name g)
  show ?thesis
  proof (cases "read_static ver sp ms ob cls name g w")
    case None
    with WRead assms show ?thesis by simp
  next
    case (Some r)
    with WRead assms(2) obtain v where "read_static ver sp ms ob cls name g w = Some (Inr (v, w'))"
      by (auto simp: rbind_eq_Inr)
    from read_static_frame [OF this] obtain a c c' where "rl_contexts (wd_realm w) a = Some c"
      "w' = w\<lparr>wd_realm := (wd_realm w)\<lparr>rl_contexts := (rl_contexts (wd_realm w))(a \<mapsto> c')\<rparr>\<rparr>" by blast
    moreover from this have "dom ((rl_contexts (wd_realm w))(a \<mapsto> c')) \<subseteq> dom (rl_contexts (wd_realm w))" by auto
    ultimately show ?thesis using world_ok_realm [OF assms(1)] by simp
  qed
qed

lemma world_ok_run: "world_ok w \<Longrightarrow> world_run ver sp ms ob cs w = Inr w' \<Longrightarrow> world_ok w'"
  by (induction cs arbitrary: w) (auto simp: rbind_eq_Inr intro: world_ok_step)

text \<open>A second read gives the same value and changes nothing more.\<close>

lemma lazy_get_same:
  assumes "gt \<in> {Nexus_Get, Console_Get, EventEmitter_Get, Scheduler_Get, IO_Get, Net_Get, FileSystem_Get}"
    and "lazy_get gt c = (v, c')"
  shows "lazy_get gt c' = (v, c')"
  using assms
  by (auto simp: lazy_get_def Nexus_Get_def Console_Get_def EventEmitter_Get_def Scheduler_Get_def IO_Get_def Net_Get_def
      FileSystem_Get_def getGlobal_def setGlobal_def make_object_def split: option.splits)

lemma script_get_same: "script_get n ms ob c = ((v, None), c') \<Longrightarrow> script_get n ms ob c' = ((v, None), c')"
  by (auto simp: script_get_def getGlobal_def setGlobal_def split: option.splits sum.splits)

lemma table_getters:
  "cls \<in> {InitGlobalClass, NexusClass} \<Longrightarrow> map_of (staticValues cls) name = Some (Lazy gt) \<Longrightarrow>
    gt \<in> {Nexus_Get, Console_Get, EventEmitter_Get, Scheduler_Get, IO_Get, Net_Get, FileSystem_Get}"
  by (auto simp: InitGlobalClass_def NexusClass_def GlobalProperties_def NexusProperties_def split: if_splits)

lemma read_static_twice:
  assumes "read_static ver sp ms ob cls name g w = Some (Inr ((v, None), w'))" "cls \<in> {InitGlobalClass, NexusClass}"
  shows "read_static ver sp ms ob cls name g w' = Some (Inr ((v, None), w'))"
proof -
  obtain a c c' where f: "FromJsContext g w = Some a" "rl_contexts (wd_realm w) a = Some c"
    "w' = w\<lparr>wd_realm := (wd_realm w)\<lparr>rl_contexts := (rl_contexts (wd_realm w))(a \<mapsto> c')\<rparr>\<rparr>"
    using read_static_frame [OF assms(1)] by blast
  obtain p where p: "map_of (staticValues cls) name = Some p" using assms(1) by (auto simp: read_static_def split: option.splits)
  have f': "FromJsContext g w' = Some a" "rl_contexts (wd_realm w') a = Some c'" "globalThisValue a w' = globalThisValue a w"
    using f by (simp_all add: FromJsContext_def globalThisValue_def)
  have put: "w'\<lparr>wd_realm := (wd_realm w')\<lparr>rl_contexts := (rl_contexts (wd_realm w'))(a \<mapsto> c')\<rparr>\<rparr> = w'"
    using f'(2) by (simp add: fun_upd_idem)
  have upd: "c1 = c2" if "w\<lparr>wd_realm := (wd_realm w)\<lparr>rl_contexts := (rl_contexts (wd_realm w))(a \<mapsto> c1)\<rparr>\<rparr> =
      w\<lparr>wd_realm := (wd_realm w)\<lparr>rl_contexts := (rl_contexts (wd_realm w))(a \<mapsto> c2)\<rparr>\<rparr>" for c1 c2
  proof -
    from that have "rl_contexts (wd_realm (w\<lparr>wd_realm := (wd_realm w)\<lparr>rl_contexts := (rl_contexts (wd_realm w))(a \<mapsto> c1)\<rparr>\<rparr>)) a =
      rl_contexts (wd_realm (w\<lparr>wd_realm := (wd_realm w)\<lparr>rl_contexts := (rl_contexts (wd_realm w))(a \<mapsto> c2)\<rparr>\<rparr>)) a" by simp
    then show ?thesis by simp
  qed
  show ?thesis
  proof (cases p)
    case (Lazy gt)
    obtain v1 c1 where l: "lazy_get gt c = (v1, c1)" by fastforce
    with assms(1) p Lazy f(1,2) have "v1 = v" "w' = w\<lparr>wd_realm := (wd_realm w)\<lparr>rl_contexts := (rl_contexts (wd_realm w))(a \<mapsto> c1)\<rparr>\<rparr>"
      by (auto simp: read_static_def Let_def)
    with upd f(3) l have "lazy_get gt c = (v, c')" by metis
    from lazy_get_same [OF table_getters [OF assms(2)] this] p Lazy have "lazy_get gt c' = (v, c')" by blast
    with p Lazy f' put show ?thesis by (simp add: read_static_def Let_def)
  next
    case (FromScript n)
    obtain r1 c1 where l: "script_get n ms ob c = (r1, c1)" by fastforce
    with assms(1) p FromScript f(1,2) have "r1 = (v, None)" "w' = w\<lparr>wd_realm := (wd_realm w)\<lparr>rl_contexts := (rl_contexts (wd_realm w))(a \<mapsto> c1)\<rparr>\<rparr>"
      by (auto simp: read_static_def Let_def)
    with upd f(3) l have "script_get n ms ob c = ((v, None), c')" by metis
    from script_get_same [OF this] p FromScript f' put show ?thesis by (simp add: read_static_def Let_def)
  qed (use assms(1) p f f' in \<open>auto simp: read_static_def rbind_eq_Inr Let_def\<close>)
qed

text \<open>
  C23. Contexts apart: after any history of contexts made, cloned and deleted, threads started and properties read, a
  script that runs in a context is led back to this context. While it lives, a property of the global object or of
  \<open>Nexus\<close> that was read once gives the same value again and nothing changes any more, and the globals of every other
  context, alive or deleted, are untouched; once it is deleted, its scripts read through the deleted context.
\<close>

theorem namespaces_apart:
  assumes "world_run ver sp ms ob cs (new_world n) = Inr w" "a < rl_next (wd_realm w)" "cls \<in> {InitGlobalClass, NexusClass}"
    and "name \<in> fst ` set (staticValues cls)"
  shows "\<exists>g. toJSContext a w = Some g \<and> FromJsContext g w = Some a \<and>
    (if rl_contexts (wd_realm w) a = None
     then read_static ver sp ms ob cls name g w = Some (Inl (UB ''use of a deleted context''))
     else \<exists>v exc w1. read_static ver sp ms ob cls name g w = Some (Inr ((v, exc), w1)) \<and>
       (\<forall>b. b \<noteq> a \<longrightarrow> rl_contexts (wd_realm w1) b = rl_contexts (wd_realm w) b) \<and>
       (exc = None \<longrightarrow> read_static ver sp ms ob cls name g w1 = Some (Inr ((v, None), w1))))"
proof -
  have "linked w a" using world_ok_run [OF world_ok_new assms(1)] assms(2) by (simp add: world_ok_def)
  then obtain g where g: "toJSContext a w = Some g" "FromJsContext g w = Some a" by (auto simp: linked_def)
  obtain p where p: "map_of (staticValues cls) name = Some p"
    using assms(4) by (metis map_of_eq_None_iff not_Some_eq)
  show ?thesis
  proof (cases "rl_contexts (wd_realm w) a")
    case None
    with g p show ?thesis by (intro exI [of _ g]) (simp add: read_static_def)
  next
    case (Some c)
    have "\<exists>v exc w1. read_static ver sp ms ob cls name g w = Some (Inr ((v, exc), w1))"
    proof (cases p)
      case ThisGlobal
      with g p Some show ?thesis by (simp add: read_static_def globalThisValue_def toJSContext_def Let_def)
    qed (use g p Some in \<open>auto simp: read_static_def Let_def split: prod.split\<close>)
    then obtain v exc w1 where r: "read_static ver sp ms ob cls name g w = Some (Inr ((v, exc), w1))" by blast
    have "rl_contexts (wd_realm w1) b = rl_contexts (wd_realm w) b" if "b \<noteq> a" for b
      using read_static_frame [OF r] g(2) that by auto
    moreover have "exc = None \<longrightarrow> read_static ver sp ms ob cls name g w1 = Some (Inr ((v, None), w1))"
      using read_static_twice r assms(3) by blast
    ultimately show ?thesis using g r Some by (intro exI [of _ g]) auto
  qed
qed

text \<open>A context, its clone, and a read of \<open>Nexus\<close> in both.\<close>

definition sample_world_ops :: "world_op list" where
  "sample_world_ops = [WCreate sample_context None, WClone sample_context None 0, WRead InitGlobalClass ''Nexus'' 0]"

theorem namespaces_apart_witness:
  "\<exists>w v w1. world_run ''1'' ''/a.js'' (Inl Null) (\<lambda>_. Inl Null) sample_world_ops (new_world 4) = Inr w \<and>
    toJSContext 1 w = Some 1 \<and> read_static ''1'' ''/a.js'' (Inl Null) (\<lambda>_. Inl Null) InitGlobalClass ''Nexus'' 1 w = Some (Inr (v, w1)) \<and>
    rl_contexts (wd_realm w1) 0 = rl_contexts (wd_realm w) 0"
proof -
  let ?run = "world_run ''1'' ''/a.js'' (Inl Null) (\<lambda>_. Inl Null)"
  obtain w where w: "?run sample_world_ops (new_world 4) = Inr w" "rl_next (wd_realm w) = 2" "wd_global w 1 = Some 1"
    "rl_contexts (wd_realm w) 1 \<noteq> None"
    by (simp add: sample_world_ops_def new_world_def new_realm_def create_def clone_def Context_make_def createGlobalObject_def
        Context_new_eq read_static_def FromJsContext_def lazy_get_def getGlobal_def make_object_def setGlobal_def
        InitGlobalClass_def GlobalProperties_def Nexus_Get_def Let_def)
  have "InitGlobalClass \<in> {InitGlobalClass, NexusClass}" "''Nexus'' \<in> fst ` set (staticValues InitGlobalClass)" "1 < rl_next (wd_realm w)"
    using w(2) by (simp_all add: InitGlobalClass_def GlobalProperties_def)
  from namespaces_apart [OF w(1) this(3,1,2)] w show ?thesis by (auto simp: toJSContext_def)
qed

text \<open>A stream class whose script fails is reported and replaced by a plain object.\<close>

lemma ReadableStream_getConstructor_result:
  "evaluate ''readable_stream.js'' = Inr v \<Longrightarrow> to_object (Some v) = Inr f \<Longrightarrow>
    ReadableStream_getConstructor evaluate to_object plain = ([], f)"
  "evaluate ''readable_stream.js'' = Inl e \<Longrightarrow>
    \<exists>e'. ReadableStream_getConstructor evaluate to_object plain = ([e'], plain)"
  by (auto simp: ReadableStream_getConstructor_def script_constructor_def Let_def split: sum.split)

text \<open>
  A module script that throws: what the reader gets is the error of converting the null value of the script, and the error
  of the script is lost. \<open>console.inspect\<close> passes its error on as a text, and is made once.
\<close>

lemma script_error_lost:
  "getGlobal name c = None \<Longrightarrow> to_object None = Inl null_error \<Longrightarrow> script_get name (Inl e) to_object c = ((Undefined, Some null_error), c)"
  "getGlobal ''Nexus.Module'' c = None \<Longrightarrow> to_object None = Inl null_error \<Longrightarrow>
    Module_Get (Inl e) to_object c = ((Undefined, Some null_error), c)"
  by (simp_all add: script_get_def Module_Get_def)

lemma console_inspect_result:
  "getGlobal ''console.inspect'' c = None \<Longrightarrow> Value_toString en e = Inr m \<Longrightarrow>
    console_inspect en (Inl e) to_object c = Inr ((Undefined, Some (ErrorObj m)), c)"
  "console_inspect en (Inr v) (\<lambda>v. Inr v) c = Inr ((v1, None), c1) \<Longrightarrow> console_inspect en again to_object c1 = Inr ((v1, None), c1)"
  by (auto simp: console_inspect_def JSWrapException_def getGlobal_def setGlobal_def rbind_def split: option.splits)

end
