(* ===== verification/EmitterRun.thy ===== *)
theory EmitterRun
  imports EmitterProps MainLoop
begin

text \<open>
  The emitter and the scheduler together: the tasks that \<open>emitFastAndSchedule\<close> schedules, run by the draining
  loop, make the calls of the emission in the order of the listeners and complete the group it returned.
\<close>

section \<open>Queues of listener tasks\<close>

lemma listener_turn:
  assumes "heap s t = Some (listener_task body g ev)" "body ev = map Host ns"
  shows "drain_step th t q s = Inr (s\<lparr>myTaskQueue := q, myTaskCount := myTaskCount s - 1, heap := (heap s)(t := None),
    trace := trace s @ ns, groups := (groups s)(g := groups s g + 1), myHoldCount := myHoldCount s - 1,
    myCurrentTask := (myCurrentTask s)(th := None)\<rparr>)"
  using assms
  by (simp add: drain_step_def Let_def makeCurrent_def process_task_def current_status_def with_task_def
      listener_task_def spawned_def task_create_def store_def task_enter_def run_acts_hosts release_current_def
      task_exit_def run_handlers_def delete_task_def Holder_destroy_def release_def)

definition listener_queue :: "(event \<Rightarrow> act list) \<Rightarrow> nat \<Rightarrow> event list \<Rightarrow> sched \<Rightarrow> bool" where
  "listener_queue body g evs s \<longleftrightarrow> distinct (myTaskQueue s) \<and> \<not> myPauseTasks s \<and>
     list_all2 (\<lambda>t ev. heap s t = Some (listener_task body g ev)) (myTaskQueue s) evs"

lemma listeners_drained:
  assumes "\<And>ev. ev \<in> set evs \<Longrightarrow> body ev = map Host (ns ev)" "listener_queue body g evs s"
  shows "\<exists>s'. drain_loop th n s = Some (Inr (n + length evs, s')) \<and> myTaskQueue s' = [] \<and>
    trace s' = trace s @ concat (map ns evs) \<and> groups s' g = groups s g + of_nat (length evs)"
  using assms
proof (induction evs arbitrary: s n)
  case Nil
  then show ?case by (auto simp: listener_queue_def drain_loop.simps [of th n s])
next
  case (Cons ev evs)
  then obtain t q where q: "myTaskQueue s = t # q" "heap s t = Some (listener_task body g ev)" "distinct (t # q)"
    "\<not> myPauseTasks s" "list_all2 (\<lambda>t ev. heap s t = Some (listener_task body g ev)) q evs"
    by (auto simp: listener_queue_def list_all2_Cons2)
  let ?s1 = "s\<lparr>myTaskQueue := q, myTaskCount := myTaskCount s - 1, heap := (heap s)(t := None),
    trace := trace s @ ns ev, groups := (groups s)(g := groups s g + 1), myHoldCount := myHoldCount s - 1,
    myCurrentTask := (myCurrentTask s)(th := None)\<rparr>"
  have "drain_step th t q s = Inr ?s1" using listener_turn [OF q(2), of "ns ev"] Cons.prems(1) by simp
  then have "drain_loop th n s = drain_loop th (Suc n) ?s1"
    using q(1,4) by (simp add: drain_loop.simps [of th n s])
  moreover have "list_all2 (\<lambda>t ev. heap ?s1 t = Some (listener_task body g ev)) q evs"
    using q(3,5) by (auto elim!: list.rel_mono_strong)
  then have "listener_queue body g evs ?s1" using q by (simp add: listener_queue_def)
  ultimately show ?case using Cons.IH [of ?s1 "Suc n"] Cons.prems(1) by auto
qed

section \<open>An emission that runs\<close>

text \<open>
  C18. An emission through the scheduler does what a direct one does: on an idle scheduler, the tasks that
  \<open>emitFastAndSchedule\<close> queues make, when the queue is drained, the same calls as \<open>emitFast\<close> in the same
  order (\<open>code\<close> numbers the functions), and the group that was waiting for them stops waiting.
\<close>

theorem scheduled_emission_runs:
  assumes "m e = Some evs" "one_last e m" "evs \<noteq> []" "length evs < 2 ^ 64"
    and "myTaskQueue s = []" "\<not> myPauseTasks s" "\<And>ev. body ev = [Host (code (ev_handler ev))]"
  shows "\<exists>G m' s1 s2 cs x. emitFastAndSchedule body e g m s = Inr (G, m', s1) \<and> group_waiting G s1 \<and>
    emitFast en e as m = Inr (cs, x, m') \<and>
    drainTasks th s1 = Some (Inr (length cs, s2)) \<and> trace s2 = trace s @ map (\<lambda>(f, _). code f) cs \<and>
    myTaskQueue s2 = [] \<and> \<not> group_waiting G s2"
proof -
  let ?s = "s\<lparr>groups := (groups s)(g := 0)\<rparr>" and ?G = "\<lparr>tg_tasks = [], myFinished = g\<rparr>"
  let ?ts = "[nextTask s..<nextTask s + length evs]"
  have ng: "new_TaskGroup g [] s = Inr (?G, ?s)" by (simp add: new_TaskGroup_def attach_def)
  obtain m' where m': "tidy e (m(e \<mapsto> map count_down evs)) = Inr m'" using tidy_count_down [OF assms(1,2)] by blast
  obtain G s1 where s1: "schedule_calls body evs ?G ?s = Inr (G, s1)" "tg_tasks G = ?ts" "myFinished G = g"
    "myTaskQueue s1 = ?ts" "groups s1 g = 0" "trace s1 = trace s" "\<not> myPauseTasks s1"
    "\<forall>i < length evs. heap s1 (nextTask s + i) = Some (listener_task body g (evs ! i))"
    using schedule_calls_result [of body evs ?G ?s] assms(5,6) by auto
  have "listener_queue body g evs s1"
    using s1 by (auto simp: listener_queue_def list_all2_conv_all_nth)
  from listeners_drained [OF _ this, of "\<lambda>ev. [code (ev_handler ev)]" th 0] assms(7) obtain s2 where
    s2: "drain_loop th 0 s1 = Some (Inr (length evs, s2))" "myTaskQueue s2 = []"
    "trace s2 = trace s @ map (\<lambda>ev. code (ev_handler ev)) evs" "groups s2 g = of_nat (length evs)"
    using s1(5,6) by auto
  have "emitFastAndSchedule body e g m s = Inr (G, m', s1)"
    using ng s1(1) m' assms(1) by (simp add: emitFastAndSchedule_def)
  moreover have "emitFast en e as m = Inr (map (\<lambda>ev. (ev_handler ev, as)) evs, call_all en as evs None, m')"
    using m' assms(1) by (simp add: emitFast_def)
  moreover have "group_waiting G s1" "\<not> group_waiting G s2"
    using s1 s2(4) assms(3,4) by (simp_all add: group_waiting_def word_less_nat_alt unat_of_nat_small)
  ultimately show ?thesis using s1(7) s2(1-3) by (simp add: drainTasks_def comp_def)
qed

theorem scheduled_emission_runs_witness:
  "\<exists>G m' s1 s2. emitFastAndSchedule (\<lambda>ev. [Host (case ev_handler ev of Object n \<Rightarrow> n | _ \<Rightarrow> 0)]) ''data'' 0 sample_emitter
      (new_scheduler 2) = Inr (G, m', s1) \<and> group_waiting G s1 \<and>
    drainTasks 0 s1 = Some (Inr (2, s2)) \<and> trace s2 = [1, 2] \<and> \<not> group_waiting G s2"
proof -
  let ?code = "\<lambda>v. case v of Object n \<Rightarrow> n | _ \<Rightarrow> 0"
  let ?evs = "[\<lparr>ev_name = ''data'', ev_handler = Object 1, ev_count = 1\<rparr>, \<lparr>ev_name = ''data'', ev_handler = Object 2, ev_count = 3\<rparr>]"
  have m: "sample_emitter ''data'' = Some ?evs"
    by (simp add: sample_emitter_def addManyListener_def addOnceListener_def)
  have one: "one_last ''data'' sample_emitter"
    by (simp add: sample_emitter_abs at_most_one_last_def last_call_def)
  have e: "emitFast sample_engine ''data'' [] sample_emitter = Inr (cs, x, m') \<Longrightarrow> cs = [(Object 1, []), (Object 2, [])]" for cs x m'
    using emitFast_spec [OF one, of sample_engine "[]"] by (auto simp: sample_emitter_abs spec_emit_def)
  from scheduled_emission_runs [OF m one, of "new_scheduler 2" "\<lambda>ev. [Host (?code (ev_handler ev))]" ?code 0 sample_engine "[]" 0]
  obtain G m' s1 s2 cs x where "emitFastAndSchedule (\<lambda>ev. [Host (?code (ev_handler ev))]) ''data'' 0 sample_emitter
      (new_scheduler 2) = Inr (G, m', s1)" "group_waiting G s1" "emitFast sample_engine ''data'' [] sample_emitter = Inr (cs, x, m')"
    "drainTasks 0 s1 = Some (Inr (length cs, s2))" "trace s2 = trace (new_scheduler 2) @ map (\<lambda>(f, _). ?code f) cs"
    "\<not> group_waiting G s2"
    by (auto simp: new_scheduler_def)
  moreover from e [OF this(3)] have "length cs = 2" "trace (new_scheduler 2) @ map (\<lambda>(f, _). ?code f) cs = [1, 2]"
    by (simp_all add: new_scheduler_def)
  ultimately show ?thesis by (intro exI [of _ G] exI [of _ m'] exI [of _ s1] exI [of _ s2]) simp
qed

end
