(* ===== verification/EmitterReentry.thy ===== *)
theory EmitterReentry
  imports EmitterProps
begin

text \<open>
  Listeners that use the emitter while it calls them (\<open>src/classes/emitter.cpp\<close>). The lock of the engine is
  recursive, so a listener may call \<open>on\<close>, \<open>off\<close>, \<open>allOff\<close> and \<open>emit\<close> of the emitter that is calling it. The loops of
  \<open>emit\<close> and \<open>emitFast\<close> are range-based: both iterators are taken once, before the first call, and compared after
  every call. Whatever changes the vector of the event in between makes them invalid.
\<close>

section \<open>The machine\<close>

text \<open>What a listener does to its emitter, one method after the other.\<close>

datatype eact = On string jsval int | Off string jsval | AllOff string | Emit string

text \<open>
  The emitter; how often the vector of each event has invalidated an iterator; the listeners called so far, with
  the event each was called for.
\<close>

record reentry =
  rt_map :: emitter
  rt_epoch :: "string \<Rightarrow> nat"
  rt_calls :: "(string \<times> jsval) list"

text \<open>
  A frame of the stack: the rest of what a listener does, or a loop over the listeners of an event at position \<open>i\<close> of
  \<open>n\<close>, with iterators as old as the number of invalidations \<open>k\<close>.
\<close>

datatype frame = Body "eact list" | Loop string nat nat nat

definition invalidate :: "string \<Rightarrow> bool \<Rightarrow> reentry \<Rightarrow> reentry" where
  "invalidate e b st = (if b then st\<lparr>rt_epoch := (rt_epoch st)(e := Suc (rt_epoch st e))\<rparr> else st)"

text \<open>
  \<open>emplace_back\<close> invalidates at least the end of the vector; erasing invalidates it when there is something to erase,
  and so does removing the vector from the map.
\<close>

fun change :: "eact \<Rightarrow> reentry \<Rightarrow> reentry" where
  "change (On e f n) st = invalidate e True (st\<lparr>rt_map := addManyListener e f n (rt_map st)\<rparr>)"
| "change (Off e f) st =
     invalidate e (case rt_map st e of None \<Rightarrow> False | Some evs \<Rightarrow> f \<in> set (map ev_handler evs))
       (st\<lparr>rt_map := removeListener e f (rt_map st)\<rparr>)"
| "change (AllOff e) st = invalidate e (rt_map st e \<noteq> None) (st\<lparr>rt_map := removeAllListeners e (rt_map st)\<rparr>)"
| "change (Emit e) st = st"

text \<open>\<open>tidy\<close> at the end of a loop.\<close>

definition loop_tidy :: "string \<Rightarrow> reentry \<Rightarrow> reentry res" where
  "loop_tidy e st =
     rbind (tidy e (rt_map st)) (\<lambda>m. Inr (invalidate e (m e \<noteq> rt_map st e) (st\<lparr>rt_map := m\<rparr>)))"

text \<open>The call of the listener at position \<open>i\<close>; its count goes down before the call.\<close>

definition loop_call :: "string \<Rightarrow> event list \<Rightarrow> nat \<Rightarrow> reentry \<Rightarrow> reentry" where
  "loop_call e evs i st = st\<lparr>rt_map := (rt_map st)(e \<mapsto> evs[i := count_down (evs ! i)]),
     rt_calls := rt_calls st @ [(e, ev_handler (evs ! i))]\<rparr>"

definition invalid_iterator :: exn where
  "invalid_iterator = UB ''use of an invalidated iterator''"

text \<open>
  One step; \<open>body f cs\<close> is what the function \<open>f\<close> does when the calls before it were \<open>cs\<close>. \<open>None\<close>: the stack is empty.
\<close>

fun reent_step ::
  "(jsval \<Rightarrow> (string \<times> jsval) list \<Rightarrow> eact list) \<Rightarrow> frame list \<Rightarrow> reentry \<Rightarrow> (frame list \<times> reentry) res option" where
  "reent_step body [] st = None"
| "reent_step body (Body [] # K) st = Some (Inr (K, st))"
| "reent_step body (Body (Emit e # as) # K) st =
     Some (Inr (case rt_map st e of
                  None \<Rightarrow> (Body as # K, st)
                | Some evs \<Rightarrow> (Loop e 0 (length evs) (rt_epoch st e) # Body as # K, st)))"
| "reent_step body (Body (a # as) # K) st = Some (Inr (Body as # K, change a st))"
| "reent_step body (Loop e i n k # K) st =
     Some (if rt_epoch st e \<noteq> k then Inl invalid_iterator
           else if i < n then
             (case rt_map st e of
                None \<Rightarrow> Inl invalid_iterator
              | Some evs \<Rightarrow>
                  Inr (Body (body (ev_handler (evs ! i)) (rt_calls st)) # Loop e (Suc i) n k # K, loop_call e evs i st))
           else rbind (loop_tidy e st) (\<lambda>st'. Inr (K, st')))"

partial_function (option) reent_run ::
  "(jsval \<Rightarrow> (string \<times> jsval) list \<Rightarrow> eact list) \<Rightarrow> frame list \<Rightarrow> reentry \<Rightarrow> reentry res option" where
  "reent_run body K st =
     (case reent_step body K st of
        None \<Rightarrow> Some (Inr st)
      | Some (Inl x) \<Rightarrow> Some (Inl x)
      | Some (Inr (K', st')) \<Rightarrow> reent_run body K' st')"

text \<open>An emission from outside.\<close>

definition reent_emit ::
  "(jsval \<Rightarrow> (string \<times> jsval) list \<Rightarrow> eact list) \<Rightarrow> string \<Rightarrow> emitter \<Rightarrow> reentry res option" where
  "reent_emit body e m = reent_run body [Body [Emit e]] \<lparr>rt_map = m, rt_epoch = (\<lambda>_. 0), rt_calls = []\<rparr>"

lemma reent_run_simps [simp]:
  "reent_run body [] st = Some (Inr st)"
  "reent_run body (Body [] # K) st = reent_run body K st"
  "reent_run body (Body (On e f n # as) # K) st = reent_run body (Body as # K) (change (On e f n) st)"
  "reent_run body (Body (Off e f # as) # K) st = reent_run body (Body as # K) (change (Off e f) st)"
  "reent_run body (Body (AllOff e # as) # K) st = reent_run body (Body as # K) (change (AllOff e) st)"
  "reent_run body (Body (Emit e # as) # K) st =
     (case rt_map st e of None \<Rightarrow> reent_run body (Body as # K) st
      | Some evs \<Rightarrow> reent_run body (Loop e 0 (length evs) (rt_epoch st e) # Body as # K) st)"
  by (simp_all add: reent_run.simps [of body "_ # _"] reent_run.simps [of body "[]"] split: option.splits)

lemma reent_run_Loop:
  "reent_run body (Loop e i n k # K) st =
     (if rt_epoch st e \<noteq> k then Some (Inl invalid_iterator)
      else if i < n then
        (case rt_map st e of
           None \<Rightarrow> Some (Inl invalid_iterator)
         | Some evs \<Rightarrow> reent_run body (Body (body (ev_handler (evs ! i)) (rt_calls st)) # Loop e (Suc i) n k # K)
             (loop_call e evs i st))
      else (case loop_tidy e st of Inl x \<Rightarrow> Some (Inl x) | Inr st' \<Rightarrow> reent_run body K st'))"
  by (simp add: reent_run.simps [of body "Loop e i n k # K"] split: option.splits sum.splits)


section \<open>Listeners in strata\<close>

text \<open>
  \<open>rank\<close> orders the events and \<open>hrank\<close> the functions: a function only touches events of a smaller rank than its own,
  and is only registered for events of at least its own rank. Functions that register others do so for good.
\<close>

fun event_of :: "eact \<Rightarrow> string" where
  "event_of (On e f n) = e"
| "event_of (Off e f) = e"
| "event_of (AllOff e) = e"
| "event_of (Emit e) = e"

fun act_ok :: "(string \<Rightarrow> nat) \<Rightarrow> (jsval \<Rightarrow> nat) \<Rightarrow> nat \<Rightarrow> eact \<Rightarrow> bool" where
  "act_ok rank hrank r (On e f n) \<longleftrightarrow> rank e < r \<and> hrank f \<le> rank e \<and> n < 0"
| "act_ok rank hrank r a \<longleftrightarrow> rank (event_of a) < r"

definition stratified ::
  "(string \<Rightarrow> nat) \<Rightarrow> (jsval \<Rightarrow> nat) \<Rightarrow> (jsval \<Rightarrow> (string \<times> jsval) list \<Rightarrow> eact list) \<Rightarrow> bool" where
  "stratified rank hrank body \<longleftrightarrow> (\<forall>f cs. list_all (act_ok rank hrank (hrank f)) (body f cs))"

text \<open>The listeners of an event below \<open>r\<close> are well placed and at most one of them is limited.\<close>

definition event_ok :: "(jsval \<Rightarrow> nat) \<Rightarrow> nat \<Rightarrow> event list \<Rightarrow> bool" where
  "event_ok hrank q evs \<longleftrightarrow> list_all (\<lambda>ev. hrank (ev_handler ev) \<le> q) evs \<and>
     length (filter (\<lambda>ev. ev_count ev \<ge> 0) evs) \<le> 1"

definition below_ok :: "(string \<Rightarrow> nat) \<Rightarrow> (jsval \<Rightarrow> nat) \<Rightarrow> nat \<Rightarrow> emitter \<Rightarrow> bool" where
  "below_ok rank hrank r m \<longleftrightarrow> (\<forall>e evs. rank e < r \<longrightarrow> m e = Some evs \<longrightarrow> event_ok hrank (rank e) evs)"

text \<open>What code below \<open>r\<close> leaves alone.\<close>

definition untouched :: "(string \<Rightarrow> nat) \<Rightarrow> nat \<Rightarrow> reentry \<Rightarrow> reentry \<Rightarrow> bool" where
  "untouched rank r st st' \<longleftrightarrow>
     (\<forall>e. r \<le> rank e \<longrightarrow> rt_map st' e = rt_map st e \<and> rt_epoch st' e = rt_epoch st e) \<and>
     (\<exists>cs. rt_calls st' = rt_calls st @ cs \<and> list_all (\<lambda>(e, f). rank e < r) cs)"

lemma untouched_refl [simp]: "untouched rank r st st"
  by (auto simp: untouched_def intro: exI [of _ "[]"])

lemma untouched_trans [trans]:
  assumes "untouched rank r st st1" "untouched rank r st1 st2"
  shows "untouched rank r st st2"
proof -
  obtain cs cs' where "rt_calls st1 = rt_calls st @ cs" "list_all (\<lambda>(e, f). rank e < r) cs"
    "rt_calls st2 = rt_calls st1 @ cs'" "list_all (\<lambda>(e, f). rank e < r) cs'"
    using assms by (auto simp: untouched_def)
  then have "rt_calls st2 = rt_calls st @ (cs @ cs')" "list_all (\<lambda>(e, f). rank e < r) (cs @ cs')" by simp_all
  then show ?thesis using assms unfolding untouched_def by metis
qed

lemma untouched_mono: "untouched rank q st st' \<Longrightarrow> q \<le> r \<Longrightarrow> untouched rank r st st'"
  unfolding untouched_def list_all_iff by fastforce

lemma below_ok_mono: "below_ok rank hrank r m \<Longrightarrow> q \<le> r \<Longrightarrow> below_ok rank hrank q m"
  by (auto simp: below_ok_def)

lemma below_okD: "below_ok rank hrank r m \<Longrightarrow> rank e < r \<Longrightarrow> m e = Some evs \<Longrightarrow> event_ok hrank (rank e) evs"
  by (auto simp: below_ok_def)

lemma event_ok_filter: "event_ok hrank q evs \<Longrightarrow> event_ok hrank q (filter P evs)"
proof -
  assume "event_ok hrank q evs"
  moreover have "length (filter (\<lambda>ev. ev_count ev \<ge> 0) (filter P evs)) \<le> length (filter (\<lambda>ev. ev_count ev \<ge> 0) evs)"
    by (induction evs) auto
  ultimately show ?thesis by (auto simp: event_ok_def list_all_iff)
qed

lemma event_ok_snoc:
  assumes "event_ok hrank q evs" "hrank f \<le> q" "n < 0"
  shows "event_ok hrank q (evs @ [\<lparr>ev_name = e, ev_handler = f, ev_count = n\<rparr>])"
  using assms by (simp add: event_ok_def)

lemma event_ok_Nil [simp]: "event_ok hrank q []"
  by (simp add: event_ok_def)

lemmas event_ok_single = event_ok_snoc [of _ _ "[]", simplified]

lemma below_ok_upd:
  assumes "below_ok rank hrank r m" "\<And>evs. x = Some evs \<Longrightarrow> event_ok hrank (rank e) evs"
  shows "below_ok rank hrank r (m(e := x))"
  using assms by (auto simp: below_ok_def)

lemma untouched_invalidate:
  assumes "rank e < r" "\<And>e'. e' \<noteq> e \<Longrightarrow> m e' = rt_map st e'"
  shows "untouched rank r st (invalidate e b (st\<lparr>rt_map := m\<rparr>))"
proof -
  have "m e' = rt_map st e'" if "r \<le> rank e'" for e' using assms that by (metis not_le)
  with assms(1) show ?thesis by (auto simp: untouched_def invalidate_def intro: exI [of _ "[]"])
qed

lemma invalidate_False [simp]: "invalidate e False st = st"
  by (simp add: invalidate_def)

lemma rt_map_invalidate [simp]: "rt_map (invalidate e b st) = rt_map st"
  "rt_calls (invalidate e b st) = rt_calls st"
  by (simp_all add: invalidate_def)

lemma change_ok:
  assumes "act_ok rank hrank r a" "below_ok rank hrank r (rt_map st)"
  shows "below_ok rank hrank r (rt_map (change a st)) \<and> untouched rank r st (change a st)"
proof (cases a)
  case (On e f n)
  with assms show ?thesis
    by (auto simp: addManyListener_def intro!: below_ok_upd untouched_invalidate event_ok_snoc event_ok_single
        dest: below_okD split: option.splits)
next
  case (Off e f)
  with assms show ?thesis
    by (auto simp: removeListener_def intro!: below_ok_upd untouched_invalidate event_ok_filter
        dest: below_okD split: option.splits)
next
  case (AllOff e)
  with assms show ?thesis
    by (auto simp: removeAllListeners_def intro!: below_ok_upd untouched_invalidate)
qed (use assms in simp)

lemma act_ok_mono: "act_ok rank hrank q a \<Longrightarrow> q \<le> r \<Longrightarrow> act_ok rank hrank r a"
  by (cases a) auto

lemma event_ok_one_last:
  assumes "event_ok hrank q evs" "m e = Some evs"
  shows "one_last e m"
proof -
  have "length (filter expired (map count_down evs)) \<le> length (filter (\<lambda>ev. ev_count ev \<ge> 0) evs)"
    by (induction evs) (auto simp: count_down_def)
  with assms at_most_one_last_count_down [of m e evs] show ?thesis by (simp add: event_ok_def)
qed

lemma event_ok_count_down: "event_ok hrank q evs \<Longrightarrow> event_ok hrank q (map count_down evs)"
proof -
  have "ev_count (count_down ev) \<ge> 0 \<longleftrightarrow> ev_count ev \<ge> 0" "ev_handler (count_down ev) = ev_handler ev" for ev
    by (auto simp: count_down_def)
  then show "event_ok hrank q evs \<Longrightarrow> event_ok hrank q (map count_down evs)"
    by (simp add: event_ok_def filter_map comp_def list_all_iff)
qed

section \<open>Running in strata\<close>

text \<open>\<open>as\<close> runs below \<open>r\<close>: whatever is under it on the stack goes on afterwards, in a state that only differs below.\<close>

definition acts_return ::
  "(string \<Rightarrow> nat) \<Rightarrow> (jsval \<Rightarrow> nat) \<Rightarrow> (jsval \<Rightarrow> (string \<times> jsval) list \<Rightarrow> eact list) \<Rightarrow> nat \<Rightarrow> bool" where
  "acts_return rank hrank body r \<longleftrightarrow>
     (\<forall>as st. list_all (act_ok rank hrank r) as \<longrightarrow> below_ok rank hrank r (rt_map st) \<longrightarrow>
        (\<exists>st'. (\<forall>K. reent_run body (Body as # K) st = reent_run body K st') \<and>
           below_ok rank hrank r (rt_map st') \<and> untouched rank r st st'))"

text \<open>
  A loop over the listeners of \<open>e\<close> from position \<open>i\<close>, when what they do runs below the rank of \<open>e\<close>: it comes to its end
  with valid iterators.
\<close>

lemma loop_returns:
  assumes "stratified rank hrank body" "acts_return rank hrank body (rank e)"
    and "rt_map st e = Some evs" "rt_epoch st e = k" "i \<le> length evs"
    and "list_all (\<lambda>ev. hrank (ev_handler ev) \<le> rank e) evs" "below_ok rank hrank (rank e) (rt_map st)"
  shows "\<exists>st' cs. (\<forall>K. reent_run body (Loop e i (length evs) k # K) st =
      (case loop_tidy e st' of Inl x \<Rightarrow> Some (Inl x) | Inr st2 \<Rightarrow> reent_run body K st2)) \<and>
    rt_map st' e = Some (take i evs @ map count_down (drop i evs)) \<and> rt_calls st' = rt_calls st @ cs \<and>
    map snd (filter (\<lambda>(e', f). e' = e) cs) = map ev_handler (drop i evs) \<and>
    list_all (\<lambda>(e', f). e' = e \<or> rank e' < rank e) cs \<and> below_ok rank hrank (rank e) (rt_map st') \<and>
    (\<forall>e'. rank e \<le> rank e' \<longrightarrow> e' \<noteq> e \<longrightarrow> rt_map st' e' = rt_map st e' \<and> rt_epoch st' e' = rt_epoch st e')"
  using assms(3-7)
proof (induction "length evs - i" arbitrary: i st evs)
  case 0
  then show ?case by (intro exI [of _ st] exI [of _ "[]"]) (simp add: reent_run_Loop)
next
  case (Suc d)
  let ?f = "ev_handler (evs ! i)" and ?st1 = "loop_call e evs i st"
  let ?evs1 = "evs[i := count_down (evs ! i)]"
  from Suc have i: "i < length evs" by simp
  have cd: "ev_handler (count_down ev) = ev_handler ev" for ev by (simp add: count_down_def)
  have "hrank ?f \<le> rank e" using Suc.prems(4) i by (simp add: list_all_length)
  then have "list_all (act_ok rank hrank (rank e)) (body ?f (rt_calls st))"
    using assms(1) act_ok_mono unfolding stratified_def list_all_iff by blast
  moreover have "below_ok rank hrank (rank e) (rt_map ?st1)" using Suc.prems(5) by (auto simp: loop_call_def below_ok_def)
  ultimately obtain st2 where st2: "\<And>K. reent_run body (Body (body ?f (rt_calls st)) # K) ?st1 = reent_run body K st2"
    "below_ok rank hrank (rank e) (rt_map st2)" "untouched rank (rank e) ?st1 st2"
    using assms(2) unfolding acts_return_def by meson
  then obtain cs1 where cs1: "rt_calls st2 = rt_calls ?st1 @ cs1" "list_all (\<lambda>(e', f). rank e' < rank e) cs1"
    by (auto simp: untouched_def)
  have st2e: "rt_map st2 e = Some ?evs1" "rt_epoch st2 e = k"
    using st2(3) Suc.prems(2) by (simp_all add: untouched_def loop_call_def)
  have placed: "list_all (\<lambda>ev. hrank (ev_handler ev) \<le> rank e) ?evs1"
    using Suc.prems(4) i by (auto simp: list_all_length nth_list_update cd)
  have "d = length ?evs1 - Suc i" "Suc i \<le> length ?evs1" using Suc.hyps(2) i by simp_all
  from Suc.hyps(1) [OF this(1) st2e this(2) placed st2(2)]
  obtain st' cs where st': "\<And>K. reent_run body (Loop e (Suc i) (length evs) k # K) st2 =
      (case loop_tidy e st' of Inl x \<Rightarrow> Some (Inl x) | Inr st2 \<Rightarrow> reent_run body K st2)"
    "rt_map st' e = Some (take (Suc i) ?evs1 @ map count_down (drop (Suc i) ?evs1))" "rt_calls st' = rt_calls st2 @ cs"
    "map snd (filter (\<lambda>(e', f). e' = e) cs) = map ev_handler (drop (Suc i) ?evs1)"
    "list_all (\<lambda>(e', f). e' = e \<or> rank e' < rank e) cs" "below_ok rank hrank (rank e) (rt_map st')"
    "\<forall>e'. rank e \<le> rank e' \<longrightarrow> e' \<noteq> e \<longrightarrow> rt_map st' e' = rt_map st2 e' \<and> rt_epoch st' e' = rt_epoch st2 e'"
    by (simp del: drop_Suc) blast
  have none: "filter (\<lambda>(e', f). e' = e) cs1 = []" using cs1(2) by (induction cs1) auto
  show ?case
  proof (intro exI [of _ st'] exI [of _ "(e, ?f) # cs1 @ cs"] conjI allI impI)
    show "reent_run body (Loop e i (length evs) k # K) st =
        (case loop_tidy e st' of Inl x \<Rightarrow> Some (Inl x) | Inr st2 \<Rightarrow> reent_run body K st2)" for K
      using Suc.prems(1,2) i by (simp add: reent_run_Loop [of body e i] st2(1) st'(1))
    show "rt_map st' e = Some (take i evs @ map count_down (drop i evs))"
      using st'(2) i by (simp add: take_Suc_conv_app_nth Cons_nth_drop_Suc [symmetric])
    show "rt_calls st' = rt_calls st @ (e, ?f) # cs1 @ cs"
      using st'(3) cs1(1) by (simp add: loop_call_def)
    show "map snd (filter (\<lambda>(e', f). e' = e) ((e, ?f) # cs1 @ cs)) = map ev_handler (drop i evs)"
      using st'(4) i none by (simp add: Cons_nth_drop_Suc [symmetric])
    show "list_all (\<lambda>(e', f). e' = e \<or> rank e' < rank e) ((e, ?f) # cs1 @ cs)"
      using st'(5) cs1(2) by (auto simp: list_all_iff)
    show "below_ok rank hrank (rank e) (rt_map st')" by (rule st'(6))
    show "rt_map st' e' = rt_map st e'" "rt_epoch st' e' = rt_epoch st e'" if "rank e \<le> rank e'" "e' \<noteq> e" for e'
      using that st'(7) st2(3) by (simp_all add: untouched_def loop_call_def)
  qed
qed

text \<open>The end of such a loop.\<close>

lemma loop_tidy_returns:
  assumes "rt_map st e = Some (map count_down evs)" "length (filter expired (map count_down evs)) \<le> 1"
  shows "loop_tidy e st = Inr (invalidate e (alive (map count_down evs) = [] \<or> alive (map count_down evs) \<noteq> map count_down evs)
    (st\<lparr>rt_map := (rt_map st)(e := if alive (map count_down evs) = [] then None else Some (alive (map count_down evs)))\<rparr>))"
  using assms by (simp add: loop_tidy_def tidy_eq)

lemma emit_returns:
  assumes "stratified rank hrank body" "acts_return rank hrank body (rank e)"
    and "rank e < r" "below_ok rank hrank r (rt_map st)"
  shows "\<exists>st1. (\<forall>as K. reent_run body (Body (Emit e # as) # K) st = reent_run body (Body as # K) st1) \<and>
    below_ok rank hrank r (rt_map st1) \<and> untouched rank r st st1"
proof (cases "rt_map st e")
  case None
  with assms(4) show ?thesis by (intro exI [of _ st]) simp
next
  case (Some evs)
  let ?x = "if alive (map count_down evs) = [] then None else Some (alive (map count_down evs))"
  have ok: "event_ok hrank (rank e) evs" using assms(3,4) Some by (auto dest: below_okD)
  have "below_ok rank hrank (rank e) (rt_map st)" using assms(3,4) below_ok_mono by (metis less_imp_le)
  with loop_returns [OF assms(1,2) Some refl, of 0] ok
  obtain st' cs where st': "\<And>K. reent_run body (Loop e 0 (length evs) (rt_epoch st e) # K) st =
      (case loop_tidy e st' of Inl x \<Rightarrow> Some (Inl x) | Inr st2 \<Rightarrow> reent_run body K st2)"
    "rt_map st' e = Some (map count_down evs)" "rt_calls st' = rt_calls st @ cs"
    "list_all (\<lambda>(e', f). e' = e \<or> rank e' < rank e) cs" "below_ok rank hrank (rank e) (rt_map st')"
    "\<And>e'. rank e \<le> rank e' \<Longrightarrow> e' \<noteq> e \<Longrightarrow> rt_map st' e' = rt_map st e' \<and> rt_epoch st' e' = rt_epoch st e'"
    by (auto simp: event_ok_def)
  have "length (filter expired (map count_down evs)) \<le> 1"
    using event_ok_one_last [of hrank "rank e" evs "rt_map st" e] ok Some at_most_one_last_count_down [of "rt_map st" e, OF Some] by simp
  from loop_tidy_returns [OF st'(2) this] obtain b where
    t: "loop_tidy e st' = Inr (invalidate e b (st'\<lparr>rt_map := (rt_map st')(e := ?x)\<rparr>))" by blast
  let ?st1 = "invalidate e b (st'\<lparr>rt_map := (rt_map st')(e := ?x)\<rparr>)"
  have "below_ok rank hrank r (rt_map st')"
  proof -
    have "event_ok hrank (rank e') evs'" if "rank e' < r" "rt_map st' e' = Some evs'" for e' evs'
    proof -
      consider "e' = e" | "rank e' < rank e" | "e' \<noteq> e" "rank e \<le> rank e'" by linarith
      then show ?thesis
        using that st'(2,5,6) assms(4) ok event_ok_count_down by cases (auto dest: below_okD)
    qed
    then show ?thesis by (auto simp: below_ok_def)
  qed
  then have "below_ok rank hrank r (rt_map ?st1)"
    using ok by (auto intro!: below_ok_upd event_ok_filter event_ok_count_down split: if_splits)
  moreover have "untouched rank r st ?st1"
    using st'(3,4,6) assms(3) unfolding untouched_def list_all_iff invalidate_def
    by (fastforce split: prod.splits)
  ultimately show ?thesis using Some st'(1) t by (intro exI [of _ ?st1]) simp
qed

lemma acts_return_all: "stratified rank hrank body \<Longrightarrow> acts_return rank hrank body r"
proof (induction r rule: less_induct)
  case (less r)
  have "\<exists>st'. (\<forall>K. reent_run body (Body as # K) st = reent_run body K st') \<and>
      below_ok rank hrank r (rt_map st') \<and> untouched rank r st st'"
    if "list_all (act_ok rank hrank r) as" "below_ok rank hrank r (rt_map st)" for as st
    using that
  proof (induction as arbitrary: st)
    case Nil
    then show ?case by (intro exI [of _ st]) simp
  next
    case (Cons a as)
    have "\<exists>st1. (\<forall>K. reent_run body (Body (a # as) # K) st = reent_run body (Body as # K) st1) \<and>
      below_ok rank hrank r (rt_map st1) \<and> untouched rank r st st1"
    proof (cases "\<exists>e. a = Emit e")
      case True
      then obtain e where a: "a = Emit e" by blast
      with Cons.prems(1) have "rank e < r" by simp
      from emit_returns [OF less.prems less.IH [OF this less.prems] this Cons.prems(2)] a show ?thesis by blast
    next
      case False
      then have "\<And>K. reent_run body (Body (a # as) # K) st = reent_run body (Body as # K) (change a st)"
        by (cases a) auto
      with change_ok [of rank hrank r a st] Cons.prems show ?thesis by auto
    qed
    then obtain st1 where st1: "\<And>K. reent_run body (Body (a # as) # K) st = reent_run body (Body as # K) st1"
      "below_ok rank hrank r (rt_map st1)" "untouched rank r st st1" by blast
    from Cons.IH [OF _ st1(2)] Cons.prems(1) st1 show ?case by (auto intro: untouched_trans)
  qed
  then show ?case by (auto simp: acts_return_def)
qed

section \<open>Properties\<close>

lemma reent_emit_eq:
  assumes "m e = Some evs"
  shows "reent_emit body e m =
    reent_run body [Loop e 0 (length evs) 0, Body []] \<lparr>rt_map = m, rt_epoch = (\<lambda>_. 0), rt_calls = []\<rparr>"
  using assms by (simp add: reent_emit_def)


text \<open>Two events: a listener of \<open>data\<close> makes a listener of \<open>done\<close>, emits it and takes it away again.\<close>

definition nested_body :: "jsval \<Rightarrow> (string \<times> jsval) list \<Rightarrow> eact list" where
  "nested_body f cs =
     (if f = Object 1 then [On ''done'' (Object 2) (- 1), Emit ''done'', Off ''done'' (Object 2)] else [])"


text \<open>What listeners do that do not emit.\<close>

fun quiet_act :: "eact \<Rightarrow> bool" where
  "quiet_act (Emit e) = False"
| "quiet_act _ = True"

lemma run_quiet:
  "list_all quiet_act as \<Longrightarrow> reent_run body (Body as # K) st = reent_run body K (fold change as st)"
proof (induction as arbitrary: st)
  case (Cons a as)
  then show ?case by (cases a) auto
qed simp

lemma change_epoch: "rt_epoch st e \<le> rt_epoch (change a st) e"
  by (cases a) (auto simp: invalidate_def)

lemma fold_change_epoch: "rt_epoch st e \<le> rt_epoch (fold change as st) e"
proof (induction as arbitrary: st)
  case (Cons a as)
  from Cons [of "change a st"] change_epoch [of st e a] show ?case by simp
qed simp

text \<open>An action that changes the vector of \<open>e\<close> when its listeners are \<open>fs\<close>.\<close>

fun changes_event :: "string \<Rightarrow> jsval list \<Rightarrow> eact \<Rightarrow> bool" where
  "changes_event e fs (On e' f n) = (e' = e)"
| "changes_event e fs (Off e' f) = (e' = e \<and> f \<in> set fs)"
| "changes_event e fs (AllOff e') = (e' = e)"
| "changes_event e fs (Emit e') = False"

lemma change_invalidates:
  "rt_map st e = Some evs \<Longrightarrow> changes_event e (map ev_handler evs) a \<Longrightarrow> rt_epoch (change a st) e = Suc (rt_epoch st e)"
  by (cases a) (auto simp: invalidate_def)

lemma change_keeps:
  assumes "rt_map st e = Some evs" "\<not> changes_event e (map ev_handler evs) a"
  shows "rt_map (change a st) e = Some evs"
proof (cases a)
  case (Off e' f)
  have "filter (\<lambda>ev. ev_handler ev \<noteq> f) evs = evs" if "f \<notin> ev_handler ` set evs" using that by (auto simp: filter_id_conv)
  with Off assms show ?thesis by (cases "e' = e") (auto simp: removeListener_def split: option.split)
qed (use assms in \<open>auto simp: addManyListener_def removeAllListeners_def\<close>)

lemma fold_change_invalidates:
  assumes "rt_map st e = Some evs" "list_ex (changes_event e (map ev_handler evs)) as"
  shows "rt_epoch st e < rt_epoch (fold change as st) e"
  using assms
proof (induction as arbitrary: st)
  case (Cons a as)
  show ?case
  proof (cases "changes_event e (map ev_handler evs) a")
    case True
    with change_invalidates [OF Cons.prems(1)] fold_change_epoch [of "change a st" e as] show ?thesis by simp
  next
    case False
    with Cons.prems have "rt_map (change a st) e = Some evs" "list_ex (changes_event e (map ev_handler evs)) as"
      by (simp_all add: change_keeps)
    from Cons.IH [OF this] change_epoch [of st e a] show ?thesis by simp
  qed
qed simp

lemma quiet_loop:
  assumes "rt_map st e = Some evs" "rt_epoch st e = k" "j \<le> n" "n \<le> length evs"
    and "\<And>ev cs. ev \<in> set (take n evs) \<Longrightarrow> body (ev_handler ev) cs = []"
  shows "\<exists>st'. reent_run body (Loop e j (length evs) k # K) st = reent_run body (Loop e n (length evs) k # K) st' \<and>
    rt_map st' e = Some (take j evs @ map count_down (take (n - j) (drop j evs)) @ drop n evs) \<and> rt_epoch st' e = k \<and>
    rt_calls st' = rt_calls st @ map (\<lambda>ev. (e, ev_handler ev)) (take (n - j) (drop j evs))"
  using assms
proof (induction "n - j" arbitrary: j st evs)
  case 0
  then show ?case by (intro exI [of _ st]) simp
next
  case (Suc d)
  let ?evs = "evs[j := count_down (evs ! j)]" and ?st = "loop_call e evs j st"
  from Suc.hyps(2) Suc.prems have j: "j < n" "j < length evs" by simp_all
  have handler: "ev_handler (count_down ev) = ev_handler ev" for ev by (simp add: count_down_def)
  have "evs ! j \<in> set (take n evs)" using j by (auto simp: in_set_conv_nth)
  then have "body (ev_handler (evs ! j)) (rt_calls st) = []" by (rule Suc.prems(5))
  then have step: "reent_run body (Loop e j (length evs) k # K) st = reent_run body (Loop e (Suc j) (length ?evs) k # K) ?st"
    using Suc.prems(1,2) j by (simp add: reent_run_Loop)
  have silent: "body (ev_handler ev) cs = []" if "ev \<in> set (take n ?evs)" for ev cs
  proof -
    from that obtain i where "i < n" "i < length evs" "ev = ?evs ! i" by (auto simp: in_set_conv_nth)
    then have "ev_handler ev = ev_handler (evs ! i)" "evs ! i \<in> set (take n evs)"
      by (cases "i = j"; auto simp: handler in_set_conv_nth)+
    then show ?thesis using Suc.prems(5) by simp
  qed
  have "d = n - Suc j" "rt_map ?st e = Some ?evs" "rt_epoch ?st e = k" "Suc j \<le> n" "n \<le> length ?evs"
    using Suc.hyps(2) Suc.prems j by (simp_all add: loop_call_def)
  from Suc.hyps(1) [OF this silent] step obtain st' where
    st': "reent_run body (Loop e j (length evs) k # K) st = reent_run body (Loop e n (length evs) k # K) st'"
    "rt_map st' e = Some (take (Suc j) ?evs @ map count_down (take (n - Suc j) (drop (Suc j) ?evs)) @ drop n ?evs)"
    "rt_epoch st' e = k"
    "rt_calls st' = rt_calls ?st @ map (\<lambda>ev. (e, ev_handler ev)) (take (n - Suc j) (drop (Suc j) ?evs))"
    by auto
  have "take (n - j) (drop j evs) = evs ! j # take (n - Suc j) (drop (Suc j) evs)"
    using j by (simp add: Cons_nth_drop_Suc [symmetric] take_Cons' Suc_diff_Suc [symmetric])
  with st' j show ?case
    by (intro exI [of _ st']) (simp add: take_Suc_conv_app_nth loop_call_def)
qed



text \<open>An event whose first listener always emits it again.\<close>

definition recursing :: "string \<Rightarrow> frame list \<Rightarrow> reentry \<Rightarrow> bool" where
  "recursing e K st \<longleftrightarrow> (\<exists>ev evs. rt_map st e = Some (ev # evs)) \<and>
     (\<exists>K'. K = Body [Emit e] # K' \<or> (\<exists>n. K = Loop e 0 (Suc n) (rt_epoch st e) # K'))"

lemma recursing_run:
  assumes "reent_run (\<lambda>f cs. [Emit e]) K st = Some r"
  shows "\<not> recursing e K st"
proof -
  let ?b = "\<lambda>(f :: jsval) (cs :: (string \<times> jsval) list). [Emit e]"
  let ?P = "\<lambda>b K st (r :: reentry res). b = ?b \<longrightarrow> \<not> recursing e K st"
  have "?P ?b K st r"
  proof (rule reent_run.raw_induct [where P = ?P, OF _ assms])
    fix run body K st and r :: "reentry res"
    assume IH: "\<And>body K st r. run body K st = Some r \<Longrightarrow> ?P body K st r"
      and eq: "(case reent_step body K st of None \<Rightarrow> Some (Inr st) | Some (Inl x) \<Rightarrow> Some (Inl x)
        | Some (Inr (K', st')) \<Rightarrow> run body K' st') = Some r"
    show "?P body K st r"
    proof (intro impI notI)
      assume b: "body = ?b" and "recursing e K st"
      then obtain ev evs K' n where m: "rt_map st e = Some (ev # evs)"
        and K: "K = Body [Emit e] # K' \<or> K = Loop e 0 (Suc n) (rt_epoch st e) # K'" unfolding recursing_def by blast
      from K show False
      proof
        assume "K = Body [Emit e] # K'"
        with eq m b have "run ?b (Loop e 0 (Suc (length evs)) (rt_epoch st e) # Body [] # K') st = Some r" by simp
        from IH [OF this] m show False by (auto simp: recursing_def)
      next
        assume "K = Loop e 0 (Suc n) (rt_epoch st e) # K'"
        with eq m b have "run ?b (Body [Emit e] # Loop e 1 (Suc n) (rt_epoch st e) # K')
            (loop_call e (ev # evs) 0 st) = Some r" by simp
        from IH [OF this] show False by (auto simp: recursing_def loop_call_def)
      qed
    qed
  qed
  then show ?thesis by simp
qed



end
