(* ===== verification/Instances.thy ===== *)
theory Instances
  imports Classes FileDevices Http Globals
begin

text \<open>
  Making native objects: the constructor objects that the namespaces \<open>Nexus\<close>, \<open>Nexus.IO\<close> and \<open>Nexus.Net\<close> hand out
  (\<open>src/globals/io.cpp\<close>, \<open>src/globals/net.cpp\<close>), what \<open>new\<close> makes with them, the properties and functions of devices
  up to their virtual call, the constant tables of \<open>Nexus.FileSystem\<close>, and which \<open>handleAccept\<close> a server runs.
\<close>

section \<open>Constructors\<close>

text \<open>The classes that declare \<open>getConstructor\<close>, with a \<open>Constructor\<close> of their own.\<close>

definition has_constructor :: "nxclass \<Rightarrow> bool" where
  "has_constructor c \<longleftrightarrow> c \<in> {Dev EmitterC, TaskC, ContextC, FilterC, EncodingConversionFilterC, UTF8StringFilterC,
     FilePullDeviceC, FilePushDeviceC, FileSinkDeviceC, SocketC, TCPSocketC, UDPSocketC, AcceptorC, HTTPServerC, HTTP2ServerC}"

text \<open>\<open>C::getConstructor\<close> is a static member: where the class has none, the name is found in its bases.\<close>

definition getConstructor :: "nxclass \<Rightarrow> nxclass option" where
  "getConstructor c = List.find has_constructor (ancestors c)"

text \<open>
  What \<open>new\<close> makes, given arguments the constructor accepts: an object of a JavaScript class with a C++ object of a
  class as its private data, or with none; or an exception. The constructors of \<open>Socket\<close> and \<open>Filter\<close> pass a null
  pointer, that of \<open>TCPSocket\<close> throws, and that of the encoding filter uses the JavaScript class of its base.
\<close>

datatype made = Made nxclass "nxclass option" | NotConstructible

fun Constructor :: "nxclass \<Rightarrow> made" where
  "Constructor SocketC = Made SocketC None"
| "Constructor FilterC = Made FilterC None"
| "Constructor TCPSocketC = NotConstructible"
| "Constructor EncodingConversionFilterC = Made FilterC (Some EncodingConversionFilterC)"
| "Constructor c = Made c (Some c)"

definition new_instance :: "nxclass \<Rightarrow> made" where
  "new_instance c = (case getConstructor c of None \<Rightarrow> NotConstructible | Some k \<Rightarrow> Constructor k)"

text \<open>The property of the namespace and the class whose \<open>getConstructor\<close> its getter calls.\<close>

definition IO_constructors :: "(string \<times> nxclass) list" where
  "IO_constructors =
     [(''Filter'', FilterC), (''Device'', Dev DeviceC), (''SourceDevice'', Dev SourceDeviceC),
      (''SinkDevice'', Dev SinkDeviceC), (''PullSourceDevice'', Dev PullSourceDeviceC),
      (''PushSourceDevice'', Dev PushSourceDeviceC), (''FilePullDevice'', FilePullDeviceC),
      (''FilePushDevice'', FilePushDeviceC), (''FileSinkDevice'', FileSinkDeviceC),
      (''EncodingConversionFilter'', EncodingConversionFilterC), (''UTF8StringFilter'', UTF8StringFilterC)]"

definition Net_constructors :: "(string \<times> nxclass) list" where
  "Net_constructors = [(''SocketDevice'', SocketC), (''UDPSocket'', UDPSocketC)]"

definition Acceptor_constructor :: "string \<times> nxclass" where
  "Acceptor_constructor = (''Acceptor'', AcceptorC)"

definition Server_constructor :: "string \<times> nxclass" where
  "Server_constructor = (''Server'', HTTPServerC)"

definition EventEmitter_constructor :: "string \<times> nxclass" where
  "EventEmitter_constructor = (''EventEmitter'', Dev EmitterC)"

definition constructors :: "(string \<times> nxclass) list" where
  "constructors = IO_constructors @ Net_constructors @ [Acceptor_constructor, Server_constructor, EventEmitter_constructor]"

text \<open>A call on the new object, after any history of class creations: \<open>NullThis\<close> also when there is no C++ object.\<close>

definition call_new :: "nxclass list \<Rightarrow> made \<Rightarrow> string \<Rightarrow> dispatch option" where
  "call_new cs i f =
     (case i of
        NotConstructible \<Rightarrow> None
      | Made k private \<Rightarrow>
          Some (case map_of (functions_of (class_after cs k)) f of
                  None \<Rightarrow> NoProperty
                | Some t \<Rightarrow> (case private of None \<Rightarrow> NullThis t | Some c \<Rightarrow> dispatch_call c (class_after cs k) f)))"

text \<open>The constructor of \<open>FilePushDevice\<close>: a bad argument gives a null pointer and an exception.\<close>

definition FilePushDevice_Constructor ::
  "engine \<Rightarrow> (string \<Rightarrow> byte list option) \<Rightarrow> jsval list \<Rightarrow> push_device option \<times> jsval option" where
  "FilePushDevice_Constructor en fs as =
     (if as = [] \<or> \<not> has_type as 0 kString then (None, Some (ErrorObj ''path must be a string''))
      else (case Value_toString en (arg as 0) of
              Inl e \<Rightarrow> (None, Some (error_of e))
            | Inr path \<Rightarrow> (Some (new_FilePushDevice (fs path)), None)))"

definition push_deviceOpen :: "push_device \<Rightarrow> bool" where
  "push_deviceOpen d \<longleftrightarrow> is_open (pushStream d)"

definition push_deviceClose :: "push_device \<Rightarrow> push_device" where
  "push_deviceClose d = d\<lparr>pushStream := stream_close (pushStream d)\<rparr>"

definition push_eof :: "push_device \<Rightarrow> bool" where
  "push_eof d \<longleftrightarrow> eofbit (pushStream d)"

definition Emitter_Constructor :: made where
  "Emitter_Constructor = Made (Dev EmitterC) (Some (Dev EmitterC))"

definition Socket_Constructor :: made where
  "Socket_Constructor = Made SocketC None"

definition UDPSocket_Constructor :: "'k \<Rightarrow> made \<times> 'k socket" where
  "UDPSocket_Constructor k = (Made UDPSocketC (Some UDPSocketC), new_UDPSocket k)"

section \<open>Properties and functions up to the virtual call\<close>

text \<open>\<open>ready\<close> and \<open>eof\<close> call through the cast pointer without looking at it; so do the three functions of a source.\<close>

definition js_ready :: "('d, 'm) device_ops_scheme \<Rightarrow> 'd option \<Rightarrow> jsval res" where
  "js_ready ops dev = (case dev of None \<Rightarrow> Inl (UB ''null this'') | Some d \<Rightarrow> Inr (Boolean (deviceReady ops d)))"

definition js_eof :: "('d \<Rightarrow> bool) \<Rightarrow> 'd option \<Rightarrow> jsval res" where
  "js_eof eof dev = (case dev of None \<Rightarrow> Inl (UB ''null this'') | Some d \<Rightarrow> Inr (Boolean (eof d)))"

text \<open>\<open>reset\<close>, \<open>pause\<close> and \<open>resume\<close>: \<open>run\<close> is the virtual function, which gives a promise.\<close>

definition js_push_method :: "('d \<Rightarrow> (jsval \<times> 'd) res) \<Rightarrow> 'd option \<Rightarrow> (jscall \<times> 'd) res" where
  "js_push_method run dev =
     (case dev of
        None \<Rightarrow> Inl (UB ''null this'')
      | Some d \<Rightarrow>
          (case run d of
             Inr (v, d1) \<Rightarrow> Inr ((v, None), d1)
           | Inl (Exn m) \<Rightarrow> Inr (JSWrapException (Exn m), d)
           | Inl x \<Rightarrow> Inl x))"

text \<open>A C++ callback as a listener: it is wrapped in a function that turns its exceptions into JavaScript errors.\<close>

definition native_listener :: "(jsval list \<Rightarrow> jscall res) \<Rightarrow> jsval list \<Rightarrow> jscall res" where
  "native_listener callback as = try_wrap (callback as)"

section \<open>The constants of Nexus.FileSystem\<close>

text \<open>
  The names of the tables and the enumerators of \<open>boost::filesystem\<close> they stand for; \<open>enum\<close> gives their values. A
  getter builds its object once and caches it as a global; \<open>properties\<close> are those of the object made.
\<close>

definition Permissions :: "(string \<times> string) list" where
  "Permissions =
     [(''AllAll'', ''all_all''), (''GroupAll'', ''group_all''), (''GroupExec'', ''group_exe''),
      (''GroupRead'', ''group_read''), (''GroupWrite'', ''group_write''), (''OwnerAll'', ''owner_all''),
      (''OwnerExec'', ''owner_exe''), (''OwnerRead'', ''owner_read''), (''OwnerWrite'', ''owner_write''),
      (''OthersAll'', ''others_all''), (''OthersExec'', ''others_exe''), (''OthersRead'', ''others_read''),
      (''OthersWrite'', ''others_write''), (''Unknown'', ''perms_not_known''), (''AddPermissions'', ''add_perms''),
      (''RemovePermissions'', ''remove_perms''), (''Mask'', ''perms_mask''), (''SetGID'', ''set_gid_on_exe''),
      (''SetUID'', ''set_uid_on_exe''), (''StickyBit'', ''sticky_bit''), (''SymlinkPermissions'', ''symlink_perms'')]"

definition FileType :: "(string \<times> string) list" where
  "FileType =
     [(''Directory'', ''directory_file''), (''Block'', ''block_file''), (''FIFO'', ''fifo_file''),
      (''NotFound'', ''file_not_found''), (''Regular'', ''regular_file''), (''Reparse'', ''reparse_file''),
      (''Socket'', ''socket_file''), (''Symlink'', ''symlink_file''), (''Unknown'', ''type_unknown'')]"

definition fs_constants ::
  "(string \<Rightarrow> int) \<Rightarrow> string \<Rightarrow> (string \<times> string) list \<Rightarrow> nx_context \<Rightarrow>
   (jsval \<times> (string \<Rightarrow> jsval option) option) \<times> nx_context" where
  "fs_constants enum name table c =
     (case getGlobal name c of
        Some v \<Rightarrow> ((v, None), c)
      | None \<Rightarrow>
          (case make_object c of
             (v, c1) \<Rightarrow>
               (case setGlobal name v c1 of
                  (r, c2) \<Rightarrow> ((r, Some (map_of (map (\<lambda>(n, e). (n, Number (Fin (of_int (enum e))))) table))), c2))))"

text \<open>A \<open>char\<close> array taken as a C string: reading goes on until a NUL.\<close>

definition c_array :: "string \<Rightarrow> string res" where
  "c_array a = (if CHR 0x00 \<in> set a then Inr (takeWhile (\<lambda>ch. ch \<noteq> CHR 0x00) a) else Inl (UB ''read past the end of an array''))"

definition separator :: "char \<Rightarrow> jsval res" where
  "separator preferred = rbind (c_array [preferred]) (\<lambda>s. Inr (String s))"

section \<open>Accepting\<close>

text \<open>
  The call in \<open>beginAccept\<close> is virtual with five parameters. \<open>HTTP::Server\<close> overrides it. \<open>HTTP2::Server\<close> declares a
  function of the same name with three parameters, which overrides nothing and is never called.
\<close>

definition http2_handleAccept :: "acceptor \<Rightarrow> acceptor" where
  "http2_handleAccept a = beginAccept a"

definition virtual_handleAccept ::
  "nxclass \<Rightarrow> endpoint option option \<Rightarrow> bool \<Rightarrow> asio_error option \<Rightarrow> acceptor \<Rightarrow> acceptor" where
  "virtual_handleAccept c = (if HTTPServerC \<in> set (ancestors c) then server_handleAccept else acceptor_handleAccept)"

section \<open>Which constructors make what they are named for\<close>

text \<open>
  The constructors of the namespaces. Those that make an object of the class they are named for are the concrete
  devices, the UTF-8 filter, the UDP socket, the servers and the emitter. The five abstract device constructors make
  plain event emitters, because the classes inherit \<open>getConstructor\<close> from \<open>Emitter\<close>; \<open>Filter\<close> and \<open>SocketDevice\<close>
  make objects without a C++ object, on which every function of their own class gets a null \<open>this\<close>.
\<close>

theorem constructors_make:
  "\<forall>(n, c) \<in> set constructors.
     new_instance c =
       (if n \<in> {''Device'', ''SourceDevice'', ''SinkDevice'', ''PullSourceDevice'', ''PushSourceDevice''}
        then Made (Dev EmitterC) (Some (Dev EmitterC))
        else if n \<in> {''Filter'', ''SocketDevice''} then Made c None
        else if n = ''EncodingConversionFilter'' then Made FilterC (Some c)
        else Made c (Some c)) \<and>
     (\<forall>cs f t. new_instance c = Made c None \<longrightarrow> (f, t) \<in> set (jsFunctions (class_def c)) \<longrightarrow>
        call_new cs (new_instance c) f = Some (NullThis t))"
proof -
  have made: "list_all (\<lambda>(n, c). new_instance c =
       (if n \<in> {''Device'', ''SourceDevice'', ''SinkDevice'', ''PullSourceDevice'', ''PushSourceDevice''}
        then Made (Dev EmitterC) (Some (Dev EmitterC))
        else if n \<in> {''Filter'', ''SocketDevice''} then Made c None
        else if n = ''EncodingConversionFilter'' then Made FilterC (Some c)
        else Made c (Some c))) constructors" by code_simp
  have null: "list_all (\<lambda>(n, c). if new_instance c = Made c None then \<not> shadowed c \<and>
       list_all (\<lambda>(f, t). map_of (functions_of (declared c)) f = Some t) (jsFunctions (class_def c)) else True) constructors"
    by code_simp
  have "call_new cs (new_instance c) f = Some (NullThis t)"
    if "(n, c) \<in> set constructors" "new_instance c = Made c None" "(f, t) \<in> set (jsFunctions (class_def c))" for n c cs f t
  proof -
    have "\<not> shadowed c \<and> list_all (\<lambda>(f, t). map_of (functions_of (declared c)) f = Some t) (jsFunctions (class_def c))"
      using bspec [OF null [unfolded list_all_iff] that(1)] that(2) by (simp add: list_all_iff)
    with that(3) have "\<not> shadowed c" "map_of (functions_of (declared c)) f = Some t" by (auto simp: list_all_iff)
    with that(2) show ?thesis by (simp add: call_new_def class_after_declared)
  qed
  then have "\<forall>(n, c) \<in> set constructors. \<forall>cs f t. new_instance c = Made c None \<longrightarrow>
      (f, t) \<in> set (jsFunctions (class_def c)) \<longrightarrow> call_new cs (new_instance c) f = Some (NullThis t)" by fast
  with made show ?thesis unfolding list_all_iff split_def ball_conj_distrib by (intro conjI)
qed

theorem constructors_make_witness:
  "new_instance (Dev SinkDeviceC) = Made (Dev EmitterC) (Some (Dev EmitterC)) \<and>
   call_new [Dev EmitterC] (new_instance SocketC) ''connect'' = Some (NullThis SocketC)"
proof -
  have "(''SinkDevice'', Dev SinkDeviceC) \<in> set constructors" "(''SocketDevice'', SocketC) \<in> set constructors" by code_simp+
  from this [THEN bspec [OF constructors_make]]
  have s: "new_instance (Dev SinkDeviceC) = Made (Dev EmitterC) (Some (Dev EmitterC))" "new_instance SocketC = Made SocketC None"
    "\<forall>f t. (f, t) \<in> set (jsFunctions (class_def SocketC)) \<longrightarrow> call_new [Dev EmitterC] (new_instance SocketC) f = Some (NullThis t)"
    by (simp_all only: prod.case) simp_all
  then show ?thesis by (simp add: Socket_Class_def)
qed

text \<open>
  A plain emitter has no device functions, and its \<open>instanceof\<close> cannot tell: \<open>new Nexus.IO.Device()\<close> has no \<open>close\<close>.
  Reading \<open>ready\<close> or \<open>eof\<close> of a \<open>SocketDevice\<close>, or resuming it, calls through a null pointer.
\<close>

lemma new_Device_is_emitter:
  "call_new cs (new_instance (Dev DeviceC)) ''close'' = Some NoProperty"
  "call_new cs (new_instance (Dev DeviceC)) ''emit'' = Some (Runs (Dev EmitterC))"
proof -
  have n: "new_instance (Dev DeviceC) = Made (Dev EmitterC) (Some (Dev EmitterC))" "\<not> shadowed (Dev EmitterC)" by code_simp+
  have "map_of (functions_of (declared (Dev EmitterC))) ''close'' = None"
    "map_of (functions_of (declared (Dev EmitterC))) ''emit'' = Some (Dev EmitterC)"
    "dispatch_call (Dev EmitterC) (declared (Dev EmitterC)) ''emit'' = Runs (Dev EmitterC)" by code_simp+
  with n show "call_new cs (new_instance (Dev DeviceC)) ''close'' = Some NoProperty"
    "call_new cs (new_instance (Dev DeviceC)) ''emit'' = Some (Runs (Dev EmitterC))"
    by (simp_all add: call_new_def class_after_declared)
qed

lemma socket_device_undefined:
  "js_ready ops None = Inl (UB ''null this'')" "js_eof e None = Inl (UB ''null this'')"
  "js_push_method r None = Inl (UB ''null this'')"
  by (simp_all add: js_ready_def js_eof_def js_push_method_def)

lemma UDPSocket_Constructor_state: "so_state (snd (UDPSocket_Constructor k)) = None"
  by (simp add: UDPSocket_Constructor_def new_UDPSocket_def)

lemma Constructor_agrees:
  "Emitter_Constructor = Constructor (Dev EmitterC)" "Socket_Constructor = Constructor SocketC"
  "fst (UDPSocket_Constructor k) = Constructor UDPSocketC"
  by (simp_all add: Emitter_Constructor_def Socket_Constructor_def UDPSocket_Constructor_def)

text \<open>The separator is an array of one character, so it is not a C string.\<close>

lemma separator_undefined: "preferred \<noteq> CHR 0x00 \<Longrightarrow> separator preferred = Inl (UB ''read past the end of an array'')"
  by (simp add: separator_def c_array_def)

text \<open>The first read of a table makes the object and protects it; every later one gives the same object.\<close>

lemma fs_constants_cached:
  assumes "getGlobal name c = None" "fs_constants enum name table c = ((v, ps), c1)"
  shows "fs_constants enum name table c1 = ((v, None), c1) \<and> ps \<noteq> None \<and> ctx_protects c1 v = ctx_protects c v + 1"
  using assms
  by (auto simp: fs_constants_def getGlobal_def setGlobal_def make_object_def JSValueProtect_def)

lemma fs_constants_values:
  assumes "getGlobal name c = None" "(n, e) \<in> set Permissions" "table = Permissions"
  shows "map_option (\<lambda>ps. ps n) (snd (fst (fs_constants enum name table c))) = Some (Some (Number (Fin (of_int (enum e)))))"
proof -
  have "distinct (map fst Permissions)" by code_simp
  then have "distinct (map fst (map (\<lambda>(n, e). (n, Number (Fin (of_int (enum e))))) Permissions))"
    by (simp add: comp_def case_prod_beta)
  moreover have "(n, Number (Fin (of_int (enum e)))) \<in> set (map (\<lambda>(n, e). (n, Number (Fin (of_int (enum e))))) Permissions)"
    using assms(2) by force
  ultimately have "map_of (map (\<lambda>(n, e). (n, Number (Fin (of_int (enum e))))) Permissions) n = Some (Number (Fin (of_int (enum e))))"
    by (rule map_of_is_SomeI)
  then show ?thesis using assms(1,3) by (simp add: fs_constants_def make_object_def setGlobal_def)
qed

text \<open>Not every type of file has a name: character devices are left out.\<close>

lemma character_devices_have_no_name: "''character_file'' \<notin> set (map snd FileType)"
  by code_simp

text \<open>
  An HTTP/2 server accepts like a plain acceptor: the connection is emitted as a TCP socket, and no HTTP connection is
  started; its own \<open>handleAccept\<close> is never reached.
\<close>

lemma http2_accepts_plainly:
  "virtual_handleAccept HTTP2ServerC s False e a = acceptor_handleAccept s False e a"
  "virtual_handleAccept HTTPServerC s False e a = server_handleAccept s False e a"
proof -
  have "HTTPServerC \<notin> set (ancestors HTTP2ServerC)" "HTTPServerC \<in> set (ancestors HTTPServerC)" by code_simp+
  then show "virtual_handleAccept HTTP2ServerC s False e a = acceptor_handleAccept s False e a"
    "virtual_handleAccept HTTPServerC s False e a = server_handleAccept s False e a"
    by (simp_all add: virtual_handleAccept_def)
qed

end
