(* ===== verification/Threads.thy ===== *)
theory Threads
  imports SchedulerInv SchedulerConc
begin

text \<open>
  The scheduler under concurrency, with its tasks: any number of threads run \<open>dispatcher\<close>,
  \<open>drainTasks\<close> and \<open>scheduleAbstractTask\<close> (\<open>src/scheduler.cpp\<close>) and the functions of the two task
  classes (\<open>src/task.cpp\<close>, \<open>include/task.h\<close>) on one shared \<open>sched\<close>. A step is one operation on
  shared memory: one atomic load, store, increment or decrement, one \<open>push\<close> or \<open>pop\<close> of the
  lock-free queue, one allocation or deletion; what is local to a thread is done along with it.
  The atomics are sequentially consistent, which is the default the code uses.

  The operations of \<open>Scheduler.thy\<close> are made of the same accesses in the same order; that they are
  the executions in which one thread moves alone is shown in \<open>ThreadsSeq.thy\<close>.
\<close>

section \<open>Where a thread stands\<close>

text \<open>
  Who runs a closure: a task of the queue, an initialisation task with those still to run after
  it, a handler that \<open>poll_one\<close> called, or the code of the main thread before it joins the pool.
\<close>

datatype caller = QueueTask nat | InitTask nat "nat list" | IoHandler | Entry

text \<open>
  The points, in the order of the source; each is named after the access that comes next.
  \<open>AtInit\<close>: the loop over the initialisation tasks, at the test of the first of them; \<open>AtEnlist\<close>:
  \<open>myThreadCount++\<close>; \<open>AtLoop\<close>: the condition of the loop of the dispatcher; \<open>AtDrain\<close>: the entry of
  \<open>drainTasks\<close>; \<open>AtPop\<close> to \<open>AtTestPause\<close>: its loop; \<open>AtDrained\<close>: after it; \<open>AtDelist\<close>:
  \<open>myThreadCount--\<close>; \<open>AtEnd\<close>: after the dispatcher.

  In between, \<open>AtCreate\<close> to \<open>AtFinish\<close> are \<open>create\<close> and \<open>enter\<close> of the task classes, \<open>AtBody\<close> is
  the closure with the actions it has left, \<open>AtCount\<close> to \<open>AtAddThread\<close> is
  \<open>scheduleAbstractTask\<close> called from it, \<open>AtAbortHandlers\<close>, \<open>AtAwaitHandlers\<close> and \<open>AtSuspend\<close> are
  \<open>abort\<close>, \<open>await\<close> and \<open>yield\<close> after their first access.
\<close>

datatype point =
    AtInit "nat list"
  | AtEnlist
  | AtLoop
  | AtDrain
  | AtPop
  | AtActivate nat
  | AtUncount nat
  | AtCurrent nat
  | AtTestInactive nat
  | AtCreate caller
  | AtCreated caller
  | AtTestCreated nat
  | AtTestPending nat
  | AtEnter caller
  | AtActive caller bool
  | AtCoroutine caller
  | AtCoActive caller
  | AtBody caller "act list"
  | AtCount nat caller "act list"
  | AtPush nat caller "act list"
  | AtBalance caller "act list"
  | AtAddThread caller "act list"
  | AtAbortHandlers nat caller "act list"
  | AtAwaitHandlers nat caller "act list"
  | AtSuspend nat caller "act list"
  | AtFinish caller
  | AtTestPush nat
  | AtRepush nat
  | AtRecount
  | AtExit caller
  | AtDelete nat
  | AtLeave
  | AtTestPause
  | AtDrained
  | AtDelist
  | AtEnd

text \<open>The task whose object a caller is, and where control goes when its \<open>enter\<close> returns.\<close>

primrec entered :: "caller \<Rightarrow> nat option" where
  "entered (QueueTask t) = Some t"
| "entered (InitTask t ts) = Some t"
| "entered IoHandler = None"
| "entered Entry = None"

primrec after_create :: "caller \<Rightarrow> point" where
  "after_create (QueueTask t) = AtTestCreated t"
| "after_create (InitTask t ts) = AtEnter (InitTask t ts)"
| "after_create IoHandler = AtDrain"
| "after_create Entry = AtEnd"

primrec after_enter :: "nat list \<Rightarrow> caller \<Rightarrow> point" where
  "after_enter inits (QueueTask t) = AtTestPush t"
| "after_enter inits (InitTask t ts) = AtExit (InitTask t ts)"
| "after_enter inits IoHandler = AtDrain"
| "after_enter inits Entry = AtInit inits"

text \<open>An operation on the object of the task a caller stands for.\<close>

definition on_entered :: "caller \<Rightarrow> (nat \<Rightarrow> task \<Rightarrow> sched \<Rightarrow> 'a res) \<Rightarrow> sched \<Rightarrow> 'a res" where
  "on_entered c f s = (case entered c of None \<Rightarrow> Inl (UB ''no task'') | Some t \<Rightarrow> with_task t (f t) s)"

section \<open>The steps of a closure\<close>

text \<open>The first access of the next action of a closure; an empty closure has returned.\<close>

fun body_step :: "nat \<Rightarrow> caller \<Rightarrow> act list \<Rightarrow> sched \<Rightarrow> (point \<times> sched) res" where
  "body_step th c [] s =
     Inr (if entered c = None then after_enter (myThreadInitQueue s) c else AtFinish c, s)"
| "body_step th c (Host n # as) s = Inr (AtBody c as, s\<lparr>trace := trace s @ [n]\<rparr>)"
| "body_step th c (SpawnTask b # as) s =
     (let (u, s1) = new_task TaskK True b s in Inr (AtCount u c as, s1))"
| "body_step th c (SpawnCoroutine b # as) s =
     (let (u, s1) = new_task CoroutineK False b s in Inr (AtCount u c as, s1))"
| "body_step th c (AbortTask u # as) s =
     with_task u (\<lambda>k s1. Inr (AtAbortHandlers u c as, store u ABORTED s1)) s"
| "body_step th c (Yield # as) s =
     rbind (yield th s) (\<lambda>_. Inr (AtSuspend (the (myCurrentTask s th)) c as, s))"
| "body_step th c (Throw m # as) s = Inl (Exn m)"
| "body_step th c (Pause # as) s = Inr (AtBody c as, pause s)"
| "body_step th c (Resume # as) s = Inr (AtBody c as, resume s)"
| "body_step th c (Await u # as) s =
     with_task u (\<lambda>k s1. Inr (if myStatus k = FINISHED \<or> myStatus k = ABORTED then AtBody c as
                             else AtAwaitHandlers u c as, s1)) s"
| "body_step th c (WaitFlag f # as) s =
     (if flags s f then Inr (AtBody c as, s)
      else rbind (yield th s) (\<lambda>_. Inr (AtSuspend (the (myCurrentTask s th)) c (WaitFlag f # as), s)))"

text \<open>\<open>await\<close> after it looked at the status: the flag and the two handlers that set it.\<close>

definition await_handlers :: "nat \<Rightarrow> sched \<Rightarrow> (nat \<times> sched) res" where
  "await_handlers u s =
     (let f = nextFlag s; s1 = s\<lparr>nextFlag := Suc f, flags := (flags s)(f := False)\<rparr> in
      rbind (addCancellationHandler u (SetFlag f) s1) (\<lambda>s2.
      rbind (addCompletionHandler u (SetFlag f) s2) (\<lambda>s3. Inr (f, s3))))"

section \<open>The steps of a thread\<close>

text \<open>
  \<open>polled\<close> is what \<open>poll_one\<close> does at the condition of the dispatcher's loop: it runs a handler
  with these actions, or finds none. Every other step is determined. The main thread (number 0)
  goes back to the dispatcher while the scheduler is held (\<open>joinPool\<close>); a worker stays at its end.
\<close>

fun tstep :: "act list option \<Rightarrow> nat \<Rightarrow> point \<Rightarrow> sched \<Rightarrow> (point \<times> sched) res" where
  "tstep polled th (AtInit []) s = Inr (AtEnlist, s)"
| "tstep polled th (AtInit (t # ts)) s =
     with_task t (\<lambda>k s1. Inr (if myStatus k \<noteq> ABORTED then AtCreate (InitTask t ts) else AtInit ts, s1)) s"
| "tstep polled th AtEnlist s = Inr (AtLoop, s\<lparr>myThreadCount := myThreadCount s + 1\<rparr>)"
| "tstep polled th AtLoop s =
     (case polled of
        Some as \<Rightarrow> Inr (AtBody IoHandler as, s)
      | None \<Rightarrow> Inr (if queued s \<noteq> 0 then AtDrain else AtDelist, s))"
| "tstep polled th AtDrain s = Inr (if myPauseTasks s then AtDrained else AtPop, s)"
| "tstep polled th AtPop s =
     (case myTaskQueue s of
        [] \<Rightarrow> Inr (AtDrained, s)
      | t # q \<Rightarrow> Inr (AtActivate t, s\<lparr>myTaskQueue := q\<rparr>))"
| "tstep polled th (AtActivate t) s = Inr (AtUncount t, s\<lparr>myActiveTaskCount := myActiveTaskCount s + 1\<rparr>)"
| "tstep polled th (AtUncount t) s =
     Inr (AtCurrent t, makeCurrent th t (s\<lparr>myTaskCount := myTaskCount s - 1\<rparr>))"
| "tstep polled th (AtCurrent t) s =
     with_task t (\<lambda>k s1. Inr (if myStatus k \<noteq> ABORTED then AtTestInactive t else AtLeave, s1)) s"
| "tstep polled th (AtTestInactive t) s =
     with_task t (\<lambda>k s1. Inr (if myStatus k = INACTIVE then AtCreate (QueueTask t) else AtTestCreated t, s1)) s"
| "tstep polled th (AtCreate c) s =
     on_entered c (\<lambda>t k s1.
       case myKind k of
         TaskK \<Rightarrow> Inr (after_create c, store t CREATED s1)
       | CoroutineK \<Rightarrow> Inr (if myStatus k = ABORTED then after_create c else AtCreated c, s1)) s"
| "tstep polled th (AtCreated c) s =
     on_entered c (\<lambda>t k s1. Inr (after_create c,
       makeCurrent th t (s1\<lparr>heap := (heap s1)(t \<mapsto> k\<lparr>myStatus := CREATED, myCoroutine := True\<rparr>)\<rparr>))) s"
| "tstep polled th (AtTestCreated t) s =
     with_task t (\<lambda>k s1. Inr (if myStatus k = CREATED then AtEnter (QueueTask t) else AtTestPending t, s1)) s"
| "tstep polled th (AtTestPending t) s =
     with_task t (\<lambda>k s1. Inr (if myStatus k = PENDING then AtEnter (QueueTask t) else AtTestPush t, s1)) s"
| "tstep polled th (AtEnter c) s =
     on_entered c (\<lambda>t k s1.
       Inr (if myStatus k = ABORTED then after_enter (myThreadInitQueue s1) c
            else AtActive c (myStatus k = CREATED), s1)) s"
| "tstep polled th (AtActive c starts) s =
     on_entered c (\<lambda>t k s1.
       Inr (case myKind k of
              TaskK \<Rightarrow> AtBody c (myHandler k)
            | CoroutineK \<Rightarrow> if starts then AtCoroutine c else AtCoActive c,
            makeCurrent th t (store t ACTIVE s1))) s"
| "tstep polled th (AtCoroutine c) s =
     on_entered c (\<lambda>t k s1.
       Inr (if myStatus k = ABORTED then after_enter (myThreadInitQueue s1) c else AtCoActive c, s1)) s"
| "tstep polled th (AtCoActive c) s =
     on_entered c (\<lambda>t k s1. Inr (AtBody c (myHandler k), store t ACTIVE (makeCurrent th t s1))) s"
| "tstep polled th (AtBody c as) s = body_step th c as s"
| "tstep polled th (AtCount u c as) s = Inr (AtPush u c as, s\<lparr>myTaskCount := myTaskCount s + 1\<rparr>)"
| "tstep polled th (AtPush u c as) s = Inr (AtBalance c as, s\<lparr>myTaskQueue := myTaskQueue s @ [u]\<rparr>)"
| "tstep polled th (AtBalance c as) s =
     Inr (if myTaskCount s > 0 \<and> myThreadGroup s < unat (myMaxThreads s) then AtAddThread c as
          else AtBody c as, s)"
| "tstep polled th (AtAddThread c as) s = Inr (AtBalance c as, addThread s)"
| "tstep polled th (AtAbortHandlers u c as) s =
     with_task u (\<lambda>k s1. Inr (AtBody c as, run_handlers (myCancellationHandlers k) s1)) s"
| "tstep polled th (AtAwaitHandlers u c as) s =
     rbind (await_handlers u s) (\<lambda>(f, s1). Inr (AtBody c (WaitFlag f # as), s1))"
| "tstep polled th (AtSuspend t c as) s =
     Inr (after_enter (myThreadInitQueue s) c, set_handler t as (store t PENDING s))"
| "tstep polled th (AtFinish c) s =
     on_entered c (\<lambda>t k s1. Inr (after_enter (myThreadInitQueue s1) c, store t FINISHED s1)) s"
| "tstep polled th (AtTestPush t) s =
     with_task t (\<lambda>k s1. Inr (if myStatus k = PENDING then (AtRepush t, s1)
                             else (AtExit (QueueTask t), release_current th s1))) s"
| "tstep polled th (AtRepush t) s =
     Inr (AtRecount, release_current th (s\<lparr>myTaskQueue := myTaskQueue s @ [t]\<rparr>))"
| "tstep polled th AtRecount s = Inr (AtLeave, s\<lparr>myTaskCount := myTaskCount s + 1\<rparr>)"
| "tstep polled th (AtExit c) s =
     on_entered c (\<lambda>t k s1.
       Inr (case c of InitTask _ ts \<Rightarrow> AtInit ts | _ \<Rightarrow> AtDelete t,
            run_handlers (myCompletionHandlers k) s1)) s"
| "tstep polled th (AtDelete t) s = rbind (delete_task t s) (\<lambda>s1. Inr (AtLeave, s1))"
| "tstep polled th AtLeave s = Inr (AtTestPause, s\<lparr>myActiveTaskCount := myActiveTaskCount s - 1\<rparr>)"
| "tstep polled th AtTestPause s = Inr (if myPauseTasks s then AtDrained else AtPop, s)"
| "tstep polled th AtDrained s = Inr (if myServiceStopped s then AtDelist else AtLoop, s)"
| "tstep polled th AtDelist s = Inr (AtEnd, s\<lparr>myThreadCount := myThreadCount s - 1\<rparr>)"
| "tstep polled th AtEnd s =
     Inr (if th = 0 \<and> myHoldCount s \<noteq> 0 then AtInit (myThreadInitQueue s) else AtEnd, s)"


section \<open>The machine\<close>

text \<open>
  \<open>m_points\<close> are the threads, the main thread first and the threads of \<open>myThreadGroup\<close> in the order
  of their creation behind it; \<open>m_timers\<close> are the tasks of the timed schedule functions that wait
  for their timer; \<open>m_fault\<close> is the exception that left a thread, which ends the process, or the
  undefined behaviour that was reached.
\<close>

record machine =
  m_sched :: sched
  m_points :: "point list"
  m_timers :: "nat list"
  m_fault :: "exn option"

definition at_point :: "machine \<Rightarrow> nat \<Rightarrow> point \<Rightarrow> bool" where
  "at_point m i p \<longleftrightarrow> i < length (m_points m) \<and> m_points m ! i = p \<and> m_fault m = None"

text \<open>A thread that \<open>addThread\<close> created starts in \<open>dispatcher\<close>.\<close>

definition moved :: "nat \<Rightarrow> point \<Rightarrow> sched \<Rightarrow> machine \<Rightarrow> machine" where
  "moved i p s m = m\<lparr>m_sched := s,
     m_points := (m_points m)[i := p] @
       replicate (myThreadGroup s - myThreadGroup (m_sched m)) (AtInit (myThreadInitQueue s))\<rparr>"

text \<open>
  What a step does that the properties speak of: a \<open>push\<close>, a \<open>pop\<close>, a status set by \<open>abort\<close>, a
  deletion; \<open>Run\<close> is the call of the closure of a task of the queue, \<open>Turn\<close> the start or the
  resumption of a coroutine of the queue.
\<close>

datatype event = Put nat | Take nat | Run nat | Turn nat | Aborted nat | Free nat

fun called :: "caller \<Rightarrow> sched \<Rightarrow> event list" where
  "called (QueueTask t) s =
     (case heap s t of None \<Rightarrow> [] | Some k \<Rightarrow> (case myKind k of TaskK \<Rightarrow> [Run t] | CoroutineK \<Rightarrow> [Turn t]))"
| "called c s = []"

fun events :: "point \<Rightarrow> point \<Rightarrow> sched \<Rightarrow> event list" where
  "events AtPop p' s = (case myTaskQueue s of [] \<Rightarrow> [] | t # q \<Rightarrow> [Take t])"
| "events (AtPush u c as) p' s = [Put u]"
| "events (AtRepush t) p' s = [Put t]"
| "events (AtActive c starts) p' s = (case p' of AtBody _ _ \<Rightarrow> called c s | _ \<Rightarrow> [])"
| "events (AtCoActive c) p' s = called c s"
| "events (AtBody c (AbortTask u # as)) p' s = [Aborted u]"
| "events (AtDelete t) p' s = [Free t]"
| "events p p' s = []"

text \<open>
  \<open>arm\<close> is a timed schedule function called by a handler, \<open>fire\<close> the expiry or the cancellation of
  the timer, whose handler schedules the task either way.
\<close>

inductive mstep :: "machine \<Rightarrow> event list \<Rightarrow> machine \<Rightarrow> bool" where
  go: "at_point m i p \<Longrightarrow> tstep polled i p (m_sched m) = Inr (p', s') \<Longrightarrow>
    mstep m (events p p' (m_sched m)) (moved i p' s' m)"
| die: "at_point m i p \<Longrightarrow> tstep polled i p (m_sched m) = Inl e \<Longrightarrow> mstep m [] (m\<lparr>m_fault := Some e\<rparr>)"
| arm: "at_point m i AtLoop \<Longrightarrow> scheduleTimed k h timer (Some b) (m_sched m) = Inr (u, s') \<Longrightarrow>
    mstep m [] (m\<lparr>m_sched := s', m_timers := m_timers m @ [u]\<rparr>)"
| fire: "at_point m i AtLoop \<Longrightarrow> u \<in> set (m_timers m) \<Longrightarrow>
    mstep m [] (m\<lparr>m_points := (m_points m)[i := AtCount u IoHandler []], m_timers := remove1 u (m_timers m)\<rparr>)"

inductive mrun :: "machine \<Rightarrow> event list \<Rightarrow> machine \<Rightarrow> bool" for m where
  refl: "mrun m [] m"
| step: "mrun m es m' \<Longrightarrow> mstep m' e m'' \<Longrightarrow> mrun m (es @ e) m''"

text \<open>
  The start: \<open>Nexus::run\<close> has constructed the scheduler and started its service, the closures
  \<open>inits\<close> are the initialisation tasks, and the main thread runs \<open>as\<close> before it joins the pool.
\<close>

fun init_tasks :: "act list list \<Rightarrow> sched \<Rightarrow> sched" where
  "init_tasks [] s = s"
| "init_tasks (b # bs) s =
     (case scheduleThreadInitTask (Some b) s of Inl e \<Rightarrow> s | Inr (t, s1) \<Rightarrow> init_tasks bs s1)"

definition boot :: "usize \<Rightarrow> act list list \<Rightarrow> act list \<Rightarrow> machine" where
  "boot maxThreads inits as =
     \<lparr>m_sched = (init_tasks inits (new_scheduler maxThreads))\<lparr>myServiceStopped := False, myWork := True\<rparr>,
      m_points = [AtBody Entry as], m_timers = [], m_fault = None\<rparr>"

section \<open>Executions\<close>

text \<open>
  An execution given by the thread that moves at each step and what it polls; \<open>None\<close> when a thread
  of the list does not exist or the process has ended before.
\<close>

fun execute :: "(nat \<times> act list option) list \<Rightarrow> machine \<Rightarrow> (event list \<times> machine) option" where
  "execute [] m = Some ([], m)"
| "execute ((i, polled) # is) m =
     (if i < length (m_points m) \<and> m_fault m = None then
        (case tstep polled i (m_points m ! i) (m_sched m) of
           Inl e \<Rightarrow> execute is (m\<lparr>m_fault := Some e\<rparr>)
         | Inr (p', s') \<Rightarrow>
             (case execute is (moved i p' s' m) of
                None \<Rightarrow> None
              | Some (es, m') \<Rightarrow> Some (events (m_points m ! i) p' (m_sched m) @ es, m')))
      else None)"

lemma mrun_trans: "mrun m' es' m'' \<Longrightarrow> mrun m es m' \<Longrightarrow> mrun m (es @ es') m''"
  by (induction rule: mrun.induct) (auto simp flip: append_assoc intro: mrun.step)

lemma mrun_one: "mstep m e m' \<Longrightarrow> mrun m e m'"
  using mrun.step [OF mrun.refl] by fastforce

lemma execute_mrun: "execute is m = Some (es, m') \<Longrightarrow> mrun m es m'"
proof (induction "is" m arbitrary: es rule: execute.induct)
  case (2 i polled "is" m)
  then have at: "at_point m i (m_points m ! i)" by (simp add: at_point_def split: if_splits)
  show ?case
  proof (cases "tstep polled i (m_points m ! i) (m_sched m)")
    case (Inl e)
    then have "mrun (m\<lparr>m_fault := Some e\<rparr>) es m'" using 2 by (simp split: if_splits)
    from mrun_trans [OF this mrun_one [OF mstep.die [OF at Inl]]] show ?thesis by simp
  next
    case (Inr r)
    obtain p' s' where r: "r = (p', s')" by (cases r)
    then obtain es1 where es1: "execute is (moved i p' s' m) = Some (es1, m')"
      "es = events (m_points m ! i) p' (m_sched m) @ es1"
      using "2.prems" Inr by (auto split: if_splits option.splits)
    then have "mrun (moved i p' s' m) es1 m'" using 2 Inr r by (auto split: if_splits)
    from mrun_trans [OF this mrun_one [OF mstep.go [OF at]]] show ?thesis using Inr r es1(2) by simp
  qed
qed (auto intro: mrun.refl)

end
