(* ===== verification/ThreadsInv.thy ===== *)
theory ThreadsInv
  imports Threads "HOL-Library.Multiset"
begin

text \<open>
  Who has a task, in the machine of \<open>Threads.thy\<close>: every task of the queue is in one place, the
  queue, the hand of one thread or a timer, and it is live there, whatever the interleaving; so
  the scheduler never uses a deleted task.
\<close>

section \<open>Places\<close>

primrec caller_task :: "caller \<Rightarrow> nat list" where
  "caller_task (QueueTask t) = [t]"
| "caller_task (InitTask t ts) = []"
| "caller_task IoHandler = []"
| "caller_task Entry = []"

text \<open>The tasks of the queue that a thread has taken out, or is about to put in.\<close>

primrec hand :: "point \<Rightarrow> nat list" where
  "hand (AtInit ts) = []"
| "hand AtEnlist = []"
| "hand AtLoop = []"
| "hand AtDrain = []"
| "hand AtPop = []"
| "hand (AtActivate t) = [t]"
| "hand (AtUncount t) = [t]"
| "hand (AtCurrent t) = [t]"
| "hand (AtTestInactive t) = [t]"
| "hand (AtCreate c) = caller_task c"
| "hand (AtCreated c) = caller_task c"
| "hand (AtTestCreated t) = [t]"
| "hand (AtTestPending t) = [t]"
| "hand (AtEnter c) = caller_task c"
| "hand (AtActive c starts) = caller_task c"
| "hand (AtCoroutine c) = caller_task c"
| "hand (AtCoActive c) = caller_task c"
| "hand (AtBody c as) = caller_task c"
| "hand (AtCount u c as) = u # caller_task c"
| "hand (AtPush u c as) = u # caller_task c"
| "hand (AtBalance c as) = caller_task c"
| "hand (AtAddThread c as) = caller_task c"
| "hand (AtAbortHandlers u c as) = caller_task c"
| "hand (AtAwaitHandlers u c as) = caller_task c"
| "hand (AtSuspend u c as) = caller_task c"
| "hand (AtFinish c) = caller_task c"
| "hand (AtTestPush t) = [t]"
| "hand (AtRepush t) = [t]"
| "hand AtRecount = []"
| "hand (AtExit c) = caller_task c"
| "hand (AtDelete t) = [t]"
| "hand AtLeave = []"
| "hand AtTestPause = []"
| "hand AtDrained = []"
| "hand AtDelist = []"
| "hand AtEnd = []"

definition hands :: "point list \<Rightarrow> nat multiset" where
  "hands ps = (\<Sum>p\<leftarrow>ps. mset (hand p))"

definition places :: "machine \<Rightarrow> nat multiset" where
  "places m = mset (myTaskQueue (m_sched m)) + hands (m_points m) + mset (m_timers m)"

lemma hands_update:
  "i < length ps \<Longrightarrow> hands (ps[i := p]) + mset (hand (ps ! i)) = hands ps + mset (hand p)"
proof (induction ps arbitrary: i)
  case (Cons q ps)
  then show ?case by (cases i) (auto simp: hands_def ac_simps)
qed simp

lemma hands_append: "hands (ps @ qs) = hands ps + hands qs"
  by (simp add: hands_def)

lemma hands_replicate [simp]: "hands (replicate n (AtInit ts)) = {#}"
  by (induction n) (simp_all add: hands_def)

lemma hand_in_hands: "i < length ps \<Longrightarrow> mset (hand (ps ! i)) \<subseteq># hands ps"
proof (induction ps arbitrary: i)
  case (Cons q ps)
  show ?case
  proof (cases i)
    case 0
    then show ?thesis by (simp add: hands_def)
  next
    case (Suc j)
    then have "mset (hand (ps ! j)) \<subseteq># hands ps" using Cons by simp
    then show ?thesis using Suc by (simp add: hands_def subset_mset.add_increasing)
  qed
qed simp

text \<open>The tasks a step creates, and those that leave their place: leaked at the test of \<open>ABORTED\<close>, or deleted.\<close>

fun born :: "point \<Rightarrow> sched \<Rightarrow> nat list" where
  "born (AtBody c (SpawnTask b # as)) s = [nextTask s]"
| "born (AtBody c (SpawnCoroutine b # as)) s = [nextTask s]"
| "born p s = []"

fun leaked :: "point \<Rightarrow> point \<Rightarrow> nat list" where
  "leaked (AtCurrent t) AtLeave = [t]"
| "leaked p p' = []"

fun deleted :: "point \<Rightarrow> nat list" where
  "deleted (AtDelete t) = [t]"
| "deleted p = []"

lemmas step_simps = with_task_def on_entered_def rbind_eq_Inr

text \<open>The steps of a closure, by its first action.\<close>

lemma body_step_cases:
  assumes "body_step th c as s = Inr (p', s')"
    and nil_task: "\<And>t. as = [] \<Longrightarrow> entered c = Some t \<Longrightarrow> p' = AtFinish c \<Longrightarrow> s' = s \<Longrightarrow> P"
    and nil_none: "as = [] \<Longrightarrow> entered c = None \<Longrightarrow> p' = after_enter (myThreadInitQueue s) c \<Longrightarrow> s' = s \<Longrightarrow> P"
    and host: "\<And>n bs. as = Host n # bs \<Longrightarrow> p' = AtBody c bs \<Longrightarrow> s' = s\<lparr>trace := trace s @ [n]\<rparr> \<Longrightarrow> P"
    and spawn: "\<And>k h b bs. as = SpawnTask b # bs \<and> k = TaskK \<and> h \<or> as = SpawnCoroutine b # bs \<and> k = CoroutineK \<and> \<not> h \<Longrightarrow>
        p' = AtCount (nextTask s) c bs \<Longrightarrow> s' = snd (new_task k h b s) \<Longrightarrow> P"
    and abrt: "\<And>u k bs. as = AbortTask u # bs \<Longrightarrow> heap s u = Some k \<Longrightarrow> p' = AtAbortHandlers u c bs \<Longrightarrow>
        s' = store u ABORTED s \<Longrightarrow> P"
    and suspend: "\<And>s1 bs cs. as = Yield # bs \<and> cs = bs \<or> (\<exists>f. as = WaitFlag f # bs \<and> cs = as) \<Longrightarrow> yield th s = Inr s1 \<Longrightarrow>
        p' = AtSuspend (the (myCurrentTask s th)) c cs \<Longrightarrow> s' = s \<Longrightarrow> P"
    and pause: "\<And>bs. as = Pause # bs \<Longrightarrow> p' = AtBody c bs \<Longrightarrow> s' = s\<lparr>myPauseTasks := True\<rparr> \<Longrightarrow> P"
    and resume: "\<And>bs. as = Resume # bs \<Longrightarrow> p' = AtBody c bs \<Longrightarrow> s' = s\<lparr>myPauseTasks := False\<rparr> \<Longrightarrow> P"
    and await: "\<And>u k bs. as = Await u # bs \<Longrightarrow> heap s u = Some k \<Longrightarrow>
        p' = AtBody c bs \<or> p' = AtAwaitHandlers u c bs \<Longrightarrow> s' = s \<Longrightarrow> P"
    and waited: "\<And>f bs. as = WaitFlag f # bs \<Longrightarrow> p' = AtBody c bs \<Longrightarrow> s' = s \<Longrightarrow> P"
  shows P
proof (cases as)
  case as: Nil
  show ?thesis
  proof (cases "entered c")
    case None
    then show ?thesis using assms(1) as by (intro nil_none) auto
  next
    case (Some t)
    then show ?thesis using assms(1) as by (intro nil_task) auto
  qed
next
  case as: (Cons a bs)
  note step = assms(1) [unfolded as]
  show ?thesis
  proof (cases a)
    case (Host n)
    then show ?thesis using step as by (intro host) auto
  next
    case (SpawnTask b)
    then show ?thesis using step as by (intro spawn [of b bs TaskK True]) (auto simp: new_task_def Let_def)
  next
    case (SpawnCoroutine b)
    then show ?thesis using step as by (intro spawn [of b bs CoroutineK False]) (auto simp: new_task_def Let_def)
  next
    case (AbortTask u)
    then obtain k where "heap s u = Some k" "p' = AtAbortHandlers u c bs" "s' = store u ABORTED s"
      using step by (auto simp: with_task_Inr)
    then show ?thesis using as AbortTask by (intro abrt) auto
  next
    case Yield
    show ?thesis
    proof (cases "yield th s")
      case (Inl e)
      then show ?thesis using step Yield by simp
    next
      case (Inr s1)
      then show ?thesis using step as Yield by (intro suspend [of bs bs s1]) auto
    qed
  next
    case (Throw m)
    then show ?thesis using step by simp
  next
    case Pause
    then show ?thesis using step as by (intro pause) (auto simp: Scheduler.pause_def)
  next
    case Resume
    then show ?thesis using step as by (intro resume) (auto simp: Scheduler.resume_def)
  next
    case (Await u)
    then obtain k where "heap s u = Some k" "p' = AtBody c bs \<or> p' = AtAwaitHandlers u c bs" "s' = s"
      using step by (auto simp: with_task_Inr split: if_splits)
    then show ?thesis using as Await by (intro await) auto
  next
    case (WaitFlag f)
    show ?thesis
    proof (cases "flags s f")
      case True
      then show ?thesis using step as WaitFlag by (intro waited) auto
    next
      case False
      show ?thesis
      proof (cases "yield th s")
        case (Inl e)
        then show ?thesis using step WaitFlag False by simp
      next
        case (Inr s1)
        then show ?thesis using step as WaitFlag False by (intro suspend [of bs as s1]) auto
      qed
    qed
  qed
qed

text \<open>What a step does to the queue and the hand of its thread.\<close>

lemma store_queue [simp]: "myTaskQueue (store t st s) = myTaskQueue s" "myTaskQueue (set_handler t b s) = myTaskQueue s"
  by (simp_all add: store_def set_handler_def split: option.split)

lemma hand_after [simp]:
  "hand (after_create c) = caller_task c" "hand (after_enter ts c) = caller_task c"
  by (cases c; simp)+

lemma run_handlers_queue [simp]: "myTaskQueue (run_handlers hs s) = myTaskQueue s"
proof (induction hs arbitrary: s)
  case (Cons h hs)
  show ?case using Cons.IH [of "run_handler h s"] by (cases h) (auto simp: run_handlers_def)
qed (simp add: run_handlers_def)

lemma caller_task_none [simp]: "entered c = None \<Longrightarrow> caller_task c = []"
  by (cases c) simp_all

lemma tstep_places:
  assumes "tstep polled th p s = Inr (p', s')"
  shows "mset (myTaskQueue s') + mset (hand p') + mset (leaked p p') + mset (deleted p) =
    mset (myTaskQueue s) + mset (hand p) + mset (born p s)"
proof (cases p)
  case (AtInit ts)
  then show ?thesis using assms by (cases ts) (auto simp: step_simps split: option.splits if_splits)
next
  case (AtBody c as)
  then have "body_step th c as s = Inr (p', s')" using assms by simp
  then show ?thesis unfolding AtBody
    by (elim body_step_cases) (auto simp: new_task_def Let_def Holder_def hold_def)
qed (use assms in \<open>auto simp: step_simps await_handlers_def addCancellationHandler_def addCompletionHandler_def
    makeCurrent_def release_current_def delete_task_def Holder_destroy_def release_def addThread_def Let_def
    split: option.splits list.splits if_splits kind.splits caller.splits\<close>)

section \<open>The effect of a step on the objects\<close>

definition kind_of :: "sched \<Rightarrow> nat \<Rightarrow> kind option" where
  "kind_of s t = map_option myKind (heap s t)"

definition status_of :: "sched \<Rightarrow> nat \<Rightarrow> status option" where
  "status_of s t = map_option myStatus (heap s t)"

text \<open>The task whose status a step may store; everything else a step stores is \<open>ABORTED\<close>.\<close>

definition entered_list :: "caller \<Rightarrow> nat list" where
  "entered_list c = (case entered c of None \<Rightarrow> [] | Some t \<Rightarrow> [t])"

fun writes :: "point \<Rightarrow> nat list" where
  "writes (AtCreate c) = entered_list c"
| "writes (AtCreated c) = entered_list c"
| "writes (AtActive c starts) = entered_list c"
| "writes (AtCoActive c) = entered_list c"
| "writes (AtFinish c) = entered_list c"
| "writes (AtSuspend u c as) = [u]"
| "writes p = []"

lemma heap_store [simp]: "heap (store t st s) = (heap s)(t := map_option (myStatus_update (\<lambda>_. st)) (heap s t))"
  by (auto simp: store_def split: option.split)

lemma heap_set_handler [simp]:
  "heap (set_handler t b s) = (heap s)(t := map_option (myHandler_update (\<lambda>_. b)) (heap s t))"
  by (auto simp: set_handler_def split: option.split)

lemma run_handlers_same [simp]:
  "nextTask (run_handlers hs s) = nextTask s" "myCurrentTask (run_handlers hs s) = myCurrentTask s"
  "myThreadInitQueue (run_handlers hs s) = myThreadInitQueue s" "myThreadGroup (run_handlers hs s) = myThreadGroup s"
  "heap (run_handlers hs s) = heap s" "myMaxThreads (run_handlers hs s) = myMaxThreads s"
  "myTaskCount (run_handlers hs s) = myTaskCount s" "myActiveTaskCount (run_handlers hs s) = myActiveTaskCount s"
proof -
  have "nextTask (run_handlers hs s) = nextTask s \<and> myCurrentTask (run_handlers hs s) = myCurrentTask s \<and>
      myThreadInitQueue (run_handlers hs s) = myThreadInitQueue s \<and> myThreadGroup (run_handlers hs s) = myThreadGroup s \<and>
      heap (run_handlers hs s) = heap s \<and> myMaxThreads (run_handlers hs s) = myMaxThreads s \<and>
      myTaskCount (run_handlers hs s) = myTaskCount s \<and> myActiveTaskCount (run_handlers hs s) = myActiveTaskCount s"
  proof (induction hs arbitrary: s)
    case (Cons h hs)
    show ?case using Cons.IH [of "run_handler h s"] by (cases h) (auto simp: run_handlers_def)
  qed (simp add: run_handlers_def)
  then show "nextTask (run_handlers hs s) = nextTask s" "myCurrentTask (run_handlers hs s) = myCurrentTask s"
    "myThreadInitQueue (run_handlers hs s) = myThreadInitQueue s" "myThreadGroup (run_handlers hs s) = myThreadGroup s"
    "heap (run_handlers hs s) = heap s" "myMaxThreads (run_handlers hs s) = myMaxThreads s"
    "myTaskCount (run_handlers hs s) = myTaskCount s" "myActiveTaskCount (run_handlers hs s) = myActiveTaskCount s" by auto
qed

lemma store_same [simp]:
  "nextTask (store t st s) = nextTask s" "myCurrentTask (store t st s) = myCurrentTask s"
  "myThreadInitQueue (store t st s) = myThreadInitQueue s" "myThreadGroup (store t st s) = myThreadGroup s"
  "myMaxThreads (store t st s) = myMaxThreads s" "myTaskCount (store t st s) = myTaskCount s"
  "myActiveTaskCount (store t st s) = myActiveTaskCount s"
  by (simp_all add: store_def split: option.split)

lemma set_handler_same [simp]:
  "nextTask (set_handler t b s) = nextTask s" "myCurrentTask (set_handler t b s) = myCurrentTask s"
  "myThreadInitQueue (set_handler t b s) = myThreadInitQueue s" "myThreadGroup (set_handler t b s) = myThreadGroup s"
  "myMaxThreads (set_handler t b s) = myMaxThreads s" "myTaskCount (set_handler t b s) = myTaskCount s"
  "myActiveTaskCount (set_handler t b s) = myActiveTaskCount s"
  by (simp_all add: set_handler_def split: option.split)

lemma makeCurrent_fields [simp]:
  "nextTask (makeCurrent th t s) = nextTask s" "heap (makeCurrent th t s) = heap s"
  "myThreadInitQueue (makeCurrent th t s) = myThreadInitQueue s" "myThreadGroup (makeCurrent th t s) = myThreadGroup s"
  "myMaxThreads (makeCurrent th t s) = myMaxThreads s" "myTaskCount (makeCurrent th t s) = myTaskCount s"
  "myActiveTaskCount (makeCurrent th t s) = myActiveTaskCount s" "myTaskQueue (makeCurrent th t s) = myTaskQueue s"
  "myCurrentTask (makeCurrent th t s) = (myCurrentTask s)(th := Some t)"
  by (simp_all add: makeCurrent_def)

lemma release_current_same [simp]:
  "nextTask (release_current th s) = nextTask s" "heap (release_current th s) = heap s"
  "myThreadInitQueue (release_current th s) = myThreadInitQueue s" "myThreadGroup (release_current th s) = myThreadGroup s"
  "myMaxThreads (release_current th s) = myMaxThreads s" "myTaskCount (release_current th s) = myTaskCount s"
  "myActiveTaskCount (release_current th s) = myActiveTaskCount s" "myTaskQueue (release_current th s) = myTaskQueue s"
  "myCurrentTask (release_current th s) = (myCurrentTask s)(th := None)"
  by (simp_all add: release_current_def)

lemma new_task_same [simp]:
  "nextTask (snd (new_task k h b s)) = Suc (nextTask s)" "myCurrentTask (snd (new_task k h b s)) = myCurrentTask s"
  "myThreadInitQueue (snd (new_task k h b s)) = myThreadInitQueue s" "myThreadGroup (snd (new_task k h b s)) = myThreadGroup s"
  "myMaxThreads (snd (new_task k h b s)) = myMaxThreads s" "myTaskCount (snd (new_task k h b s)) = myTaskCount s"
  "myActiveTaskCount (snd (new_task k h b s)) = myActiveTaskCount s" "myTaskQueue (snd (new_task k h b s)) = myTaskQueue s"
  "heap (snd (new_task k h b s)) = (heap s)(nextTask s \<mapsto> \<lparr>myKind = k, myHolds = h, myHandler = b,
     myCancellationHandlers = [], myCompletionHandlers = [], myCoroutine = False, myStatus = INACTIVE\<rparr>)"
  "fst (new_task k h b s) = nextTask s"
  by (simp_all add: new_task_def Let_def Holder_def hold_def)

lemma delete_task_result:
  assumes "delete_task t s = Inr s'"
  shows "nextTask s' = nextTask s" "myCurrentTask s' = myCurrentTask s" "myThreadInitQueue s' = myThreadInitQueue s"
    "myThreadGroup s' = myThreadGroup s" "myMaxThreads s' = myMaxThreads s" "myTaskCount s' = myTaskCount s"
    "myActiveTaskCount s' = myActiveTaskCount s" "myTaskQueue s' = myTaskQueue s" "heap s' = (heap s)(t := None)"
  using assms by (auto simp: delete_task_def Holder_destroy_def release_def split: option.splits if_splits)

lemma await_handlers_result:
  assumes "await_handlers u s = Inr (f, s')"
  shows "\<exists>k. heap s u = Some k \<and> s' = s\<lparr>nextFlag := Suc (nextFlag s), flags := (flags s)(nextFlag s := False),
    heap := (heap s)(u \<mapsto> k\<lparr>myCancellationHandlers := myCancellationHandlers k @ [SetFlag (nextFlag s)],
      myCompletionHandlers := myCompletionHandlers k @ [SetFlag (nextFlag s)]\<rparr>)\<rparr> \<and> f = nextFlag s"
  using assms by (auto simp: await_handlers_def addCancellationHandler_def addCompletionHandler_def Let_def
      step_simps split: option.splits)

text \<open>What a step leaves as it was, and how it changes the objects.\<close>

definition heap_step :: "nat \<Rightarrow> point \<Rightarrow> sched \<Rightarrow> sched \<Rightarrow> bool" where
  "heap_step th p s s' \<longleftrightarrow>
     nextTask s' = nextTask s + length (born p s) \<and>
     myThreadInitQueue s' = myThreadInitQueue s \<and> myMaxThreads s' = myMaxThreads s \<and>
     (\<forall>u \<in> set (born p s). status_of s' u = Some INACTIVE) \<and>
     (\<forall>u \<in> set (deleted p). heap s' u = None) \<and>
     (\<forall>u. u \<notin> set (born p s) \<longrightarrow> u \<notin> set (deleted p) \<longrightarrow> kind_of s' u = kind_of s u \<and>
        (u \<notin> set (writes p) \<longrightarrow> status_of s' u = status_of s u \<or> status_of s' u = Some ABORTED)) \<and>
     (\<forall>j. j \<noteq> th \<longrightarrow> myCurrentTask s' j = myCurrentTask s j)"

lemma tstep_heap:
  assumes "tstep polled th p s = Inr (p', s')"
  shows "heap_step th p s s'"
proof (cases p)
  case (AtInit ts)
  then show ?thesis using assms
    by (cases ts) (auto simp: step_simps heap_step_def split: option.splits if_splits)
next
  case (AtBody c as)
  then have "body_step th c as s = Inr (p', s')" using assms by simp
  then show ?thesis unfolding AtBody
    by (elim body_step_cases) (auto simp: heap_step_def kind_of_def status_of_def)
next
  case (AtAwaitHandlers u c as)
  then show ?thesis using assms
    by (auto simp: rbind_eq_Inr heap_step_def kind_of_def status_of_def dest!: await_handlers_result)
next
  case (AtDelete t)
  then obtain s1 where "delete_task t s = Inr s1" "s' = s1" using assms by (auto simp: rbind_eq_Inr)
  then show ?thesis using AtDelete
    by (auto simp: heap_step_def kind_of_def status_of_def delete_task_result)
qed (use assms in \<open>auto simp: step_simps heap_step_def kind_of_def status_of_def entered_list_def addThread_def
    option.map_comp comp_def
    split: option.splits list.splits if_splits kind.splits caller.splits\<close>)

lemma heap_step_keep:
  assumes "heap_step th p s s'" "u \<notin> set (born p s)" "u \<notin> set (deleted p)"
  shows "kind_of s' u = kind_of s u \<and>
    (u \<notin> set (writes p) \<longrightarrow> status_of s' u = status_of s u \<or> status_of s' u = Some ABORTED)"
proof -
  have "\<forall>u. u \<notin> set (born p s) \<longrightarrow> u \<notin> set (deleted p) \<longrightarrow> kind_of s' u = kind_of s u \<and>
      (u \<notin> set (writes p) \<longrightarrow> status_of s' u = status_of s u \<or> status_of s' u = Some ABORTED)"
    using assms(1) unfolding heap_step_def by (elim conjE) assumption
  then show ?thesis using assms(2,3) by simp
qed

section \<open>The invariant\<close>

text \<open>The task of the queue that a thread has as its current one.\<close>

primrec queue_task :: "caller \<Rightarrow> nat option" where
  "queue_task (QueueTask t) = Some t"
| "queue_task (InitTask t ts) = None"
| "queue_task IoHandler = None"
| "queue_task Entry = None"

fun runs :: "point \<Rightarrow> nat option" where
  "runs (AtCurrent t) = Some t"
| "runs (AtTestInactive t) = Some t"
| "runs (AtCreate c) = queue_task c"
| "runs (AtCreated c) = queue_task c"
| "runs (AtTestCreated t) = Some t"
| "runs (AtTestPending t) = Some t"
| "runs (AtEnter c) = queue_task c"
| "runs (AtActive c starts) = queue_task c"
| "runs (AtCoroutine c) = queue_task c"
| "runs (AtCoActive c) = queue_task c"
| "runs (AtBody c as) = queue_task c"
| "runs (AtCount u c as) = queue_task c"
| "runs (AtPush u c as) = queue_task c"
| "runs (AtBalance c as) = queue_task c"
| "runs (AtAddThread c as) = queue_task c"
| "runs (AtAbortHandlers u c as) = queue_task c"
| "runs (AtAwaitHandlers u c as) = queue_task c"
| "runs (AtSuspend u c as) = queue_task c"
| "runs (AtFinish c) = queue_task c"
| "runs (AtTestPush t) = Some t"
| "runs (AtRepush t) = Some t"
| "runs p = None"

primrec caller_ok :: "nat list \<Rightarrow> caller \<Rightarrow> bool" where
  "caller_ok ts (QueueTask t) = True"
| "caller_ok ts (InitTask t us) = (t \<in> set ts \<and> set us \<subseteq> set ts)"
| "caller_ok ts IoHandler = True"
| "caller_ok ts Entry = True"

abbreviation task_caller_ok :: "nat list \<Rightarrow> caller \<Rightarrow> bool" where
  "task_caller_ok ts c \<equiv> caller_ok ts c \<and> entered c \<noteq> None"

fun point_ok :: "nat list \<Rightarrow> point \<Rightarrow> bool" where
  "point_ok ts (AtInit us) = (set us \<subseteq> set ts)"
| "point_ok ts (AtCreate c) = task_caller_ok ts c"
| "point_ok ts (AtCreated c) = task_caller_ok ts c"
| "point_ok ts (AtEnter c) = task_caller_ok ts c"
| "point_ok ts (AtActive c starts) = task_caller_ok ts c"
| "point_ok ts (AtCoroutine c) = task_caller_ok ts c"
| "point_ok ts (AtCoActive c) = task_caller_ok ts c"
| "point_ok ts (AtFinish c) = task_caller_ok ts c"
| "point_ok ts (AtExit c) = task_caller_ok ts c"
| "point_ok ts (AtBody c as) = caller_ok ts c"
| "point_ok ts (AtCount u c as) = caller_ok ts c"
| "point_ok ts (AtPush u c as) = caller_ok ts c"
| "point_ok ts (AtBalance c as) = caller_ok ts c"
| "point_ok ts (AtAddThread c as) = caller_ok ts c"
| "point_ok ts (AtAbortHandlers u c as) = caller_ok ts c"
| "point_ok ts (AtAwaitHandlers u c as) = caller_ok ts c"
| "point_ok ts (AtSuspend u c as) = (c = QueueTask u)"
| "point_ok ts p = True"

lemma caller_ok_cases:
  "caller_ok ts c \<Longrightarrow> entered c = Some t \<Longrightarrow> c = QueueTask t \<or> t \<in> set ts \<and> (\<exists>us. c = InitTask t us \<and> set us \<subseteq> set ts)"
  by (cases c) auto

lemma queue_task_eq [simp]: "queue_task c = Some t \<longleftrightarrow> c = QueueTask t"
  by (cases c) auto

lemma runs_after [simp]: "runs (after_enter ts c) = queue_task c" "runs (after_create c) = queue_task c"
  by (cases c; simp)+

lemma runs_in_hand: "runs p = Some t \<Longrightarrow> t \<in> set (hand p)"
  by (induction p rule: runs.induct) auto

lemma writes_own: "point_ok ts p \<Longrightarrow> t \<in> set (writes p) \<Longrightarrow> t \<in> set (hand p) \<or> t \<in> set ts"
  by (induction p rule: writes.induct) (auto simp: entered_list_def split: option.splits dest: caller_ok_cases)

lemma deleted_in_hand: "t \<in> set (deleted p) \<Longrightarrow> t \<in> set (hand p)"
  by (cases p) auto

text \<open>The point a thread comes to is well-formed; a coroutine that yields is the one it runs.\<close>

lemma caller_ok_after [simp]:
  "task_caller_ok ts c \<Longrightarrow> point_ok ts (after_create c)"
  "caller_ok ts c \<Longrightarrow> point_ok ts (after_enter ts c)"
  by (cases c; simp)+

lemma yield_result:
  assumes "yield th s = Inr s1"
  shows "\<exists>t. myCurrentTask s th = Some t \<and> kind_of s t = Some CoroutineK \<and> status_of s t \<noteq> Some ABORTED"
  using assms
  by (auto simp: yield_def canYield_def task_yield_def with_task_def kind_of_def status_of_def
      split: option.splits if_splits kind.splits)

lemma tstep_point_ok:
  assumes "tstep polled th p s = Inr (p', s')" "point_ok (myThreadInitQueue s) p"
    and suspends: "\<And>c t. (\<exists>as. p = AtBody c as) \<Longrightarrow> myCurrentTask s th = Some t \<Longrightarrow> kind_of s t = Some CoroutineK \<Longrightarrow>
      status_of s t \<noteq> Some ABORTED \<Longrightarrow> c = QueueTask t"
  shows "point_ok (myThreadInitQueue s) p'"
proof (cases p)
  case (AtInit ts)
  then show ?thesis using assms(1,2) by (cases ts) (auto simp: step_simps split: option.splits if_splits)
next
  case (AtBody c as)
  have step: "body_step th c as s = Inr (p', s')" using assms(1) AtBody by simp
  have "c = QueueTask (the (myCurrentTask s th))" if y: "yield th s = Inr s1" for s1
    using yield_result [OF y] suspends AtBody by auto
  then show ?thesis using step assms(2) unfolding AtBody by (elim body_step_cases) auto
qed (use assms(1,2) in \<open>auto simp: step_simps split: option.splits list.splits if_splits kind.splits caller.splits\<close>)

text \<open>What becomes of the current task of the thread that moves.\<close>

lemma tstep_runs:
  assumes "tstep polled th p s = Inr (p', s')" "\<And>u. runs p = Some u \<Longrightarrow> myCurrentTask s th = Some u"
    "runs p' = Some t"
  shows "myCurrentTask s' th = Some t"
proof (cases p)
  case (AtInit ts)
  then show ?thesis using assms by (cases ts) (auto simp: step_simps split: option.splits if_splits)
next
  case (AtBody c as)
  then have "body_step th c as s = Inr (p', s')" using assms by simp
  then show ?thesis using assms(2,3) unfolding AtBody
    by (elim body_step_cases) auto
next
  case (AtAwaitHandlers u c as)
  then show ?thesis using assms by (auto simp: rbind_eq_Inr dest!: await_handlers_result)
next
  case (AtDelete t)
  then show ?thesis using assms by (auto simp: rbind_eq_Inr)
qed (use assms in \<open>auto simp: step_simps addThread_def
    split: option.splits list.splits if_splits kind.splits caller.splits\<close>)

lemma tstep_current:
  assumes "tstep polled th p s = Inr (p', s')" "point_ok (myThreadInitQueue s) p"
    "myCurrentTask s' th = Some t"
  shows "runs p' = Some t \<or> t \<in> set (myThreadInitQueue s) \<or>
    myCurrentTask s th = Some t \<and> (runs p \<noteq> Some t \<or> leaked p p' = [t] \<and> status_of s' t = Some ABORTED)"
proof (cases p)
  case (AtInit ts)
  then show ?thesis using assms by (cases ts) (auto simp: step_simps split: option.splits if_splits)
next
  case (AtBody c as)
  then have "body_step th c as s = Inr (p', s')" using assms by simp
  then show ?thesis using assms(2,3) unfolding AtBody
    by (elim body_step_cases) auto
next
  case (AtAwaitHandlers u c as)
  then show ?thesis using assms by (auto simp: rbind_eq_Inr dest!: await_handlers_result)
next
  case (AtDelete t)
  then show ?thesis using assms by (auto simp: rbind_eq_Inr delete_task_result)
qed (use assms in \<open>auto simp: step_simps addThread_def status_of_def dest!: caller_ok_cases
    split: option.splits list.splits if_splits kind.splits caller.splits\<close>)

text \<open>
  The invariant: a task has at most one place, and is live there; the initialisation tasks are
  live and have none; every thread is at a sensible point; the task a thread runs is its current
  one, no other thread has it as the current one, and what is current without having a place was
  leaked and is aborted.
\<close>

definition initialised :: "sched \<Rightarrow> nat multiset \<Rightarrow> bool" where
  "initialised s pl \<longleftrightarrow> (\<forall>t \<in> set (myThreadInitQueue s). kind_of s t = Some TaskK \<and> t \<notin># pl)"

definition single_place :: "sched \<Rightarrow> nat multiset \<Rightarrow> bool" where
  "single_place s pl \<longleftrightarrow> (\<forall>t. count pl t \<le> 1) \<and> (\<forall>t. t \<in># pl \<longrightarrow> heap s t \<noteq> None) \<and>
     (\<forall>t \<ge> nextTask s. heap s t = None)"

definition current_ok :: "sched \<Rightarrow> nat multiset \<Rightarrow> nat \<Rightarrow> point option \<Rightarrow> bool" where
  "current_ok s pl i p \<longleftrightarrow>
     (\<forall>t. p \<noteq> None \<longrightarrow> runs (the p) = Some t \<longrightarrow> myCurrentTask s i = Some t) \<and>
     (\<forall>t. myCurrentTask s i = Some t \<longrightarrow> heap s t \<noteq> None \<and>
        (if t \<in># pl then p \<noteq> None \<and> runs (the p) = Some t
         else t \<in> set (myThreadInitQueue s) \<or> status_of s t = Some ABORTED))"

lemma current_okD:
  assumes "current_ok s pl i p"
  shows "myCurrentTask s i = Some t \<Longrightarrow> heap s t \<noteq> None"
    "myCurrentTask s i = Some t \<Longrightarrow> t \<in># pl \<Longrightarrow> \<exists>q. p = Some q \<and> runs q = Some t"
    "myCurrentTask s i = Some t \<Longrightarrow> t \<notin># pl \<Longrightarrow> t \<in> set (myThreadInitQueue s) \<or> status_of s t = Some ABORTED"
    "p = Some q \<Longrightarrow> runs q = Some t \<Longrightarrow> myCurrentTask s i = Some t"
proof -
  have c: "heap s t \<noteq> None \<and> (if t \<in># pl then p \<noteq> None \<and> runs (the p) = Some t
      else t \<in> set (myThreadInitQueue s) \<or> status_of s t = Some ABORTED)" if "myCurrentTask s i = Some t"
    using assms that unfolding current_ok_def by blast
  show "heap s t \<noteq> None" if "myCurrentTask s i = Some t" using c [OF that] by blast
  show "\<exists>q. p = Some q \<and> runs q = Some t" if "myCurrentTask s i = Some t" "t \<in># pl"
    using c [OF that(1)] that(2) by (cases p) simp_all
  show "t \<in> set (myThreadInitQueue s) \<or> status_of s t = Some ABORTED" if "myCurrentTask s i = Some t" "t \<notin># pl"
    using c [OF that(1)] that(2) by simp
  show "myCurrentTask s i = Some t" if "p = Some q" "runs q = Some t"
    using assms that unfolding current_ok_def by simp
qed

lemma current_okI:
  assumes "\<And>t q. p = Some q \<Longrightarrow> runs q = Some t \<Longrightarrow> myCurrentTask s i = Some t"
    "\<And>t. myCurrentTask s i = Some t \<Longrightarrow> heap s t \<noteq> None \<and> (if t \<in># pl then \<exists>q. p = Some q \<and> runs q = Some t
      else t \<in> set (myThreadInitQueue s) \<or> status_of s t = Some ABORTED)"
  shows "current_ok s pl i p"
proof -
  have "heap s t \<noteq> None \<and> (if t \<in># pl then p \<noteq> None \<and> runs (the p) = Some t
      else t \<in> set (myThreadInitQueue s) \<or> status_of s t = Some ABORTED)" if "myCurrentTask s i = Some t" for t
    using assms(2) [OF that] by (simp split: if_splits) force
  moreover have "myCurrentTask s i = Some t" if "p \<noteq> None" "runs (the p) = Some t" for t
    using assms(1) [of "the p" t] that by simp
  ultimately show ?thesis unfolding current_ok_def by blast
qed

definition point_of :: "machine \<Rightarrow> nat \<Rightarrow> point option" where
  "point_of m i = (if i < length (m_points m) then Some (m_points m ! i) else None)"

definition threads_inv :: "machine \<Rightarrow> bool" where
  "threads_inv m \<longleftrightarrow> single_place (m_sched m) (places m) \<and> initialised (m_sched m) (places m) \<and>
     (\<forall>p \<in> set (m_points m). point_ok (myThreadInitQueue (m_sched m)) p) \<and>
     (\<forall>i. current_ok (m_sched m) (places m) i (point_of m i))"

lemma heap_None_iff: "heap s t = None \<longleftrightarrow> kind_of s t = None" "heap s t = None \<longleftrightarrow> status_of s t = None"
  by (simp_all add: kind_of_def status_of_def)

text \<open>The places after a step.\<close>

lemma tstep_hands:
  assumes "i < length (m_points m)" "m_points m ! i = p"
  shows "places (moved i p' s' m) + mset (hand p) + mset (myTaskQueue (m_sched m)) =
    places m + mset (hand p') + mset (myTaskQueue s')"
proof -
  have "hands ((m_points m)[i := p']) + mset (hand p) = hands (m_points m) + mset (hand p')"
    using hands_update [of i "m_points m" p'] assms by simp
  then show ?thesis
    by (simp add: places_def moved_def hands_append ac_simps)
qed

lemma tstep_places_machine:
  assumes "i < length (m_points m)" "m_points m ! i = p" "tstep polled i p (m_sched m) = Inr (p', s')"
  shows "places (moved i p' s' m) + mset (leaked p p') + mset (deleted p) = places m + mset (born p (m_sched m))"
proof -
  let ?q = "mset (hand p) + mset (myTaskQueue (m_sched m))"
  have "places (moved i p' s' m) + mset (leaked p p') + mset (deleted p) + ?q
    = places m + (mset (myTaskQueue s') + mset (hand p') + mset (leaked p p') + mset (deleted p))"
    using tstep_hands [OF assms(1,2), of p' s'] by (simp add: ac_simps)
  also have "\<dots> = places m + mset (born p (m_sched m)) + ?q"
    using tstep_places [OF assms(3)] by (simp add: ac_simps)
  finally show ?thesis by simp
qed

lemma hand_in_places:
  assumes "i < length (m_points m)" "t \<in> set (hand (m_points m ! i))"
  shows "t \<in># places m"
proof -
  have "t \<in># mset (hand (m_points m ! i))" using assms(2) by simp
  then have "t \<in># hands (m_points m)" using mset_subset_eqD [OF hand_in_hands [OF assms(1)]] by blast
  then show ?thesis by (simp add: places_def)
qed

lemma one_hand:
  assumes "\<forall>t. count (places m) t \<le> 1" "i < length (m_points m)" "j < length (m_points m)" "i \<noteq> j"
    "t \<in> set (hand (m_points m ! i))" "t \<in> set (hand (m_points m ! j))"
  shows False
proof -
  let ?ps = "(m_points m)[i := AtEnd]"
  have "hands ?ps + mset (hand (m_points m ! i)) = hands (m_points m)"
    using hands_update [OF assms(2), of AtEnd] by simp
  moreover have "t \<in># hands ?ps"
    using hand_in_hands [of j ?ps] assms(3,4,6) mset_subset_eqD by (fastforce simp: nth_list_update)
  ultimately have "count (hands (m_points m)) t \<ge> 2"
    using assms(5) by (metis count_greater_zero_iff count_union add_mono one_add_one set_mset_mset
        Suc_leI One_nat_def)
  then have "count (places m) t \<ge> 2" by (simp add: places_def)
  with assms(1) show False by (metis Suc_1 not_less_eq_eq)
qed

section \<open>Preservation\<close>

lemma born_cases: "born p s = [] \<or> born p s = [nextTask s]"
  by (cases "(p, s)" rule: born.cases) auto

text \<open>What a step needs to know to keep the places single.\<close>

lemma places_step:
  assumes sp: "single_place s pl" and init: "initialised s pl" and h: "heap_step th p s s'"
    and pl: "pl' + mset (leaked p p') + mset (deleted p) = pl + mset (born p s)"
    and hand: "\<And>t. t \<in> set (hand p) \<Longrightarrow> t \<in># pl"
  shows "single_place s' pl'" "initialised s' pl'"
    "\<And>t. t \<in># pl' \<Longrightarrow> t \<in># pl \<or> t \<in> set (born p s)" "\<And>t. t \<in> set (born p s) \<Longrightarrow> heap s t = None"
    "\<And>t. t \<in># pl \<Longrightarrow> t \<notin># pl' \<Longrightarrow> t \<in> set (leaked p p') \<or> t \<in> set (deleted p)"
    "\<And>t. heap s t \<noteq> None \<Longrightarrow> t \<notin> set (deleted p) \<Longrightarrow> kind_of s' t = kind_of s t \<and>
      (t \<notin> set (writes p) \<longrightarrow> status_of s' t = status_of s t \<or> status_of s' t = Some ABORTED)"
proof -
  show new: "heap s t = None" if "t \<in> set (born p s)" for t
    using that sp born_cases [of p s] by (auto simp: single_place_def)
  have cnt: "count pl' t + count (mset (leaked p p')) t + count (mset (deleted p)) t = count pl t + count (mset (born p s)) t" for t
    using arg_cong [OF pl, of "\<lambda>x. count x t"] by simp
  show from_pl: "t \<in># pl \<or> t \<in> set (born p s)" if "t \<in># pl'" for t
    using that cnt [of t] by (metis add_is_0 count_eq_zero_iff set_mset_mset)
  show to_pl: "t \<in> set (leaked p p') \<or> t \<in> set (deleted p)" if "t \<in># pl" "t \<notin># pl'" for t
    using that cnt [of t] by (metis add_is_0 count_eq_zero_iff set_mset_mset add.commute)
  show keep: "kind_of s' t = kind_of s t \<and>
      (t \<notin> set (writes p) \<longrightarrow> status_of s' t = status_of s t \<or> status_of s' t = Some ABORTED)"
    if "heap s t \<noteq> None" "t \<notin> set (deleted p)" for t
  proof -
    have "t \<notin> set (born p s)" using new [of t] that(1) by auto
    then show ?thesis by (rule heap_step_keep [OF h _ that(2)])
  qed
  have born1: "count (mset (born p s)) t \<le> 1" for t using born_cases [of p s] by auto
  have one: "count pl' t \<le> 1" for t
  proof (cases "t \<in> set (born p s)")
    case True
    then have "t \<notin># pl" using new sp by (auto simp: single_place_def)
    then have "count pl t = 0" by (simp add: not_in_iff)
    then show ?thesis using cnt [of t] born1 [of t] by linarith
  next
    case False
    moreover have "count pl t \<le> 1" using sp by (simp add: single_place_def)
    moreover have "count (mset (born p s)) t = 0" using False by (simp add: count_mset_0_iff)
    ultimately show ?thesis using cnt [of t] by linarith
  qed
  have gone: "t \<notin># pl'" if "t \<in> set (deleted p)" for t
  proof -
    have pl: "count pl t \<le> 1" using sp by (simp add: single_place_def)
    have "t \<in># pl" using hand deleted_in_hand that by blast
    then have "heap s t \<noteq> None" using sp by (auto simp: single_place_def)
    then have "t \<notin> set (born p s)" using new by auto
    moreover have "count (mset (deleted p)) t \<ge> 1" using that by (simp add: count_greater_eq_one_iff)
    moreover have "count (mset (born p s)) t = 0" using calculation(1) by (simp add: count_mset_0_iff)
    ultimately have "count pl' t = 0" using cnt [of t] pl by linarith
    then show ?thesis by (simp add: not_in_iff)
  qed
  have live: "heap s' t \<noteq> None" if "t \<in># pl'" for t
  proof (cases "t \<in> set (born p s)")
    case True
    then show ?thesis using h by (auto simp: heap_step_def heap_None_iff(2))
  next
    case False
    then have "t \<in># pl" using from_pl that by blast
    then have "heap s t \<noteq> None" using sp by (simp add: single_place_def)
    moreover have "t \<notin> set (deleted p)" using that gone by blast
    ultimately show ?thesis using keep by (auto simp: heap_None_iff(1))
  qed
  have dead: "heap s' t = None" if "t \<ge> nextTask s'" for t
  proof (cases "t \<in> set (deleted p)")
    case True
    then show ?thesis using h by (auto simp: heap_step_def)
  next
    case False
    have "t \<notin> set (born p s)" "heap s t = None"
      using that h sp born_cases [of p s] by (auto simp: heap_step_def single_place_def)
    then show ?thesis using h False by (auto simp: heap_step_def heap_None_iff(1))
  qed
  show "single_place s' pl'" using one live dead by (simp add: single_place_def)
  show "initialised s' pl'"
    unfolding initialised_def
  proof
    fix t assume "t \<in> set (myThreadInitQueue s')"
    then have t: "kind_of s t = Some TaskK" "t \<notin># pl"
      using init h by (auto simp: initialised_def heap_step_def)
    then have "heap s t \<noteq> None" by (auto simp: heap_None_iff(1))
    moreover have "t \<notin> set (deleted p)" using t(2) hand deleted_in_hand by blast
    ultimately show "kind_of s' t = Some TaskK \<and> t \<notin># pl'"
      using t keep [of t] from_pl [of t] new [of t] by auto
  qed
qed

lemma nth_point_ok:
  "threads_inv m \<Longrightarrow> i < length (m_points m) \<Longrightarrow> point_ok (myThreadInitQueue (m_sched m)) (m_points m ! i)"
  by (simp add: threads_inv_def)

lemma inv_current: "threads_inv m \<Longrightarrow> current_ok (m_sched m) (places m) i (point_of m i)"
  by (simp add: threads_inv_def)

text \<open>A coroutine that yields is the task its thread has in hand.\<close>

lemma body_suspends:
  assumes "threads_inv m" "at_point m i (AtBody c as)"
    "myCurrentTask (m_sched m) i = Some t" "kind_of (m_sched m) t = Some CoroutineK" "status_of (m_sched m) t \<noteq> Some ABORTED"
  shows "c = QueueTask t"
proof -
  have pt: "point_of m i = Some (AtBody c as)" using assms(2) by (simp add: at_point_def point_of_def)
  have "t \<notin> set (myThreadInitQueue (m_sched m))"
    using assms(1,4) by (auto simp: threads_inv_def initialised_def)
  then have "t \<in># places m" using current_okD(3) [OF inv_current [OF assms(1)] assms(3)] assms(5) by blast
  then obtain q where "point_of m i = Some q" "runs q = Some t"
    using current_okD(2) [OF inv_current [OF assms(1)] assms(3)] by blast
  then have "runs (AtBody c as) = Some t" using pt by auto
  then show ?thesis by simp
qed

lemma moved_points:
  assumes "i < length (m_points m)"
  shows "point_of (moved i p' s' m) j = (if j = i then Some p' else if j < length (m_points m) then point_of m j
    else if j < length (m_points (moved i p' s' m)) then Some (AtInit (myThreadInitQueue s')) else None)"
  using assms by (auto simp: point_of_def moved_def nth_append nth_list_update)

lemma current_ok_mover:
  assumes m: "threads_inv m" and at: "at_point m i p" and step: "tstep polled i p (m_sched m) = Inr (p', s')"
    and ps: "single_place s' (places (moved i p' s' m))"
      "\<And>t. t \<in># places (moved i p' s' m) \<Longrightarrow> t \<in># places m \<or> t \<in> set (born p (m_sched m))"
      "\<And>t. t \<in> set (born p (m_sched m)) \<Longrightarrow> heap (m_sched m) t = None"
      "\<And>t. heap (m_sched m) t \<noteq> None \<Longrightarrow> t \<notin> set (deleted p) \<Longrightarrow> kind_of s' t = kind_of (m_sched m) t \<and>
        (t \<notin> set (writes p) \<longrightarrow> status_of s' t = status_of (m_sched m) t \<or> status_of s' t = Some ABORTED)"
      "initialised s' (places (moved i p' s' m))"
  shows "current_ok s' (places (moved i p' s' m)) i (Some p')"
proof -
  let ?s = "m_sched m" and ?pl = "places m" and ?pl' = "places (moved i p' s' m)"
  have i: "i < length (m_points m)" and pi: "m_points m ! i = p" and pt: "point_of m i = Some p"
    using at by (auto simp: at_point_def point_of_def)
  note cur = inv_current [OF m, of i, unfolded pt]
  have ok: "point_ok (myThreadInitQueue ?s) p" using nth_point_ok [OF m i] pi by simp
  have h: "heap_step i p ?s s'" by (rule tstep_heap [OF step])
  have q: "myThreadInitQueue s' = myThreadInitQueue ?s" using h by (simp add: heap_step_def)
  have runs': "myCurrentTask s' i = Some t" if "runs p' = Some t" for t
    using tstep_runs [OF step _ that] current_okD(4) [OF cur HOL.refl] by blast
  have cur': "heap s' t \<noteq> None \<and> (if t \<in># ?pl' then runs p' = Some t
      else t \<in> set (myThreadInitQueue s') \<or> status_of s' t = Some ABORTED)" if c: "myCurrentTask s' i = Some t" for t
  proof -
    have "i < length (m_points (moved i p' s' m))" "m_points (moved i p' s' m) ! i = p'"
      using i by (auto simp: moved_def nth_append)
    then have hand': "t \<in># ?pl'" if "t \<in> set (hand p')" using hand_in_places that by fastforce
    consider (runs) "runs p' = Some t" | (init) "t \<in> set (myThreadInitQueue ?s)" "runs p' \<noteq> Some t"
      | (left) "myCurrentTask ?s i = Some t" "runs p \<noteq> Some t" "t \<notin> set (myThreadInitQueue ?s)" "runs p' \<noteq> Some t"
      | (leak) "myCurrentTask ?s i = Some t" "leaked p p' = [t]" "status_of s' t = Some ABORTED" "runs p' \<noteq> Some t"
      using tstep_current [OF step ok c] by blast
    then show ?thesis
    proof cases
      case runs
      then have "t \<in># ?pl'" using hand' runs_in_hand by blast
      then show ?thesis using runs ps(1) by (auto simp: single_place_def)
    next
      case init
      then have "kind_of s' t = Some TaskK" "t \<notin># ?pl'" using ps(5) q by (auto simp: initialised_def)
      then show ?thesis using init q by (auto simp: heap_None_iff(1))
    next
      case left
      have l: "heap ?s t \<noteq> None" "t \<notin># ?pl" "status_of ?s t = Some ABORTED"
        using current_okD(1,2,3) [OF cur left(1)] left(2,3) by auto
      have nd: "t \<notin> set (hand p)" using hand_in_places [OF i] pi l(2) by blast
      then have "t \<notin> set (deleted p)" "t \<notin> set (writes p)"
        using deleted_in_hand writes_own [OF ok] left(3) by blast+
      then have "status_of s' t = Some ABORTED" using ps(4) [of t] l by auto
      moreover have "t \<notin># ?pl'" using ps(2) [of t] ps(3) [of t] l(1,2) by auto
      ultimately show ?thesis by (auto simp: heap_None_iff(2))
    next
      case leak
      have "t \<in> set (hand p)" using leak(2) by (cases "(p, p')" rule: leaked.cases) auto
      then have "count ?pl t \<le> 1" "heap ?s t \<noteq> None"
        using m hand_in_places [OF i] pi by (auto simp: threads_inv_def single_place_def)
      moreover have "t \<notin> set (born p ?s)" using ps(3) [of t] calculation(2) by auto
      moreover have "count (mset (born p ?s)) t = 0" using calculation(3) by (simp add: count_mset_0_iff)
      moreover have "count (mset (leaked p p')) t = 1" using leak(2) by simp
      moreover have "count ?pl' t + count (mset (leaked p p')) t + count (mset (deleted p)) t
          = count ?pl t + count (mset (born p ?s)) t"
        using arg_cong [OF tstep_places_machine [OF i pi step], of "\<lambda>x. count x t"] by simp
      ultimately have "count ?pl' t = 0" by linarith
      then have "t \<notin># ?pl'" by (simp add: not_in_iff)
      then show ?thesis using leak by (auto simp: heap_None_iff(2))
    qed
  qed
  show ?thesis
  proof (rule current_okI)
    show "myCurrentTask s' i = Some t" if "Some p' = Some q" "runs q = Some t" for t q
      by (rule runs') (use that in simp)
    show "heap s' t \<noteq> None \<and> (if t \<in># ?pl' then \<exists>q. Some p' = Some q \<and> runs q = Some t
        else t \<in> set (myThreadInitQueue s') \<or> status_of s' t = Some ABORTED)" if "myCurrentTask s' i = Some t" for t
      using cur' [OF that] by (cases "t \<in># ?pl'") simp_all
  qed
qed

lemma current_ok_other:
  assumes m: "threads_inv m" and at: "at_point m i p" and step: "tstep polled i p (m_sched m) = Inr (p', s')"
    and ps: "single_place s' (places (moved i p' s' m))"
      "\<And>t. t \<in># places (moved i p' s' m) \<Longrightarrow> t \<in># places m \<or> t \<in> set (born p (m_sched m))"
      "\<And>t. t \<in> set (born p (m_sched m)) \<Longrightarrow> heap (m_sched m) t = None"
      "\<And>t. heap (m_sched m) t \<noteq> None \<Longrightarrow> t \<notin> set (deleted p) \<Longrightarrow> kind_of s' t = kind_of (m_sched m) t \<and>
        (t \<notin> set (writes p) \<longrightarrow> status_of s' t = status_of (m_sched m) t \<or> status_of s' t = Some ABORTED)"
      "initialised s' (places (moved i p' s' m))"
    and j: "j \<noteq> i"
  shows "current_ok s' (places (moved i p' s' m)) j (point_of (moved i p' s' m) j)"
proof -
  let ?s = "m_sched m" and ?pl = "places m" and ?m' = "moved i p' s' m"
  let ?pl' = "places ?m'"
  have i: "i < length (m_points m)" and pi: "m_points m ! i = p"
    using at by (auto simp: at_point_def)
  note cur = inv_current [OF m, of j]
  have ok: "point_ok (myThreadInitQueue ?s) p" using nth_point_ok [OF m i] pi by simp
  have h: "heap_step i p ?s s'" by (rule tstep_heap [OF step])
  have q: "myThreadInitQueue s' = myThreadInitQueue ?s" and c: "myCurrentTask s' j = myCurrentTask ?s j"
    using h j by (auto simp: heap_step_def)
  have pt: "point_of ?m' j = point_of m j" if "point_of m j = Some q \<or> (\<exists>t. runs q = Some t) \<and> point_of ?m' j = Some q" for q
    using that moved_points [OF i, of p' s' j] j by (auto simp: point_of_def split: if_splits)
  show ?thesis
  proof (rule current_okI)
    show "myCurrentTask s' j = Some t" if "point_of ?m' j = Some q" "runs q = Some t" for t q
    proof -
      have "point_of m j = Some q" using pt [of q] that by auto
      then show ?thesis using current_okD(4) [OF cur] that(2) c by simp
    qed
    fix t assume "myCurrentTask s' j = Some t"
    then have t: "myCurrentTask ?s j = Some t" using c by simp
    have live: "heap ?s t \<noteq> None" by (rule current_okD(1) [OF cur t])
    then have nb: "t \<notin> set (born p ?s)" using ps(3) [of t] by auto
    show "heap s' t \<noteq> None \<and> (if t \<in># ?pl' then \<exists>q. point_of ?m' j = Some q \<and> runs q = Some t
        else t \<in> set (myThreadInitQueue s') \<or> status_of s' t = Some ABORTED)"
    proof (cases "t \<in># ?pl")
      case True
      then obtain q where pq: "point_of m j = Some q" and rq: "runs q = Some t"
        using current_okD(2) [OF cur t] by blast
      have pq': "point_of ?m' j = Some q" using pt [of q] pq by auto
      then have "t \<in> set (hand (m_points ?m' ! j))" "j < length (m_points ?m')"
        using runs_in_hand [OF rq] by (auto simp: point_of_def split: if_splits)
      then have "t \<in># ?pl'" by (intro hand_in_places)
      moreover have "heap s' t \<noteq> None" using calculation ps(1) by (simp add: single_place_def)
      ultimately show ?thesis using pq' rq by simp
    next
      case False
      then have d: "t \<notin> set (deleted p)" and w: "t \<in> set (writes p) \<Longrightarrow> t \<in> set (myThreadInitQueue ?s)"
        using hand_in_places [OF i] pi deleted_in_hand [of t p] writes_own [OF ok, of t] by auto
      have "t \<notin># ?pl'" using False nb ps(2) [of t] by auto
      moreover have "heap s' t \<noteq> None" using ps(4) [OF live d] live by (auto simp: heap_None_iff(1))
      moreover have "t \<in> set (myThreadInitQueue s') \<or> status_of s' t = Some ABORTED"
        using current_okD(3) [OF cur t False] ps(4) [OF live d] w q by auto
      ultimately show ?thesis by simp
    qed
  qed
qed

lemma threads_inv_go:
  assumes m: "threads_inv m" and at: "at_point m i p" and step: "tstep polled i p (m_sched m) = Inr (p', s')"
  shows "threads_inv (moved i p' s' m)"
proof -
  let ?s = "m_sched m" and ?m' = "moved i p' s' m"
  have i: "i < length (m_points m)" and pi: "m_points m ! i = p"
    using at by (auto simp: at_point_def)
  have h: "heap_step i p ?s s'" by (rule tstep_heap [OF step])
  then have q: "myThreadInitQueue s' = myThreadInitQueue ?s" by (simp add: heap_step_def)
  have hand: "t \<in># places m" if "t \<in> set (hand p)" for t using hand_in_places [OF i] pi that by simp
  have sp: "single_place ?s (places m)" "initialised ?s (places m)" using m by (auto simp: threads_inv_def)
  note ps = places_step [OF sp h tstep_places_machine [OF i pi step] hand]
  have "point_ok (myThreadInitQueue ?s) p'"
    using tstep_point_ok [OF step] nth_point_ok [OF m i] pi body_suspends [OF m] at by blast
  then have "point_ok (myThreadInitQueue s') r" if "r \<in> set (m_points ?m')" for r
    using that m q set_update_subset_insert [of "m_points m" i p']
    by (auto simp: moved_def threads_inv_def)
  moreover have "current_ok s' (places ?m') j (point_of ?m' j)" for j
  proof (cases "j = i")
    case True
    then show ?thesis
      using current_ok_mover [OF m at step ps(1) ps(3) ps(4) ps(6) ps(2)] moved_points [OF i, of p' s' i] by simp
  next
    case False
    show ?thesis
      by (rule current_ok_other [OF m at step ps(1) _ _ _ ps(2) False]) (use ps(3,4,6) in auto)
  qed
  moreover have "m_sched ?m' = s'" by (simp add: moved_def)
  ultimately show ?thesis using ps(1,2) by (simp add: threads_inv_def)
qed


lemma threads_inv_fire:
  assumes m: "threads_inv m" and at: "at_point m i AtLoop" and u: "u \<in> set (m_timers m)"
  shows "threads_inv (m\<lparr>m_points := (m_points m)[i := AtCount u IoHandler []], m_timers := remove1 u (m_timers m)\<rparr>)"
    (is "threads_inv ?m'")
proof -
  have i: "i < length (m_points m)" "m_points m ! i = AtLoop" using at by (auto simp: at_point_def)
  have "hands ((m_points m)[i := AtCount u IoHandler []]) = hands (m_points m) + {#u#}"
    using hands_update [OF i(1), of "AtCount u IoHandler []"] i(2) by simp
  then have pl: "places ?m' = places m" using u by (simp add: places_def)
  have "current_ok (m_sched m) (places m) j (point_of ?m' j)" for j
  proof (cases "j = i")
    case True
    have "point_of m i = Some AtLoop" "point_of ?m' i = Some (AtCount u IoHandler [])"
      using i by (simp_all add: point_of_def)
    moreover have "current_ok (m_sched m) (places m) i (Some (AtCount u IoHandler []))"
      if c: "current_ok (m_sched m) (places m) i (Some AtLoop)"
    proof (rule current_okI)
      show "myCurrentTask (m_sched m) i = Some t" if "Some (AtCount u IoHandler []) = Some q" "runs q = Some t" for t q
        using that by auto
      show "heap (m_sched m) t \<noteq> None \<and> (if t \<in># places m then \<exists>q. Some (AtCount u IoHandler []) = Some q \<and> runs q = Some t
          else t \<in> set (myThreadInitQueue (m_sched m)) \<or> status_of (m_sched m) t = Some ABORTED)"
        if t: "myCurrentTask (m_sched m) i = Some t" for t
        using current_okD(1-3) [OF c t] by (cases "t \<in># places m") auto
    qed
    ultimately show ?thesis using inv_current [OF m, of i] True by simp
  next
    case False
    then have "point_of ?m' j = point_of m j" by (simp add: point_of_def)
    then show ?thesis using inv_current [OF m, of j] by simp
  qed
  moreover have "point_ok (myThreadInitQueue (m_sched m)) r" if "r \<in> set (m_points ?m')" for r
    using that m set_update_subset_insert [of "m_points m" i "AtCount u IoHandler []"]
    by (auto simp: threads_inv_def)
  ultimately show ?thesis using m by (simp add: threads_inv_def pl)
qed

lemma scheduleTimed_result:
  assumes "scheduleTimed k h timer (Some b) s = Inr (u, s')"
  shows "u = nextTask s" "heap_step th (AtBody IoHandler [SpawnTask []]) s s'" "myTaskQueue s' = myTaskQueue s"
    "myCurrentTask s' = myCurrentTask s"
proof -
  have "u = nextTask s \<and> myTaskQueue s' = myTaskQueue s \<and> myCurrentTask s' = myCurrentTask s \<and>
      nextTask s' = Suc (nextTask s) \<and> myThreadInitQueue s' = myThreadInitQueue s \<and> myMaxThreads s' = myMaxThreads s \<and>
      heap s' = (heap s)(nextTask s \<mapsto> \<lparr>myKind = k, myHolds = h, myHandler = b, myCancellationHandlers = [CancelTimer timer],
        myCompletionHandlers = [], myCoroutine = False, myStatus = INACTIVE\<rparr>)"
    using assms by (cases h)
      (auto simp: scheduleTimed_def new_task_def Let_def Holder_def hold_def addCancellationHandler_def with_task_def)
  then show "u = nextTask s" "heap_step th (AtBody IoHandler [SpawnTask []]) s s'" "myTaskQueue s' = myTaskQueue s"
    "myCurrentTask s' = myCurrentTask s"
    by (auto simp: heap_step_def kind_of_def status_of_def)
qed

lemma threads_inv_arm:
  assumes m: "threads_inv m" and s': "scheduleTimed k h timer (Some b) (m_sched m) = Inr (u, s')"
  shows "threads_inv (m\<lparr>m_sched := s', m_timers := m_timers m @ [u]\<rparr>)" (is "threads_inv ?m'")
proof -
  let ?s = "m_sched m" and ?p = "AtBody IoHandler [SpawnTask []]"
  note r = scheduleTimed_result [OF s']
  have pl: "places ?m' + mset (leaked ?p ?p) + mset (deleted ?p) = places m + mset (born ?p ?s)"
    using r(1,3) by (simp add: places_def ac_simps)
  have sp: "single_place ?s (places m)" "initialised ?s (places m)" using m by (auto simp: threads_inv_def)
  note ps = places_step [OF sp r(2) pl]
  have q: "myThreadInitQueue s' = myThreadInitQueue ?s" using r(2) by (simp add: heap_step_def)
  have "current_ok s' (places ?m') j (point_of ?m' j)" for j
  proof (rule current_okI)
    note cur = inv_current [OF m, of j]
    have pt: "point_of ?m' j = point_of m j" by (simp add: point_of_def)
    show "myCurrentTask s' j = Some t" if "point_of ?m' j = Some q" "runs q = Some t" for t q
      using current_okD(4) [OF cur] that pt r(4) by simp
    fix t assume "myCurrentTask s' j = Some t"
    then have t: "myCurrentTask ?s j = Some t" using r(4) by simp
    have live: "heap ?s t \<noteq> None" by (rule current_okD(1) [OF cur t])
    then have "t \<noteq> nextTask ?s" using sp by (auto simp: single_place_def)
    then have inpl: "t \<in># places ?m' \<longleftrightarrow> t \<in># places m" using pl by simp
    have keep: "kind_of s' t = kind_of ?s t" "status_of s' t = status_of ?s t \<or> status_of s' t = Some ABORTED"
      using ps(6) [of t] live by auto
    then have "heap s' t \<noteq> None" using live by (auto simp: heap_None_iff(1))
    then show "heap s' t \<noteq> None \<and> (if t \<in># places ?m' then \<exists>q. point_of ?m' j = Some q \<and> runs q = Some t
        else t \<in> set (myThreadInitQueue s') \<or> status_of s' t = Some ABORTED)"
      using current_okD(2,3) [OF cur t] inpl keep q pt by (cases "t \<in># places m") auto
  qed
  moreover have "\<forall>r \<in> set (m_points ?m'). point_ok (myThreadInitQueue s') r"
    using m q by (simp add: threads_inv_def)
  ultimately show ?thesis using ps(1,2) by (simp add: threads_inv_def)
qed

lemma threads_inv_step: "mstep m e m' \<Longrightarrow> threads_inv m \<Longrightarrow> threads_inv m'"
proof (induction rule: mstep.induct)
  case (die m i p polled e)
  have "places (m\<lparr>m_fault := Some e\<rparr>) = places m" "point_of (m\<lparr>m_fault := Some e\<rparr>) j = point_of m j" for j
    by (simp_all add: places_def point_of_def)
  then show ?case using die.prems by (simp add: threads_inv_def)
qed (auto intro: threads_inv_go threads_inv_arm threads_inv_fire)

lemma init_tasks_result:
  assumes "\<forall>t \<in> set (myThreadInitQueue s). kind_of s t = Some TaskK" "\<forall>t \<ge> nextTask s. heap s t = None"
    "myCurrentTask s = (\<lambda>_. None)" "myTaskQueue s = []"
  shows "(\<forall>t \<in> set (myThreadInitQueue (init_tasks bs s)). kind_of (init_tasks bs s) t = Some TaskK) \<and>
    (\<forall>t \<ge> nextTask (init_tasks bs s). heap (init_tasks bs s) t = None) \<and>
    myCurrentTask (init_tasks bs s) = (\<lambda>_. None) \<and> myTaskQueue (init_tasks bs s) = [] \<and>
    myThreadGroup (init_tasks bs s) = myThreadGroup s \<and> myTaskCount (init_tasks bs s) = myTaskCount s \<and>
    myActiveTaskCount (init_tasks bs s) = myActiveTaskCount s \<and> myMaxThreads (init_tasks bs s) = myMaxThreads s \<and>
    ((\<forall>t. heap s t \<noteq> None \<longrightarrow> t \<in> set (myThreadInitQueue s)) \<longrightarrow>
      (\<forall>t. heap (init_tasks bs s) t \<noteq> None \<longrightarrow> t \<in> set (myThreadInitQueue (init_tasks bs s)))) \<and>
    ((\<forall>t. status_of s t \<noteq> Some PENDING) \<longrightarrow> (\<forall>t. status_of (init_tasks bs s) t \<noteq> Some PENDING))"
  using assms
proof (induction bs arbitrary: s)
  case (Cons b bs)
  define s1 where "s1 = (snd (new_task TaskK False b s))\<lparr>myThreadInitQueue := myThreadInitQueue s @ [nextTask s]\<rparr>"
  have "scheduleThreadInitTask (Some b) s = Inr (nextTask s, s1)"
    by (simp add: scheduleThreadInitTask_def new_task_def Let_def s1_def Holder_def)
  then have eq: "init_tasks (b # bs) s = init_tasks bs s1" by simp
  have "\<forall>t \<in> set (myThreadInitQueue s1). kind_of s1 t = Some TaskK" "\<forall>t \<ge> nextTask s1. heap s1 t = None"
    "myCurrentTask s1 = (\<lambda>_. None)" "myTaskQueue s1 = []" "myThreadGroup s1 = myThreadGroup s" "myTaskCount s1 = myTaskCount s"
    "myActiveTaskCount s1 = myActiveTaskCount s" "myMaxThreads s1 = myMaxThreads s"
    "(\<forall>t. heap s t \<noteq> None \<longrightarrow> t \<in> set (myThreadInitQueue s)) \<Longrightarrow>
      \<forall>t. heap s1 t \<noteq> None \<longrightarrow> t \<in> set (myThreadInitQueue s1)"
    "\<forall>t. status_of s t \<noteq> Some PENDING \<Longrightarrow> \<forall>t. status_of s1 t \<noteq> Some PENDING"
    using Cons.prems by (auto simp: s1_def kind_of_def status_of_def)
  then show ?case unfolding eq using Cons.IH [of s1] by simp
qed simp

lemma boot_sched:
  fixes bs as and n :: usize
  defines "s \<equiv> m_sched (boot n bs as)"
  shows "\<forall>t \<in> set (myThreadInitQueue s). kind_of s t = Some TaskK" "\<forall>t \<ge> nextTask s. heap s t = None"
    "myCurrentTask s = (\<lambda>_. None)" "myTaskQueue s = []" "myThreadGroup s = 0" "myTaskCount s = 0"
    "myActiveTaskCount s = 0" "myMaxThreads s = n"
  using init_tasks_result [of "new_scheduler n" bs]
  by (simp_all add: s_def boot_def new_scheduler_def kind_of_def)

lemma boot_heap:
  "heap (m_sched (boot n bs as)) t \<noteq> None \<Longrightarrow> t \<in> set (myThreadInitQueue (m_sched (boot n bs as)))"
  using init_tasks_result [of "new_scheduler n" bs]
  by (auto simp: boot_def new_scheduler_def)

lemma boot_status: "status_of (m_sched (boot n bs as)) t \<noteq> Some PENDING"
  using init_tasks_result [of "new_scheduler n" bs]
  by (auto simp: boot_def new_scheduler_def status_of_def)

lemma threads_inv_boot: "threads_inv (boot n bs as)"
proof -
  have pl: "places (boot n bs as) = {#}" using boot_sched(4) [of n bs as] by (simp add: places_def boot_def hands_def)
  have "current_ok (m_sched (boot n bs as)) {#} i p" if "p = None \<or> p = Some (AtBody Entry as)" for i p
    using that boot_sched(3) [of n bs as] by (intro current_okI) auto
  moreover have "point_of (boot n bs as) i = None \<or> point_of (boot n bs as) i = Some (AtBody Entry as)" for i
    by (simp add: point_of_def boot_def)
  moreover have "m_points (boot n bs as) = [AtBody Entry as]" by (simp add: boot_def)
  ultimately show ?thesis
    using boot_sched(1,2) [of n bs as] by (simp add: threads_inv_def pl single_place_def initialised_def)
qed

lemma threads_inv_run: "mrun m es m' \<Longrightarrow> threads_inv m \<Longrightarrow> threads_inv m'"
  by (induction rule: mrun.induct) (auto intro: threads_inv_step)

end
