(* ===== verification/ThreadsProps.thy ===== *)
theory ThreadsProps
  imports ThreadsInv
begin

text \<open>
  What holds under every interleaving of the threads of \<open>Threads.thy\<close>, and what goes wrong under
  some: the queue is a FIFO queue, a task runs and is freed at most once and the scheduler never
  uses a deleted one; but an abort can be lost, the pointer that \<open>scheduleTask\<close> returns can dangle,
  and more threads than \<open>myMaxThreads\<close> can be started.
\<close>

section \<open>An execution\<close>

text \<open>The main thread schedules a task and runs it, while the worker it started has not moved yet.\<close>

abbreviation sample :: machine where
  "sample \<equiv> boot 1 [] [SpawnTask [Host 7]]"

lemma execute_run:
  assumes "map_option fst (execute is m) = Some es"
  shows "\<exists>m'. mrun m es m'"
proof -
  obtain m' where "execute is m = Some (es, m')" using assms by (cases "execute is m") auto
  then show ?thesis using execute_mrun by blast
qed

lemma sample_run: "\<exists>m. mrun sample [Put 0, Take 0, Run 0, Free 0] m"
  by (rule execute_run [of "replicate 26 (0, None)"]) code_simp

section \<open>No deleted task is used\<close>

text \<open>The accesses a closure makes to a task of its own choice: \<open>abort\<close> and \<open>await\<close> on a pointer.\<close>

fun client_use :: "point \<Rightarrow> bool" where
  "client_use (AtBody c (AbortTask u # as)) = True"
| "client_use (AtBody c (Await u # as)) = True"
| "client_use (AtAbortHandlers u c as) = True"
| "client_use (AtAwaitHandlers u c as) = True"
| "client_use p = False"

lemma yield_error: "yield th s = Inl (UB e) \<Longrightarrow> False"
  by (auto simp: yield_def canYield_def task_yield_def with_task_def split: option.splits if_splits kind.splits)

lemma body_step_error:
  "body_step th c as s = Inl (UB e) \<Longrightarrow> client_use (AtBody c as)"
  by (cases as rule: list.exhaust, simp, rename_tac a bs, case_tac a)
    (auto simp: rbind_def new_task_def Let_def split: sum.splits if_splits dest: yield_error)

lemma entered_live:
  assumes "task_caller_ok ts c" "\<And>t. t \<in> set (caller_task c) \<Longrightarrow> heap s t \<noteq> None" "\<And>t. t \<in> set ts \<Longrightarrow> heap s t \<noteq> None"
  shows "\<exists>t k. entered c = Some t \<and> heap s t = Some k"
  using assms by (cases c) auto

lemma tstep_error:
  assumes "tstep polled th p s = Inl (UB e)" "point_ok (myThreadInitQueue s) p"
    and hand: "\<And>t. t \<in> set (hand p) \<Longrightarrow> heap s t \<noteq> None"
    and init: "\<And>t. t \<in> set (myThreadInitQueue s) \<Longrightarrow> heap s t \<noteq> None"
  shows "client_use p"
proof (cases p)
  case (AtInit ts)
  show ?thesis
  proof (cases ts)
    case (Cons t us)
    then have "heap s t \<noteq> None" using AtInit assms(2) init by auto
    then show ?thesis using Cons AtInit assms(1) by (auto simp: with_task_def)
  qed (use AtInit assms(1) in simp)
next
  case (AtBody c as)
  then show ?thesis using assms(1) body_step_error by simp
next
  case (AtCreate c)
  then show ?thesis using assms(1,2) entered_live [of "myThreadInitQueue s" c s] hand init
    by (auto simp: on_entered_def with_task_def split: kind.splits)
next
  case (AtCreated c)
  then show ?thesis using assms(1,2) entered_live [of "myThreadInitQueue s" c s] hand init
    by (auto simp: on_entered_def with_task_def)
next
  case (AtEnter c)
  then show ?thesis using assms(1,2) entered_live [of "myThreadInitQueue s" c s] hand init
    by (auto simp: on_entered_def with_task_def)
next
  case (AtActive c starts)
  then show ?thesis using assms(1,2) entered_live [of "myThreadInitQueue s" c s] hand init
    by (auto simp: on_entered_def with_task_def)
next
  case (AtCoroutine c)
  then show ?thesis using assms(1,2) entered_live [of "myThreadInitQueue s" c s] hand init
    by (auto simp: on_entered_def with_task_def)
next
  case (AtCoActive c)
  then show ?thesis using assms(1,2) entered_live [of "myThreadInitQueue s" c s] hand init
    by (auto simp: on_entered_def with_task_def)
next
  case (AtFinish c)
  then show ?thesis using assms(1,2) entered_live [of "myThreadInitQueue s" c s] hand init
    by (auto simp: on_entered_def with_task_def)
next
  case (AtExit c)
  then show ?thesis using assms(1,2) entered_live [of "myThreadInitQueue s" c s] hand init
    by (auto simp: on_entered_def with_task_def)
qed (use assms(1) hand in \<open>auto simp: with_task_def delete_task_def split: option.splits list.splits\<close>)

text \<open>
  C1. Under every interleaving a task of the queue is in one place only, the queue, the hand of one thread or a timer, and
  is alive there; a thread has the task it runs as its current task; and no step of the scheduler uses or deletes a deleted
  task: only a closure that aborts or awaits a pointer it kept can.
\<close>

theorem threads_never_share:
  assumes "mrun (boot n inits as) es m"
  shows "(\<forall>t. count (places m) t \<le> 1 \<and> (t \<in># places m \<longrightarrow> heap (m_sched m) t \<noteq> None)) \<and>
    (\<forall>i p t. at_point m i p \<longrightarrow> runs p = Some t \<longrightarrow> myCurrentTask (m_sched m) i = Some t) \<and>
    (\<forall>i p polled e. at_point m i p \<longrightarrow> tstep polled i p (m_sched m) = Inl (UB e) \<longrightarrow> client_use p)"
proof (intro conjI allI impI)
  have m: "threads_inv m" by (rule threads_inv_run [OF assms threads_inv_boot])
  then have sp: "single_place (m_sched m) (places m)" and init: "initialised (m_sched m) (places m)"
    by (auto simp: threads_inv_def)
  show "count (places m) t \<le> 1" for t using sp by (simp add: single_place_def)
  show "heap (m_sched m) t \<noteq> None" if "t \<in># places m" for t using sp that by (simp add: single_place_def)
  show "myCurrentTask (m_sched m) i = Some t" if "at_point m i p" "runs p = Some t" for i p t
    using current_okD(4) [OF inv_current [OF m, of i]] that by (simp add: at_point_def point_of_def)
  show "client_use p" if at: "at_point m i p" and e: "tstep polled i p (m_sched m) = Inl (UB e)" for i p polled e
  proof (rule tstep_error [OF e])
    have i: "i < length (m_points m)" "m_points m ! i = p" using at by (auto simp: at_point_def)
    show "point_ok (myThreadInitQueue (m_sched m)) p" using nth_point_ok [OF m i(1)] i(2) by simp
    show "heap (m_sched m) t \<noteq> None" if "t \<in> set (hand p)" for t
      using hand_in_places [OF i(1)] i(2) that sp by (simp add: single_place_def)
    show "heap (m_sched m) t \<noteq> None" if "t \<in> set (myThreadInitQueue (m_sched m))" for t
      using init that by (auto simp: initialised_def heap_None_iff(1))
  qed
qed

theorem threads_never_share_witness:
  "\<exists>m. mrun sample [Put 0, Take 0, Run 0, Free 0] m \<and> (\<forall>t. count (places m) t \<le> 1)"
proof -
  obtain m where m: "mrun sample [Put 0, Take 0, Run 0, Free 0] m" using sample_run by blast
  then show ?thesis using threads_never_share [OF m] by blast
qed

section \<open>The queue under all threads\<close>

definition puts :: "event list \<Rightarrow> nat list" where
  "puts es = concat (map (\<lambda>e. case e of Put t \<Rightarrow> [t] | _ \<Rightarrow> []) es)"

definition takes :: "event list \<Rightarrow> nat list" where
  "takes es = concat (map (\<lambda>e. case e of Take t \<Rightarrow> [t] | _ \<Rightarrow> []) es)"

lemma puts_takes_append [simp]: "puts (es @ fs) = puts es @ puts fs" "takes (es @ fs) = takes es @ takes fs"
  by (simp_all add: puts_def takes_def)

lemma puts_takes_nil [simp]: "puts [] = []" "takes [] = []"
  by (simp_all add: puts_def takes_def)

lemma puts_takes_cons [simp]:
  "puts (Put t # es) = t # puts es" "puts (Take t # es) = puts es" "puts (Run t # es) = puts es"
  "puts (Turn t # es) = puts es" "puts (Aborted t # es) = puts es" "puts (Free t # es) = puts es"
  "takes (Put t # es) = takes es" "takes (Take t # es) = t # takes es" "takes (Run t # es) = takes es"
  "takes (Turn t # es) = takes es" "takes (Aborted t # es) = takes es" "takes (Free t # es) = takes es"
  by (simp_all add: puts_def takes_def)

lemma puts_takes_called [simp]: "puts (called c s) = []" "takes (called c s) = []"
  by (cases c; simp split: option.split kind.split)+

lemma tstep_queue:
  assumes "tstep polled th p s = Inr (p', s')"
  shows "takes (events p p' s) @ myTaskQueue s' = myTaskQueue s @ puts (events p p' s)"
proof (cases p)
  case (AtInit ts)
  then show ?thesis using assms by (cases ts) (auto simp: step_simps split: option.splits if_splits)
next
  case (AtBody c as)
  then have "body_step th c as s = Inr (p', s')" using assms by simp
  then show ?thesis unfolding AtBody by (elim body_step_cases) auto
next
  case (AtAwaitHandlers u c as)
  then show ?thesis using assms by (auto simp: rbind_eq_Inr dest!: await_handlers_result)
next
  case (AtDelete t)
  then show ?thesis using assms by (auto simp: rbind_eq_Inr delete_task_result)
qed (use assms in \<open>auto simp: step_simps addThread_def
    split: option.splits list.splits if_splits kind.splits caller.splits point.splits\<close>)

lemma mstep_queue: "mstep m e m' \<Longrightarrow> takes e @ myTaskQueue (m_sched m') = myTaskQueue (m_sched m) @ puts e"
  by (induction rule: mstep.induct) (simp_all add: tstep_queue moved_def scheduleTimed_result)

lemma mrun_queue: "mrun m es m' \<Longrightarrow> takes es @ myTaskQueue (m_sched m') = myTaskQueue (m_sched m) @ puts es"
proof (induction rule: mrun.induct)
  case (step es m' e m'')
  then show ?case using mstep_queue [OF step(2)] by (metis append_assoc puts_takes_append)
qed simp


text \<open>No task is lost: one that is alive and in no place was aborted before it ran, and leaked.\<close>

definition none_lost :: "machine \<Rightarrow> bool" where
  "none_lost m \<longleftrightarrow> (\<forall>t. heap (m_sched m) t \<noteq> None \<longrightarrow>
     t \<in> set (myThreadInitQueue (m_sched m)) \<or> t \<in># places m \<or> status_of (m_sched m) t = Some ABORTED)"

lemma leaked_aborted:
  "tstep polled th p s = Inr (p', s') \<Longrightarrow> t \<in> set (leaked p p') \<Longrightarrow> status_of s' t = Some ABORTED"
  by (cases "(p, p')" rule: leaked.cases) (auto simp: step_simps status_of_def split: option.splits if_splits)

lemma in_hands: "t \<in># hands ps \<Longrightarrow> \<exists>i < length ps. t \<in> set (hand (ps ! i))"
proof (induction ps)
  case (Cons p ps)
  then have "t \<in> set (hand p) \<or> t \<in># hands ps" by (simp add: hands_def)
  then show ?case using Cons.IH by fastforce
qed (simp add: hands_def)

lemma none_lost_places:
  assumes "none_lost m" "heap_step th p (m_sched m) (m_sched m')"
    and ok: "point_ok (myThreadInitQueue (m_sched m)) p" and hand: "\<And>t. t \<in> set (hand p) \<Longrightarrow> t \<in># places m"
    and pl: "places m' + mset lk + mset (deleted p) = places m + mset (born p (m_sched m))"
    and lk: "\<And>t. t \<in> set lk \<Longrightarrow> status_of (m_sched m') t = Some ABORTED"
  shows "none_lost m'"
  unfolding none_lost_def
proof (intro allI impI)
  let ?s = "m_sched m" and ?s' = "m_sched m'"
  fix t assume live: "heap ?s' t \<noteq> None"
  have q: "myThreadInitQueue ?s' = myThreadInitQueue ?s" using assms(2) by (simp add: heap_step_def)
  have cnt: "count (places m') t + count (mset lk) t + count (mset (deleted p)) t
      = count (places m) t + count (mset (born p ?s)) t"
    using arg_cong [OF pl, of "\<lambda>x. count x t"] by simp
  have del: "t \<notin> set (deleted p)"
  proof
    assume "t \<in> set (deleted p)"
    then have "heap ?s' t = None" using assms(2) by (auto simp: heap_step_def)
    with live show False by simp
  qed
  then have "count (mset (deleted p)) t = 0" by (simp add: count_mset_0_iff)
  then have in_places: "t \<in># places m' \<or> t \<in> set lk" if "t \<in># places m \<or> t \<in> set (born p ?s)"
    using cnt that by (metis add_is_0 count_eq_zero_iff set_mset_mset)
  show "t \<in> set (myThreadInitQueue ?s') \<or> t \<in># places m' \<or> status_of ?s' t = Some ABORTED"
  proof (cases "t \<in># places m \<or> t \<in> set (born p ?s)")
    case True
    then show ?thesis using in_places lk by blast
  next
    case False
    then have keep: "kind_of ?s' t = kind_of ?s t"
      "t \<notin> set (writes p) \<Longrightarrow> status_of ?s' t = status_of ?s t \<or> status_of ?s' t = Some ABORTED"
      using heap_step_keep [OF assms(2) _ del] by auto
    then have "t \<in> set (myThreadInitQueue ?s) \<or> status_of ?s t = Some ABORTED"
      using False live assms(1) by (auto simp: none_lost_def heap_None_iff(1))
    moreover have "t \<in> set (writes p) \<Longrightarrow> t \<in> set (myThreadInitQueue ?s)"
      using writes_own [OF ok, of t] hand False by auto
    ultimately show ?thesis using keep(2) q by (cases "t \<in> set (writes p)") auto
  qed
qed

lemma none_lost_step:
  assumes "mstep m e m'" "threads_inv m" "none_lost m"
  shows "none_lost m'"
  using assms
proof (cases rule: mstep.cases)
  case (go i p polled p' s')
  have i: "i < length (m_points m)" "m_points m ! i = p" using go(3) by (auto simp: at_point_def)
  have s': "m_sched m' = s'" using go(2) by (simp add: moved_def)
  show ?thesis
  proof (rule none_lost_places [OF assms(3)])
    show "heap_step i p (m_sched m) (m_sched m')" using tstep_heap [OF go(4)] s' by simp
    show "point_ok (myThreadInitQueue (m_sched m)) p" using nth_point_ok [OF assms(2) i(1)] i(2) by simp
    show "t \<in># places m" if "t \<in> set (hand p)" for t using hand_in_places [OF i(1)] i(2) that by simp
    show "places m' + mset (leaked p p') + mset (deleted p) = places m + mset (born p (m_sched m))"
      using tstep_places_machine [OF i go(4)] go(2) by simp
    show "status_of (m_sched m') t = Some ABORTED" if "t \<in> set (leaked p p')" for t
      using leaked_aborted [OF go(4) that] s' by simp
  qed
next
  case (die i p polled e)
  then show ?thesis using assms(3) by (simp add: none_lost_def places_def)
next
  case (arm i k h timer b u s')
  let ?p = "AtBody IoHandler [SpawnTask []]"
  note r = scheduleTimed_result [OF arm(4)]
  have "places m' + mset [] + mset (deleted ?p) = places m + mset (born ?p (m_sched m))"
    using arm(2) r(1,3) by (simp add: places_def ac_simps)
  then show ?thesis using none_lost_places [OF assms(3), of 0 ?p m' "[]"] r(2) arm(2) by simp
next
  case (fire i u)
  have i: "i < length (m_points m)" "m_points m ! i = AtLoop" using fire(3) by (auto simp: at_point_def)
  have "hands ((m_points m)[i := AtCount u IoHandler []]) = hands (m_points m) + {#u#}"
    using hands_update [OF i(1), of "AtCount u IoHandler []"] i(2) by simp
  then have "places m' = places m" "m_sched m' = m_sched m" using fire(2,4) by (simp_all add: places_def)
  then show ?thesis using assms(3) by (simp add: none_lost_def)
qed

lemma run_from_boot:
  assumes "mrun (boot n inits as) es m"
  shows "threads_inv m \<and> none_lost m"
  using assms
proof (induction rule: mrun.induct)
  case refl
  have "none_lost (boot n inits as)" unfolding none_lost_def
  proof (intro allI impI)
    fix t assume "heap (m_sched (boot n inits as)) t \<noteq> None"
    then show "t \<in> set (myThreadInitQueue (m_sched (boot n inits as))) \<or> t \<in># places (boot n inits as) \<or>
        status_of (m_sched (boot n inits as)) t = Some ABORTED"
      using boot_heap by blast
  qed
  then show ?case using threads_inv_boot by blast
next
  case (step es m' e m'')
  then show ?case using threads_inv_step none_lost_step by blast
qed

text \<open>
  C3. Whatever the threads do, the shared queue is a FIFO queue: the tasks are taken out in exactly the order in which they
  were put in, each as often as it was put in. And no task is lost: a task that is alive is an initialisation task, or it is
  in the queue, in the hand of a thread or waiting for its timer, unless it was aborted.
\<close>

theorem threads_fifo:
  assumes "mrun (boot n inits as) es m"
  shows "takes es @ myTaskQueue (m_sched m) = puts es \<and>
    (\<forall>t. heap (m_sched m) t \<noteq> None \<longrightarrow> t \<notin> set (myThreadInitQueue (m_sched m)) \<longrightarrow>
       status_of (m_sched m) t \<noteq> Some ABORTED \<longrightarrow>
       t \<in> set (myTaskQueue (m_sched m)) \<or> t \<in> set (m_timers m) \<or> (\<exists>i < length (m_points m). t \<in> set (hand (m_points m ! i))))"
proof (intro conjI allI impI)
  show "takes es @ myTaskQueue (m_sched m) = puts es"
    using mrun_queue [OF assms] boot_sched(4) [of n inits as] by simp
  fix t assume "heap (m_sched m) t \<noteq> None" "t \<notin> set (myThreadInitQueue (m_sched m))" "status_of (m_sched m) t \<noteq> Some ABORTED"
  then have "t \<in># places m" using run_from_boot [OF assms] by (auto simp: none_lost_def)
  then show "t \<in> set (myTaskQueue (m_sched m)) \<or> t \<in> set (m_timers m) \<or>
      (\<exists>i < length (m_points m). t \<in> set (hand (m_points m ! i)))"
    using in_hands [of t "m_points m"] by (auto simp: places_def)
qed

theorem threads_fifo_witness:
  "\<exists>m. mrun sample [Put 0, Take 0, Run 0, Free 0] m \<and> takes [Put 0, Take 0, Run 0, Free 0] @ myTaskQueue (m_sched m) = [0]"
proof -
  obtain m where m: "mrun sample [Put 0, Take 0, Run 0, Free 0] m" using sample_run by blast
  have "puts [Put 0, Take 0, Run 0, Free 0] = [0 :: nat]" by simp
  then have "takes [Put 0, Take 0, Run 0, Free 0] @ myTaskQueue (m_sched m) = [0 :: nat]"
    using threads_fifo [OF m] by (simp only:)
  then show ?thesis using m by blast
qed

section \<open>The life of a task\<close>

primrec event_task :: "event \<Rightarrow> nat" where
  "event_task (Put t) = t"
| "event_task (Take t) = t"
| "event_task (Run t) = t"
| "event_task (Turn t) = t"
| "event_task (Aborted t) = t"
| "event_task (Free t) = t"

text \<open>Where a thread stands with a task whose closure has been called.\<close>

fun past :: "point \<Rightarrow> nat option" where
  "past (AtBody c as) = queue_task c"
| "past (AtCount u c as) = queue_task c"
| "past (AtPush u c as) = queue_task c"
| "past (AtBalance c as) = queue_task c"
| "past (AtAddThread c as) = queue_task c"
| "past (AtAbortHandlers u c as) = queue_task c"
| "past (AtAwaitHandlers u c as) = queue_task c"
| "past (AtFinish c) = queue_task c"
| "past (AtTestPush t) = Some t"
| "past (AtExit c) = queue_task c"
| "past (AtDelete t) = Some t"
| "past p = None"

lemma past_in_hand: "past p = Some t \<Longrightarrow> t \<in> set (hand p)"
  by (induction p rule: past.induct) auto

text \<open>Only a coroutine is ever pending.\<close>

definition pending_ok :: "machine \<Rightarrow> bool" where
  "pending_ok m \<longleftrightarrow> (\<forall>t. status_of (m_sched m) t = Some PENDING \<longrightarrow> kind_of (m_sched m) t = Some CoroutineK) \<and>
     (\<forall>i u c as. point_of m i = Some (AtSuspend u c as) \<longrightarrow> kind_of (m_sched m) u = Some CoroutineK)"

lemma pending_okI:
  assumes "\<And>t. status_of (m_sched m) t = Some PENDING \<Longrightarrow> kind_of (m_sched m) t = Some CoroutineK"
    "\<And>i u c as. point_of m i = Some (AtSuspend u c as) \<Longrightarrow> kind_of (m_sched m) u = Some CoroutineK"
  shows "pending_ok m"
  using assms unfolding pending_ok_def by blast

lemma pending_okD:
  assumes "pending_ok m"
  shows "status_of (m_sched m) t = Some PENDING \<Longrightarrow> kind_of (m_sched m) t = Some CoroutineK"
    "point_of m i = Some (AtSuspend u c as) \<Longrightarrow> kind_of (m_sched m) u = Some CoroutineK"
  using assms unfolding pending_ok_def by blast+

lemma tstep_pending:
  assumes "tstep polled th p s = Inr (p', s')" "status_of s' t = Some PENDING" "status_of s t \<noteq> Some PENDING"
  shows "\<exists>c as. p = AtSuspend t c as"
proof (cases p)
  case (AtInit ts)
  then show ?thesis using assms by (cases ts) (auto simp: step_simps split: option.splits if_splits)
next
  case (AtBody c as)
  then have "body_step th c as s = Inr (p', s')" using assms by simp
  then show ?thesis using assms(2,3) unfolding AtBody
    by (elim body_step_cases) (auto simp: status_of_def split: if_splits)
next
  case (AtAwaitHandlers u c as)
  then show ?thesis using assms
    by (auto simp: rbind_eq_Inr status_of_def dest!: await_handlers_result split: if_splits)
next
  case (AtDelete u)
  then show ?thesis using assms by (auto simp: rbind_eq_Inr delete_task_result status_of_def split: if_splits)
qed (use assms in \<open>auto simp: step_simps addThread_def status_of_def
    split: option.splits list.splits if_splits kind.splits caller.splits\<close>)

lemma after_not_suspend [simp]:
  "after_create c \<noteq> AtSuspend u d as" "after_enter ts c \<noteq> AtSuspend u d as"
  "AtSuspend u d as \<noteq> after_create c" "AtSuspend u d as \<noteq> after_enter ts c"
  by (cases c; simp)+

lemma tstep_suspend:
  assumes "tstep polled th p s = Inr (AtSuspend u c as, s')"
  shows "s' = s \<and> kind_of s u = Some CoroutineK"
proof (cases p)
  case (AtInit ts)
  then show ?thesis using assms by (cases ts) (auto simp: step_simps split: option.splits if_splits)
next
  case (AtBody d bs)
  then have "body_step th d bs s = Inr (AtSuspend u c as, s')" using assms by simp
  then show ?thesis
  proof (elim body_step_cases)
    fix s1 bs' cs assume "yield th s = Inr s1" "AtSuspend u c as = AtSuspend (the (myCurrentTask s th)) d cs" "s' = s"
    then show ?thesis using yield_result by fastforce
  qed (cases d; auto)+
qed (use assms in \<open>auto simp: step_simps split: option.splits list.splits if_splits kind.splits caller.splits\<close>)

text \<open>The facts every step of a thread rests on.\<close>

lemma go_facts:
  assumes m: "threads_inv m" and at: "at_point m i p" and step: "tstep polled i p (m_sched m) = Inr (p', s')"
  shows "\<And>t. t \<in> set (hand p) \<Longrightarrow> t \<in># places m" "\<And>t. t \<in># places m \<Longrightarrow> heap (m_sched m) t \<noteq> None"
    "\<And>t. t \<in> set (deleted p) \<Longrightarrow> heap s' t = None"
    "\<And>t. heap (m_sched m) t \<noteq> None \<Longrightarrow> t \<notin> set (deleted p) \<Longrightarrow> kind_of s' t = kind_of (m_sched m) t"
    "\<And>t. t < nextTask (m_sched m) \<Longrightarrow> heap (m_sched m) t = None \<Longrightarrow> heap s' t = None"
    "nextTask (m_sched m) \<le> nextTask s'" "\<And>t. heap (m_sched m) t \<noteq> None \<Longrightarrow> t < nextTask (m_sched m)"
    "\<And>j t. j \<noteq> i \<Longrightarrow> j < length (m_points m) \<Longrightarrow> t \<in> set (hand (m_points m ! j)) \<Longrightarrow> t \<notin> set (hand p)"
    "\<And>t. runs p = Some t \<Longrightarrow> myCurrentTask (m_sched m) i = Some t"
    "point_ok (myThreadInitQueue (m_sched m)) p"
proof -
  let ?s = "m_sched m"
  have i: "i < length (m_points m)" "m_points m ! i = p" using at by (auto simp: at_point_def)
  have sp: "single_place ?s (places m)" using m by (simp add: threads_inv_def)
  have h: "heap_step i p ?s s'" by (rule tstep_heap [OF step])
  show "t \<in># places m" if "t \<in> set (hand p)" for t using hand_in_places [OF i(1)] i(2) that by simp
  show "heap ?s t \<noteq> None" if "t \<in># places m" for t using sp that by (simp add: single_place_def)
  show "heap s' t = None" if "t \<in> set (deleted p)" for t using h that by (simp add: heap_step_def)
  show below: "t < nextTask ?s" if "heap ?s t \<noteq> None" for t
    using sp that by (auto simp: single_place_def not_le [symmetric])
  have nb: "t \<notin> set (born p ?s)" if "t < nextTask ?s" for t using born_cases [of p ?s] that by auto
  show "kind_of s' t = kind_of ?s t" if "heap ?s t \<noteq> None" "t \<notin> set (deleted p)" for t
    using heap_step_keep [OF h nb [OF below [OF that(1)]] that(2)] by simp
  show "heap s' t = None" if "t < nextTask ?s" "heap ?s t = None" for t
  proof (cases "t \<in> set (deleted p)")
    case True
    then show ?thesis using h by (simp add: heap_step_def)
  next
    case False
    then show ?thesis using heap_step_keep [OF h nb [OF that(1)] False] that(2) by (simp add: heap_None_iff(1))
  qed
  show "nextTask ?s \<le> nextTask s'" using h by (simp add: heap_step_def)
  show "t \<notin> set (hand p)" if "j \<noteq> i" "j < length (m_points m)" "t \<in> set (hand (m_points m ! j))" for j t
    using one_hand [of m i j t] sp i that by (auto simp: single_place_def)
  show "myCurrentTask ?s i = Some t" if "runs p = Some t" for t
    using current_okD(4) [OF inv_current [OF m, of i]] i that by (simp add: point_of_def)
  show "point_ok (myThreadInitQueue ?s) p" using nth_point_ok [OF m i(1)] i(2) by simp
qed

lemma pending_ok_step:
  assumes "mstep m e m'" "threads_inv m" "pending_ok m"
  shows "pending_ok m'"
  using assms
proof (cases rule: mstep.cases)
  case (go i p polled p' s')
  note f = go_facts [OF assms(2) go(3,4)]
  have i: "i < length (m_points m)" "m_points m ! i = p" using go(3) by (auto simp: at_point_def)
  have s': "m_sched m' = s'" using go(2) by (simp add: moved_def)
  have "point_of m i = Some p" using i by (simp add: point_of_def)
  then have at_u: "kind_of (m_sched m) u = Some CoroutineK" if "p = AtSuspend u c as" for u c as
    using assms(3) that unfolding pending_ok_def by blast
  have "kind_of s' t = Some CoroutineK" if "status_of s' t = Some PENDING" for t
  proof -
    have "heap s' t \<noteq> None" using that by (auto simp: heap_None_iff(2))
    then have "t \<notin> set (deleted p)" using f(3) [of t] by auto
    moreover have "kind_of (m_sched m) t = Some CoroutineK"
      using tstep_pending [OF go(4) that] at_u assms(3) by (auto simp: pending_ok_def)
    moreover have "heap (m_sched m) t \<noteq> None" using calculation(2) by (auto simp: heap_None_iff(1))
    ultimately show ?thesis using f(4) by simp
  qed
  moreover have "kind_of s' u = Some CoroutineK" if pt: "point_of m' j = Some (AtSuspend u c as)" for j u c as
  proof (cases "j = i")
    case True
    then have "p' = AtSuspend u c as" using pt moved_points [OF i(1), of p' s' i] go(2) by simp
    then show ?thesis using tstep_suspend go(4) by blast
  next
    case False
    then have j: "j < length (m_points m)" and pj: "point_of m j = Some (AtSuspend u c as)"
      using pt moved_points [OF i(1), of p' s' j] go(2) by (auto split: if_splits)
    then have "kind_of (m_sched m) u = Some CoroutineK" using assms(3) unfolding pending_ok_def by blast
    moreover have "c = QueueTask u" using nth_point_ok [OF assms(2) j] pj by (simp add: point_of_def split: if_splits)
    then have "u \<notin> set (deleted p)"
      using f(8) [OF False j] pj deleted_in_hand by (auto simp: point_of_def split: if_splits)
    moreover have "heap (m_sched m) u \<noteq> None" using calculation(1) by (auto simp: heap_None_iff(1))
    ultimately show ?thesis using f(4) by simp
  qed
  ultimately show ?thesis using s' by (simp add: pending_ok_def)
next
  case (die i p polled e)
  then have "m_sched m' = m_sched m" "point_of m' j = point_of m j" for j by (simp_all add: point_of_def)
  then show ?thesis using pending_okD [OF assms(3)] by (intro pending_okI) simp_all
next
  case (arm i k h timer b u s')
  have "(u \<noteq> t \<longrightarrow> kind_of s' t = kind_of (m_sched m) t \<and> status_of s' t = status_of (m_sched m) t) \<and>
      (u = t \<longrightarrow> status_of s' t = Some INACTIVE \<and> heap (m_sched m) t = None)" for t
    using arm(4) assms(2) by (cases h)
      (auto simp: scheduleTimed_def new_task_def Let_def Holder_def hold_def addCancellationHandler_def with_task_def
        kind_of_def status_of_def threads_inv_def single_place_def)
  then have "kind_of s' t = kind_of (m_sched m) t \<or> heap (m_sched m) t = None"
    "status_of s' t = Some PENDING \<Longrightarrow> kind_of s' t = kind_of (m_sched m) t \<and> status_of (m_sched m) t = Some PENDING" for t
    by (metis option.inject status.distinct(7), metis option.inject status.distinct(5))
  moreover have "m_sched m' = s'" "point_of m' j = point_of m j" for j using arm(2) by (simp_all add: point_of_def)
  ultimately show ?thesis using pending_okD [OF assms(3)]
    by (intro pending_okI) (metis, metis heap_None_iff(1) option.distinct(1))
next
  case (fire i u)
  have "m_sched m' = m_sched m" using fire(2) by simp
  moreover have "point_of m j = Some (AtSuspend t c as)" if "point_of m' j = Some (AtSuspend t c as)" for j t c as
    using fire(2) that by (cases "j = i") (auto simp: point_of_def split: if_splits)
  ultimately show ?thesis using pending_okD [OF assms(3)] by (intro pending_okI) (simp, metis)
qed

lemma events_cases: "events p p' s = [] \<or> (\<exists>x. events p p' s = [x])"
proof -
  have "called c s = [] \<or> (\<exists>x. called c s = [x])" for c
    by (cases c) (auto split: option.split kind.split)
  then show ?thesis
    by (cases "(p, p', s)" rule: events.cases) (auto split: list.split point.split)
qed

lemma called_task: "x \<in> set (called c s) \<Longrightarrow> c = QueueTask (event_task x) \<and> heap s (event_task x) \<noteq> None \<and>
    (\<forall>t. x \<noteq> Free t) \<and> (\<forall>t. x = Run t \<longrightarrow> kind_of s t = Some TaskK)"
proof (cases c)
  case (QueueTask t)
  assume x: "x \<in> set (called c s)"
  then obtain k where "heap s t = Some k" using QueueTask by (cases "heap s t") auto
  then show ?thesis using x QueueTask by (cases "myKind k") (auto simp: kind_of_def)
qed simp_all

lemma events_live:
  assumes "tstep polled th p s = Inr (p', s')" "x \<in> set (events p p' s)"
    "\<And>t. t \<in> set (hand p) \<Longrightarrow> heap s t \<noteq> None" "\<And>t. t \<in> set (myTaskQueue s) \<Longrightarrow> heap s t \<noteq> None"
  shows "heap s (event_task x) \<noteq> None"
  using assms
  by (cases "(p, p', s)" rule: events.cases)
    (auto split: list.splits point.splits dest!: called_task simp: with_task_Inr)

lemma events_free: "Free t \<in> set (events p p' s) \<Longrightarrow> p = AtDelete t"
  by (cases "(p, p', s)" rule: events.cases) (auto split: list.splits point.splits dest: called_task)

lemma events_run:
  assumes "tstep polled th p s = Inr (p', s')" "Run t \<in> set (events p p' s)"
  shows "past p = None \<and> past p' = Some t \<and> t \<in> set (hand p) \<and> kind_of s t = Some TaskK \<and> deleted p = []"
  using assms
  by (cases "(p, p', s)" rule: events.cases)
    (auto split: list.splits point.splits kind.splits option.splits if_splits dest!: called_task
      simp: step_simps)

lemma tstep_past:
  assumes "tstep polled th p s = Inr (p', s')" "past p = Some t" "kind_of s t = Some TaskK" "status_of s t \<noteq> Some PENDING"
    "\<And>u. runs p = Some u \<Longrightarrow> myCurrentTask s th = Some u"
  shows "past p' = Some t \<or> p = AtDelete t"
proof (cases p)
  case (AtBody c as)
  then have step: "body_step th c as s = Inr (p', s')" using assms by simp
  have c: "c = QueueTask t" "myCurrentTask s th = Some t" using assms(2,5) AtBody by auto
  have "yield th s \<noteq> Inr s1" for s1 using yield_result [of th s s1] c(2) assms(3) by auto
  then show ?thesis using step c(1) by (elim body_step_cases) auto
qed (use assms(1-4) in \<open>auto simp: step_simps kind_of_def status_of_def split: option.splits if_splits\<close>)

definition lifecycle :: "event list \<Rightarrow> machine \<Rightarrow> bool" where
  "lifecycle es m \<longleftrightarrow> sorted_wrt (\<lambda>e f. e \<noteq> Free (event_task f)) es \<and> (\<forall>t. count_list es (Run t) \<le> 1) \<and>
     (\<forall>t. Free t \<in> set es \<longrightarrow> t < nextTask (m_sched m) \<and> heap (m_sched m) t = None) \<and>
     (\<forall>t. Run t \<in> set es \<longrightarrow> t < nextTask (m_sched m) \<and> (heap (m_sched m) t = None \<or>
        kind_of (m_sched m) t = Some TaskK \<and> (\<exists>i q. point_of m i = Some q \<and> past q = Some t)))"

lemma lifecycle_go:
  assumes m: "threads_inv m" "pending_ok m" and l: "lifecycle es m"
    and at: "at_point m i p" and step: "tstep polled i p (m_sched m) = Inr (p', s')"
  shows "lifecycle (es @ events p p' (m_sched m)) (moved i p' s' m)"
proof -
  let ?s = "m_sched m" and ?e = "events p p' (m_sched m)" and ?m' = "moved i p' s' m"
  note f = go_facts [OF m(1) at step]
  have i: "i < length (m_points m)" "m_points m ! i = p" using at by (auto simp: at_point_def)
  have s': "m_sched ?m' = s'" by (simp add: moved_def)
  have live: "heap ?s (event_task x) \<noteq> None" if "x \<in> set ?e" for x
  proof (rule events_live [OF step that])
    show "heap ?s t \<noteq> None" if "t \<in> set (hand p)" for t using f(1,2) that by blast
    show "heap ?s t \<noteq> None" if "t \<in> set (myTaskQueue ?s)" for t
      using f(2) [of t] that by (simp add: places_def)
  qed
  have pt': "point_of ?m' i = Some p'" using moved_points [OF i(1)] by simp
  have stay: "point_of ?m' j = Some q" if "point_of m j = Some q" "j \<noteq> i" for j q
    using moved_points [OF i(1), of p' s' j] that by (auto simp: point_of_def split: if_splits)
  have old: "t < nextTask s' \<and> (heap s' t = None \<or>
        kind_of s' t = Some TaskK \<and> (\<exists>i q. point_of ?m' i = Some q \<and> past q = Some t))" if r: "Run t \<in> set es" for t
  proof -
    have lt: "t < nextTask ?s" and c: "heap ?s t = None \<or> kind_of ?s t = Some TaskK \<and>
        (\<exists>i q. point_of m i = Some q \<and> past q = Some t)"
      using l r by (auto simp: lifecycle_def)
    have lt': "t < nextTask s'" using lt f(6) by simp
    show ?thesis
    proof (cases "heap ?s t = None \<or> t \<in> set (deleted p)")
      case True
      then show ?thesis using f(3,5) [of t] lt lt' by blast
    next
      case False
      with c obtain j q where k: "kind_of ?s t = Some TaskK" and j: "point_of m j = Some q" "past q = Some t" by blast
      have "status_of ?s t \<noteq> Some PENDING" using m(2) k by (auto simp: pending_ok_def)
      then have "past p' = Some t" if "j = i"
        using tstep_past [OF step _ k] f(9) j i that False by (auto simp: point_of_def)
      then have "\<exists>i q. point_of ?m' i = Some q \<and> past q = Some t" using stay [OF j(1)] j(2) pt' by blast
      then show ?thesis using f(4) [of t] False k lt' by simp
    qed
  qed
  have new_run: "t < nextTask s' \<and> kind_of s' t = Some TaskK \<and> (\<exists>i q. point_of ?m' i = Some q \<and> past q = Some t) \<and>
      Run t \<notin> set es" if r: "Run t \<in> set ?e" for t
  proof -
    note e = events_run [OF step r]
    have lv: "heap ?s t \<noteq> None" using live [OF r] by simp
    have "Run t \<notin> set es"
    proof
      assume "Run t \<in> set es"
      then obtain j q where j: "point_of m j = Some q" "past q = Some t" using l lv by (auto simp: lifecycle_def)
      then have "j \<noteq> i" using e i by (auto simp: point_of_def)
      then show False
        using e f(8) [of j t] past_in_hand [of q t] j by (auto simp: point_of_def split: if_splits)
    qed
    then show ?thesis using e f(4) [OF lv] f(7) [OF lv] f(6) pt' by force
  qed
  have new_free: "t < nextTask s' \<and> heap s' t = None" if "Free t \<in> set ?e" for t
    using f(3) [of t] f(6) f(7) [of t] live [OF that] events_free [OF that] by simp
  have old_free: "t < nextTask s' \<and> heap s' t = None" if "Free t \<in> set es" for t
    using l that f(5) [of t] f(6) by (auto simp: lifecycle_def)
  have after: "e \<noteq> Free (event_task x)" if "e \<in> set es" "x \<in> set ?e" for e x
    using l that live [OF that(2)] by (auto simp: lifecycle_def)
  have srt: "sorted_wrt (\<lambda>e f. e \<noteq> Free (event_task f)) (es @ ?e)"
    using l after events_cases [of p p' ?s] by (auto simp: lifecycle_def sorted_wrt_append)
  have cnt: "count_list (es @ ?e) (Run t) \<le> 1" for t
  proof (cases "Run t \<in> set ?e")
    case True
    then have "count_list es (Run t) = 0" using new_run by (simp add: count_list_0_iff)
    moreover have "count_list ?e (Run t) \<le> 1" using events_cases [of p p' ?s] by auto
    ultimately show ?thesis by simp
  next
    case False
    then show ?thesis using l by (simp add: lifecycle_def count_notin)
  qed
  show ?thesis
    unfolding lifecycle_def s'
    using srt cnt old old_free new_run new_free by auto
qed

lemma lifecycle_same:
  assumes "lifecycle es m" "nextTask (m_sched m) \<le> nextTask (m_sched m')"
    "\<And>t. t < nextTask (m_sched m) \<Longrightarrow> heap (m_sched m') t = None \<longleftrightarrow> heap (m_sched m) t = None"
    "\<And>t. t < nextTask (m_sched m) \<Longrightarrow> kind_of (m_sched m') t = kind_of (m_sched m) t"
    "\<And>i q t. point_of m i = Some q \<Longrightarrow> past q = Some t \<Longrightarrow> point_of m' i = Some q"
  shows "lifecycle es m'"
proof -
  have "t < nextTask (m_sched m') \<and> (heap (m_sched m') t = None \<or>
      kind_of (m_sched m') t = Some TaskK \<and> (\<exists>i q. point_of m' i = Some q \<and> past q = Some t))"
    if "Run t \<in> set es" for t
  proof -
    have "t < nextTask (m_sched m)" "heap (m_sched m) t = None \<or>
        kind_of (m_sched m) t = Some TaskK \<and> (\<exists>i q. point_of m i = Some q \<and> past q = Some t)"
      using assms(1) that by (auto simp: lifecycle_def)
    then show ?thesis using assms(2) assms(3) [of t] assms(4) [of t] assms(5) by (metis order_less_le_trans)
  qed
  moreover have "t < nextTask (m_sched m') \<and> heap (m_sched m') t = None" if "Free t \<in> set es" for t
    using assms(1,2) assms(3) [of t] that by (auto simp: lifecycle_def)
  ultimately show ?thesis using assms(1) by (simp add: lifecycle_def)
qed

lemma lifecycle_step:
  assumes "mstep m e m'" "threads_inv m" "pending_ok m" "lifecycle es m"
  shows "lifecycle (es @ e) m'"
  using assms
proof (cases rule: mstep.cases)
  case (go i p polled p' s')
  then show ?thesis using lifecycle_go [OF assms(2-4)] by simp
next
  case (die i p polled x)
  have "m_sched m' = m_sched m" "point_of m' j = point_of m j" for j using die(2) by (simp_all add: point_of_def)
  then show ?thesis using lifecycle_same [OF assms(4), of m'] die(1) by simp
next
  case (arm i k h timer b u s')
  note h = scheduleTimed_result(2) [OF arm(4), of 0]
  have "kind_of s' t = kind_of (m_sched m) t" if "t < nextTask (m_sched m)" for t
    using heap_step_keep [OF h, of t] that by simp
  moreover have "nextTask s' = Suc (nextTask (m_sched m))" using h by (simp add: heap_step_def)
  moreover have "m_sched m' = s'" "point_of m' j = point_of m j" for j using arm(2) by (simp_all add: point_of_def)
  ultimately show ?thesis
    using lifecycle_same [OF assms(4), of m'] arm(1) by (simp add: heap_None_iff(1))
next
  case (fire i u)
  have "i < length (m_points m)" "m_points m ! i = AtLoop" using fire(3) by (auto simp: at_point_def)
  then have "point_of m' j = Some q" if "point_of m j = Some q" "past q = Some t" for j q t
    using that fire(2) by (cases "j = i") (auto simp: point_of_def split: if_splits)
  then show ?thesis using lifecycle_same [OF assms(4), of m'] fire(1,2) by simp
qed

lemma lifecycle_run:
  assumes "mrun (boot n inits as) es m"
  shows "threads_inv m \<and> pending_ok m \<and> lifecycle es m"
  using assms
proof (induction rule: mrun.induct)
  case refl
  let ?m = "boot n inits as"
  have "pending_ok ?m"
  proof (rule pending_okI)
    show "kind_of (m_sched ?m) t = Some CoroutineK" if "status_of (m_sched ?m) t = Some PENDING" for t
      using that boot_status [of n inits as t] by auto
    show "kind_of (m_sched ?m) u = Some CoroutineK" if "point_of ?m i = Some (AtSuspend u c bs)" for i u c bs
      using that by (auto simp: boot_def point_of_def split: if_splits)
  qed
  then show ?case using threads_inv_boot by (simp add: lifecycle_def)
next
  case (step es m' e m'')
  then show ?case using threads_inv_step pending_ok_step lifecycle_step by blast
qed

text \<open>
  C4. Whatever the threads do, the closure of a task is called at most once, and nothing happens to a task after it was
  freed: it is not put into the queue, taken out, run, aborted or freed again.
\<close>

theorem threads_run_once:
  assumes "mrun (boot n inits as) es m"
  shows "(\<forall>t. count_list es (Run t) \<le> 1) \<and>
    (\<forall>xs t ys e. es = xs @ Free t # ys \<longrightarrow> e \<in> set ys \<longrightarrow> event_task e \<noteq> t)"
proof -
  have "lifecycle es m" using lifecycle_run [OF assms] by blast
  then show ?thesis by (fastforce simp: lifecycle_def sorted_wrt_append)
qed

theorem threads_run_once_witness:
  "\<exists>m. mrun sample [Put 0, Take 0, Run 0, Free 0] m \<and> count_list [Put 0, Take 0, Run 0, Free 0] (Run 0) \<le> 1"
proof -
  obtain m where m: "mrun sample [Put 0, Take 0, Run 0, Free 0] m" using sample_run by blast
  then show ?thesis using threads_run_once [OF m] by blast
qed

section \<open>Aborting while the threads run\<close>

text \<open>A task that was aborted before its status is looked at, and one that was leaked.\<close>

fun before_look :: "point \<Rightarrow> nat list" where
  "before_look (AtActivate t) = [t]"
| "before_look (AtUncount t) = [t]"
| "before_look (AtCurrent t) = [t]"
| "before_look (AtCount u c as) = [u]"
| "before_look (AtPush u c as) = [u]"
| "before_look p = []"

definition doomed :: "nat \<Rightarrow> machine \<Rightarrow> bool" where
  "doomed t m \<longleftrightarrow> status_of (m_sched m) t = Some ABORTED \<and> t \<notin> set (myThreadInitQueue (m_sched m)) \<and>
     (\<forall>p \<in> set (m_points m). t \<in> set (hand p) \<longrightarrow> t \<in> set (before_look p))"

lemma before_look_passive: "t \<in> set (before_look p) \<Longrightarrow> writes p = [] \<and> deleted p = []"
  by (cases p) auto

text \<open>A thread gets a task into its hand from the queue, or creates it.\<close>

lemma tstep_hand:
  assumes "tstep polled th p s = Inr (p', s')" "t \<in> set (hand p')" "t \<notin> set (hand p)" "t \<notin> set (born p s)"
  shows "p' = AtActivate t"
proof (cases p)
  case (AtInit ts)
  then show ?thesis using assms by (cases ts) (auto simp: step_simps split: option.splits if_splits)
next
  case (AtBody c as)
  then have "body_step th c as s = Inr (p', s')" using assms by simp
  then show ?thesis using assms(2-4) unfolding AtBody by (elim body_step_cases) auto
qed (use assms in \<open>auto simp: step_simps split: option.splits list.splits if_splits kind.splits caller.splits\<close>)

lemma tstep_before_look:
  assumes "tstep polled th p s = Inr (p', s')" "t \<in> set (before_look p)" "status_of s t = Some ABORTED"
    "count (mset (hand p)) t \<le> 1" "t \<in> set (hand p')"
  shows "t \<in> set (before_look p')"
  using assms
  by (cases p) (auto simp: step_simps status_of_def count_mset_0_iff split: option.splits if_splits)

lemma doomed_go:
  assumes m: "threads_inv m" and d: "doomed t m" and at: "at_point m i p" and step: "tstep polled i p (m_sched m) = Inr (p', s')"
  shows "doomed t (moved i p' s' m) \<and> (\<forall>x \<in> set (events p p' (m_sched m)). x \<noteq> Run t \<and> x \<noteq> Turn t \<and> x \<noteq> Free t)"
proof -
  let ?s = "m_sched m"
  note f = go_facts [OF m at step]
  have i: "i < length (m_points m)" "m_points m ! i = p" using at by (auto simp: at_point_def)
  have h: "heap_step i p ?s s'" by (rule tstep_heap [OF step])
  have ab: "status_of ?s t = Some ABORTED" and ni: "t \<notin> set (myThreadInitQueue ?s)" using d by (auto simp: doomed_def)
  have q: "myThreadInitQueue s' = myThreadInitQueue ?s" using h by (simp add: heap_step_def)
  have look: "t \<in> set (before_look p)" if "t \<in> set (hand p)" using d i that by (auto simp: doomed_def)
  have live: "heap ?s t \<noteq> None" using ab by (auto simp: heap_None_iff(2))
  have nb: "t \<notin> set (born p ?s)" using born_cases [of p ?s] f(7) [OF live] by auto
  have nd: "t \<notin> set (deleted p)"
    using look deleted_in_hand [of t p] before_look_passive [of t p] by auto
  have nw: "t \<notin> set (writes p)"
    using look writes_own [OF f(10), of t] before_look_passive [of t p] ni by auto
  have "status_of s' t = Some ABORTED" using heap_step_keep [OF h nb nd] nw ab by auto
  moreover have "t \<in> set (before_look r)" if r: "r \<in> set (m_points (moved i p' s' m))" "t \<in> set (hand r)" for r
  proof -
    have "r = p' \<or> r \<in> set (m_points m) \<or> r = AtInit (myThreadInitQueue s')"
      using r(1) set_update_subset_insert [of "m_points m" i p'] by (auto simp: moved_def split: if_splits)
    moreover have "t \<in> set (before_look p')" if "t \<in> set (hand p')"
    proof (cases "t \<in> set (hand p)")
      case True
      have "count (places m) t \<le> 1" using m by (simp add: threads_inv_def single_place_def)
      moreover have "count (mset (hand p)) t \<le> count (hands (m_points m)) t"
        using mset_subset_eq_count [OF hand_in_hands [OF i(1)]] i(2) by simp
      ultimately have "count (mset (hand p)) t \<le> 1" by (simp add: places_def)
      then show ?thesis using tstep_before_look [OF step look [OF True] ab _ that] by blast
    next
      case False
      then show ?thesis using tstep_hand [OF step that False nb] by simp
    qed
    ultimately show ?thesis using d r(2) by (auto simp: doomed_def)
  qed
  moreover have "x \<noteq> Run t \<and> x \<noteq> Turn t \<and> x \<noteq> Free t" if "x \<in> set (events p p' ?s)" for x
  proof (cases "t \<in> set (hand p)")
    case True
    then show ?thesis using look that by (cases p) auto
  next
    case False
    then show ?thesis using that
      by (cases "(p, p', ?s)" rule: events.cases) (auto split: list.splits point.splits dest!: called_task)
  qed
  ultimately show ?thesis using q ni by (simp add: doomed_def moved_def)
qed

lemma doomed_step:
  assumes "mstep m e m'" "threads_inv m" "doomed t m"
  shows "doomed t m' \<and> (\<forall>x \<in> set e. x \<noteq> Run t \<and> x \<noteq> Turn t \<and> x \<noteq> Free t)"
  using assms
proof (cases rule: mstep.cases)
  case (go i p polled p' s')
  then show ?thesis using doomed_go [OF assms(2,3) go(3,4)] by simp
next
  case (die i p polled x)
  then show ?thesis using assms(3) by (simp add: doomed_def)
next
  case (arm i k h timer b u s')
  note h = scheduleTimed_result(2) [OF arm(4), of 0]
  have "t \<noteq> nextTask (m_sched m)"
    using assms(2,3) by (auto simp: threads_inv_def single_place_def doomed_def heap_None_iff(2))
  then have "status_of s' t = status_of (m_sched m) t \<or> status_of s' t = Some ABORTED"
    using heap_step_keep [OF h, of t] by simp
  moreover have "myThreadInitQueue s' = myThreadInitQueue (m_sched m)" using h by (simp add: heap_step_def)
  ultimately show ?thesis using assms(3) arm(1,2) by (auto simp: doomed_def)
next
  case (fire i u)
  then show ?thesis
    using assms(3) set_update_subset_insert [of "m_points m" i "AtCount u IoHandler []"] by (auto simp: doomed_def)
qed

lemma doomed_run:
  assumes "mrun m es m'" "threads_inv m" "doomed t m"
  shows "doomed t m' \<and> (\<forall>x \<in> set es. x \<noteq> Run t \<and> x \<noteq> Turn t \<and> x \<noteq> Free t)"
  using assms
proof (induction rule: mrun.induct)
  case (step es m' e m'')
  then show ?case using doomed_step [OF step(2)] threads_inv_run [OF step(1)] by auto
qed simp

text \<open>
  C7. An abort that reaches a task in the queue or at its timer is final: in whatever way the threads go on, the closure of
  the task is never called. But the task is never deleted either, so what it holds is never released.
\<close>

theorem queued_abort_final:
  assumes "mrun (boot n inits as) es m" "t \<in> set (myTaskQueue (m_sched m)) \<or> t \<in> set (m_timers m)"
    "status_of (m_sched m) t = Some ABORTED" "mrun m es' m'"
  shows "Run t \<notin> set es' \<and> Turn t \<notin> set es' \<and> Free t \<notin> set es' \<and> status_of (m_sched m') t = Some ABORTED"
proof -
  have m: "threads_inv m" by (rule threads_inv_run [OF assms(1) threads_inv_boot])
  have one: "count (places m) t \<le> 1" using m by (simp add: threads_inv_def single_place_def)
  have "count (hands (m_points m)) t = 0"
  proof -
    have "count (mset (myTaskQueue (m_sched m))) t + count (mset (m_timers m)) t \<ge> 1"
      using assms(2) by (metis count_eq_zero_iff set_mset_mset not_less_eq_eq One_nat_def add_is_0 le_0_eq)
    then show ?thesis using one by (simp add: places_def)
  qed
  then have "t \<notin> set (hand p)" if "p \<in> set (m_points m)" for p
    using that hand_in_hands [of _ "m_points m"] by (metis in_set_conv_nth mset_subset_eqD not_in_iff set_mset_mset)
  moreover have "t \<in># places m" using assms(2) by (auto simp: places_def)
  then have "t \<notin> set (myThreadInitQueue (m_sched m))" using m by (auto simp: threads_inv_def initialised_def)
  ultimately have "doomed t m" using assms(3) by (simp add: doomed_def)
  from doomed_run [OF assms(4) m this] show ?thesis by (auto simp: doomed_def)
qed

theorem queued_abort_final_witness:
  "\<exists>m m'. mrun (boot 1 [] [SpawnTask [Host 7], AbortTask 0]) [Put 0, Aborted 0] m \<and> mrun m [Take 0] m' \<and>
     Run 0 \<notin> set [Take 0] \<and> status_of (m_sched m') 0 = Some ABORTED"
proof -
  let ?m = "boot 1 [] [SpawnTask [Host 7], AbortTask 0]"
  let ?first = "replicate 7 (0, None)" and ?then = "replicate 10 (1, None)"
  have "map_option (\<lambda>(es, m). (es, myTaskQueue (m_sched m), status_of (m_sched m) 0, map_option fst (execute ?then m)))
      (execute ?first ?m) = Some ([Put 0, Aborted 0], [0], Some ABORTED, Some [Take 0])"
    by code_simp
  then obtain m m' where m: "execute ?first ?m = Some ([Put 0, Aborted 0], m)" "myTaskQueue (m_sched m) = [0]"
    "status_of (m_sched m) 0 = Some ABORTED" "execute ?then m = Some ([Take 0], m')"
    by (auto split: prod.splits)
  have "0 \<in> set (myTaskQueue (m_sched m)) \<or> 0 \<in> set (m_timers m)" using m(2) by simp
  from queued_abort_final [OF execute_mrun [OF m(1)] this m(3) execute_mrun [OF m(4)]]
  show ?thesis using execute_mrun [OF m(1)] execute_mrun [OF m(4)] by blast
qed



section \<open>How many threads there are\<close>

fun adding :: "point \<Rightarrow> bool" where
  "adding (AtAddThread c as) = True"
| "adding p = False"

definition adders :: "point list \<Rightarrow> nat" where
  "adders ps = length (filter adding ps)"

lemma adders_update:
  "i < length ps \<Longrightarrow> adders (ps[i := p]) + of_bool (adding (ps ! i)) = adders ps + of_bool (adding p)"
proof (induction ps arbitrary: i)
  case (Cons q ps)
  then show ?case by (cases i) (auto simp: adders_def split: if_splits)
qed simp

lemma adders_append [simp]: "adders (ps @ qs) = adders ps + adders qs" "adders (replicate n (AtInit ts)) = 0"
  by (simp_all add: adders_def)

lemma after_not_adding [simp]: "\<not> adding (after_create c)" "\<not> adding (after_enter ts c)"
  by (cases c; simp)+

lemma tstep_threads:
  assumes "tstep polled th p s = Inr (p', s')"
  shows "(if adding p then myThreadGroup s' = Suc (myThreadGroup s) \<and> \<not> adding p'
      else myThreadGroup s' = myThreadGroup s \<and> (adding p' \<longrightarrow> myThreadGroup s < unat (myMaxThreads s)))"
proof (cases p)
  case (AtInit ts)
  then show ?thesis using assms by (cases ts) (auto simp: step_simps split: option.splits if_splits)
next
  case (AtBody c as)
  then have "body_step th c as s = Inr (p', s')" using assms by simp
  then show ?thesis unfolding AtBody by (elim body_step_cases) auto
next
  case (AtAwaitHandlers u c as)
  then show ?thesis using assms by (auto simp: rbind_eq_Inr dest!: await_handlers_result)
next
  case (AtDelete t)
  then show ?thesis using assms by (auto simp: rbind_eq_Inr delete_task_result)
qed (use assms in \<open>auto simp: step_simps addThread_def
    split: option.splits list.splits if_splits kind.splits caller.splits\<close>)

definition threads_bounded :: "usize \<Rightarrow> machine \<Rightarrow> bool" where
  "threads_bounded n m \<longleftrightarrow> myMaxThreads (m_sched m) = n \<and> length (m_points m) = Suc (myThreadGroup (m_sched m)) \<and>
     myThreadGroup (m_sched m) + adders (m_points m) \<le> 2 * unat n - 1"

lemma adders_others: "i < length ps \<Longrightarrow> \<not> adding (ps ! i) \<Longrightarrow> adders ps < length ps"
  unfolding adders_def by (rule length_filter_less) auto

lemma threads_bounded_step: "mstep m e m' \<Longrightarrow> threads_bounded n m \<Longrightarrow> threads_bounded n m'"
proof (induction rule: mstep.induct)
  case (go m i p polled p' s')
  have i: "i < length (m_points m)" "m_points m ! i = p" using go(1) by (auto simp: at_point_def)
  have b: "myMaxThreads (m_sched m) = n" "length (m_points m) = Suc (myThreadGroup (m_sched m))"
    "myThreadGroup (m_sched m) + adders (m_points m) \<le> 2 * unat n - 1"
    using go(3) by (auto simp: threads_bounded_def)
  have mx: "myMaxThreads s' = n" using tstep_heap [OF go(2)] b(1) by (simp add: heap_step_def)
  note t = tstep_threads [OF go(2)]
  note u = adders_update [OF i(1), of p', unfolded i(2)]
  have len: "length (m_points (moved i p' s' m)) = Suc (myThreadGroup s')"
    using t b(2) by (auto simp: moved_def split: if_splits)
  have "myThreadGroup s' + adders ((m_points m)[i := p']) \<le> 2 * unat n - 1"
  proof (cases "adding p")
    case True
    then show ?thesis using t u b(3) by simp
  next
    case False
    have "adders (m_points m) < length (m_points m)" using adders_others [OF i(1)] i(2) False by simp
    then show ?thesis using t u b False by (cases "adding p'") auto
  qed
  then show ?case using mx len by (simp add: threads_bounded_def moved_def)
next
  case (arm m i k h timer b u s')
  have "myMaxThreads s' = myMaxThreads (m_sched m)" "myThreadGroup s' = myThreadGroup (m_sched m)"
    using arm(2) by (cases h;
      auto simp: scheduleTimed_def new_task_def Let_def Holder_def hold_def addCancellationHandler_def with_task_def)+
  then show ?case using arm(3) by (simp add: threads_bounded_def)
next
  case (fire m i u)
  have "i < length (m_points m)" "m_points m ! i = AtLoop" using fire(1) by (auto simp: at_point_def)
  then show ?case using fire(3) adders_update [of i "m_points m" "AtCount u IoHandler []"] by (simp add: threads_bounded_def)
qed (simp add: threads_bounded_def)

lemma threads_bounded_run: "mrun (boot n inits as) es m \<Longrightarrow> threads_bounded n m"
proof (induction rule: mrun.induct)
  case refl
  show ?case using boot_sched(5,8) [of n inits as] by (simp add: threads_bounded_def boot_def adders_def)
qed (rule threads_bounded_step)

text \<open>
  C8. \<open>myMaxThreads\<close> does not bound the thread group: \<open>balanceThreads\<close> compares and adds in two steps, so threads that schedule
  at the same time all see the size below the maximum. The group has at most one thread less than twice the maximum; with
  a maximum of two it can have three.
\<close>

theorem thread_group_bound:
  assumes "mrun (boot n inits as) es m"
  shows "length (m_points m) = Suc (myThreadGroup (m_sched m)) \<and> myThreadGroup (m_sched m) \<le> 2 * unat n - 1 \<and>
    (\<exists>as es m. mrun (boot 2 [] as) es m \<and> myThreadGroup (m_sched m) = 3)"
proof -
  let ?is = "replicate 6 (0, None) @ [(1, None), (1, None), (1, Some [SpawnTask []])] @ replicate 4 (1, None) @ [(0, None), (1, None)]"
  have "map_option (\<lambda>(es, m). myThreadGroup (m_sched m)) (execute ?is (boot 2 [] [SpawnTask []])) = Some 3"
    by code_simp
  then have "\<exists>as es m. mrun (boot 2 [] as) es m \<and> myThreadGroup (m_sched m) = 3"
    using execute_mrun by (fastforce split: prod.splits)
  then show ?thesis using threads_bounded_run [OF assms] by (simp add: threads_bounded_def)
qed

theorem thread_group_bound_witness:
  "\<exists>m. mrun sample [Put 0, Take 0, Run 0, Free 0] m \<and> myThreadGroup (m_sched m) \<le> 1"
proof -
  obtain m where m: "mrun sample [Put 0, Take 0, Run 0, Free 0] m" using sample_run by blast
  then show ?thesis using thread_group_bound [OF m] by auto
qed

end
