(* ===== verification/ThreadsTurn.thy ===== *)
theory ThreadsTurn
  imports ThreadsProps
begin

text \<open>
  A turn of \<open>drainTasks\<close>, from the \<open>pop\<close> of a task to the test of the pause, takes a bounded number
  of steps of its thread, whatever the other threads do in between: they can neither make it wait
  nor make it longer.
\<close>

section \<open>Turns\<close>

primrec queue_caller :: "caller \<Rightarrow> bool" where
  "queue_caller (QueueTask t) = True"
| "queue_caller (InitTask t ts) = False"
| "queue_caller IoHandler = False"
| "queue_caller Entry = False"

fun turn :: "point \<Rightarrow> bool" where
  "turn (AtActivate t) = True"
| "turn (AtUncount t) = True"
| "turn (AtCurrent t) = True"
| "turn (AtTestInactive t) = True"
| "turn (AtCreate c) = queue_caller c"
| "turn (AtCreated c) = queue_caller c"
| "turn (AtTestCreated t) = True"
| "turn (AtTestPending t) = True"
| "turn (AtEnter c) = queue_caller c"
| "turn (AtActive c starts) = queue_caller c"
| "turn (AtCoroutine c) = queue_caller c"
| "turn (AtCoActive c) = queue_caller c"
| "turn (AtBody c as) = queue_caller c"
| "turn (AtCount u c as) = queue_caller c"
| "turn (AtPush u c as) = queue_caller c"
| "turn (AtBalance c as) = queue_caller c"
| "turn (AtAddThread c as) = queue_caller c"
| "turn (AtAbortHandlers u c as) = queue_caller c"
| "turn (AtAwaitHandlers u c as) = queue_caller c"
| "turn (AtSuspend u c as) = queue_caller c"
| "turn (AtFinish c) = queue_caller c"
| "turn (AtTestPush t) = True"
| "turn (AtRepush t) = True"
| "turn AtRecount = True"
| "turn (AtExit c) = queue_caller c"
| "turn (AtDelete t) = True"
| "turn AtLeave = True"
| "turn p = False"

text \<open>
  How many steps are left. A scheduled task can start as many threads as the group may still grow
  by (\<open>slack\<close>), which other threads only lower; a closure has its actions left, the one that is
  still to be entered those of its handler.
\<close>

definition slack :: "sched \<Rightarrow> nat" where
  "slack s = unat (myMaxThreads s) - myThreadGroup s"

fun act_cost :: "nat \<Rightarrow> act \<Rightarrow> nat" where
  "act_cost k (Await u) = 10 + 2 * k"
| "act_cost k a = 7 + 2 * k"

definition body_cost :: "sched \<Rightarrow> act list \<Rightarrow> nat" where
  "body_cost s as = (\<Sum>a\<leftarrow>as. act_cost (slack s) a)"

definition handler_of :: "sched \<Rightarrow> nat \<Rightarrow> act list" where
  "handler_of s t = (case heap s t of None \<Rightarrow> [] | Some k \<Rightarrow> myHandler k)"

definition entered_cost :: "sched \<Rightarrow> caller \<Rightarrow> nat" where
  "entered_cost s c = (case entered c of None \<Rightarrow> 0 | Some t \<Rightarrow> body_cost s (handler_of s t))"

fun steps_left :: "sched \<Rightarrow> point \<Rightarrow> nat" where
  "steps_left s (AtActivate t) = 18 + body_cost s (handler_of s t)"
| "steps_left s (AtUncount t) = 17 + body_cost s (handler_of s t)"
| "steps_left s (AtCurrent t) = 16 + body_cost s (handler_of s t)"
| "steps_left s (AtTestInactive t) = 15 + body_cost s (handler_of s t)"
| "steps_left s (AtCreate c) = 14 + entered_cost s c"
| "steps_left s (AtCreated c) = 13 + entered_cost s c"
| "steps_left s (AtTestCreated t) = 12 + body_cost s (handler_of s t)"
| "steps_left s (AtTestPending t) = 11 + body_cost s (handler_of s t)"
| "steps_left s (AtEnter c) = 10 + entered_cost s c"
| "steps_left s (AtActive c starts) = 9 + entered_cost s c"
| "steps_left s (AtCoroutine c) = 8 + entered_cost s c"
| "steps_left s (AtCoActive c) = 7 + entered_cost s c"
| "steps_left s (AtBody c as) = 6 + body_cost s as"
| "steps_left s (AtCount u c as) = 9 + 2 * slack s + body_cost s as"
| "steps_left s (AtPush u c as) = 8 + 2 * slack s + body_cost s as"
| "steps_left s (AtBalance c as) = 7 + 2 * slack s + body_cost s as"
| "steps_left s (AtAddThread c as) = 8 + 2 * (slack s - 1) + body_cost s as"
| "steps_left s (AtAbortHandlers u c as) = 7 + body_cost s as"
| "steps_left s (AtAwaitHandlers u c as) = 14 + 2 * slack s + body_cost s as"
| "steps_left s (AtSuspend u c as) = 5"
| "steps_left s (AtFinish c) = 5"
| "steps_left s (AtTestPush t) = 4"
| "steps_left s (AtRepush t) = 3"
| "steps_left s AtRecount = 2"
| "steps_left s (AtExit c) = 3"
| "steps_left s (AtDelete t) = 2"
| "steps_left s AtLeave = 1"
| "steps_left s p = 0"

lemma act_cost_mono: "k \<le> k' \<Longrightarrow> act_cost k a \<le> act_cost k' a"
  by (cases a) auto

lemma body_cost_mono: "slack s' \<le> slack s \<Longrightarrow> body_cost s' as \<le> body_cost s as"
  unfolding body_cost_def by (intro sum_list_mono) (simp add: act_cost_mono)

lemma body_cost_simps [simp]: "body_cost s [] = 0" "body_cost s (a # as) = act_cost (slack s) a + body_cost s as"
  by (simp_all add: body_cost_def)

lemma act_cost_least: "7 + 2 * k \<le> act_cost k a"
  by (cases a) auto

text \<open>The other threads only lower what is left.\<close>

lemma steps_left_mono:
  assumes "slack s' \<le> slack s" "\<And>t. t \<in> set (hand p) \<Longrightarrow> handler_of s' t = handler_of s t" "turn p"
  shows "steps_left s' p \<le> steps_left s p"
proof -
  have e: "entered_cost s' c \<le> entered_cost s c" if "queue_caller c" "set (caller_task c) \<subseteq> set (hand p)" for c
    using that assms(2) body_cost_mono [OF assms(1)] by (cases c) (auto simp: entered_cost_def)
  have b: "body_cost s' (handler_of s' t) \<le> body_cost s (handler_of s t)" if "t \<in> set (hand p)" for t
    using body_cost_mono [OF assms(1)] assms(2) [OF that] by simp
  show ?thesis using assms(1,3) e b body_cost_mono [OF assms(1)] by (cases p) (auto intro!: add_mono)
qed

section \<open>A step of the thread itself\<close>

lemma slack_same [simp]:
  "slack (store t st s) = slack s" "slack (set_handler t b s) = slack s" "slack (makeCurrent th t s) = slack s"
  "slack (release_current th s) = slack s" "slack (run_handlers hs s) = slack s" "slack (snd (new_task k h b s)) = slack s"
  by (simp_all add: slack_def)

lemma body_cost_same: "slack s' = slack s \<Longrightarrow> body_cost s' = body_cost s"
  by (simp add: body_cost_def fun_eq_iff)

lemma handler_of_same [simp]:
  "handler_of (store u st s) t = handler_of s t" "handler_of (makeCurrent th u s) t = handler_of s t"
  "handler_of (release_current th s) t = handler_of s t" "handler_of (run_handlers hs s) t = handler_of s t"
  by (simp_all add: handler_of_def split: option.split)

lemma queue_caller_cases: "queue_caller c \<Longrightarrow> \<exists>t. c = QueueTask t"
  by (cases c) auto

lemma turn_body:
  assumes "body_step th (QueueTask t) as s = Inr (p', s')"
  shows "turn p' \<and> steps_left s' p' < 6 + body_cost s as"
  using assms
proof (elim body_step_cases)
  fix k h b bs
  assume a: "as = SpawnTask b # bs \<and> k = TaskK \<and> h \<or> as = SpawnCoroutine b # bs \<and> k = CoroutineK \<and> \<not> h"
    and p: "p' = AtCount (nextTask s) (QueueTask t) bs" "s' = snd (new_task k h b s)"
  have "body_cost s' bs = body_cost s bs" using body_cost_same [of s' s] p(2) by simp
  then show ?thesis using a p by auto
next
  fix u k bs
  assume a: "as = AbortTask u # bs" "p' = AtAbortHandlers u (QueueTask t) bs" "s' = store u ABORTED s"
  have "body_cost s' bs = body_cost s bs" using body_cost_same [of s' s] a(3) by simp
  then show ?thesis using a by simp
next
  fix s1 bs cs
  assume "as = Yield # bs \<and> cs = bs \<or> (\<exists>f. as = WaitFlag f # bs \<and> cs = as)"
    "p' = AtSuspend (the (myCurrentTask s th)) (QueueTask t) cs"
  then show ?thesis by auto
next
  fix bs
  assume a: "as = Pause # bs" "p' = AtBody (QueueTask t) bs" "s' = s\<lparr>myPauseTasks := True\<rparr>"
  have "body_cost s' bs = body_cost s bs" using body_cost_same [of s' s] a(3) by (simp add: slack_def)
  then show ?thesis using a by simp
next
  fix bs
  assume a: "as = Resume # bs" "p' = AtBody (QueueTask t) bs" "s' = s\<lparr>myPauseTasks := False\<rparr>"
  have "body_cost s' bs = body_cost s bs" using body_cost_same [of s' s] a(3) by (simp add: slack_def)
  then show ?thesis using a by simp
next
  fix n bs
  assume a: "as = Host n # bs" "p' = AtBody (QueueTask t) bs" "s' = s\<lparr>trace := trace s @ [n]\<rparr>"
  have "body_cost s' bs = body_cost s bs" using body_cost_same [of s' s] a(3) by (simp add: slack_def)
  then show ?thesis using a by simp
qed auto

lemma tstep_turn:
  assumes "tstep polled th p s = Inr (p', s')" "turn p"
  shows "p' = AtTestPause \<or> turn p' \<and> steps_left s' p' < steps_left s p"
proof (cases p)
  case (AtBody c as)
  then obtain t where "c = QueueTask t" using assms(2) queue_caller_cases by auto
  then show ?thesis using turn_body assms(1) AtBody by simp
next
  case (AtAwaitHandlers u c as)
  then obtain f where r: "await_handlers u s = Inr (f, s')" "p' = AtBody c (WaitFlag f # as)"
    using assms(1) by (auto simp: rbind_eq_Inr)
  have "slack s' = slack s" using await_handlers_result [OF r(1)] by (auto simp: slack_def)
  then show ?thesis using r(2) assms(2) AtAwaitHandlers body_cost_same [of s' s] by simp
next
  case (AtCount u c as)
  have "slack (s\<lparr>myTaskCount := myTaskCount s + 1\<rparr>) = slack s" by (simp add: slack_def)
  then show ?thesis using assms AtCount body_cost_same [of "s\<lparr>myTaskCount := myTaskCount s + 1\<rparr>" s] by auto
next
  case (AtPush u c as)
  have "slack (s\<lparr>myTaskQueue := myTaskQueue s @ [u]\<rparr>) = slack s" by (simp add: slack_def)
  then show ?thesis using assms AtPush body_cost_same [of "s\<lparr>myTaskQueue := myTaskQueue s @ [u]\<rparr>" s] by auto
next
  case (AtBalance c as)
  have "p' = AtAddThread c as \<Longrightarrow> slack s > 0" using assms(1) AtBalance by (auto simp: slack_def split: if_splits)
  then show ?thesis using assms AtBalance by (auto split: if_splits)
next
  case (AtAddThread c as)
  then have p': "p' = AtBalance c as" "s' = addThread s" using assms(1) by simp_all
  have sl: "slack s' = slack s - 1" using p'(2) by (simp add: slack_def addThread_def)
  then have "body_cost s' as \<le> body_cost s as" by (intro body_cost_mono) simp
  then show ?thesis using p'(1) sl AtAddThread assms(2) by simp
next
  case (AtAbortHandlers u c as)
  then obtain hs where "p' = AtBody c as" "s' = run_handlers hs s" using assms(1) by (auto simp: with_task_Inr)
  then show ?thesis using assms(2) AtAbortHandlers body_cost_same [of s' s] by simp
next
  case (AtActivate t)
  let ?s' = "s\<lparr>myActiveTaskCount := myActiveTaskCount s + 1\<rparr>"
  have "slack ?s' = slack s" "handler_of ?s' t = handler_of s t" by (simp_all add: slack_def handler_of_def)
  then show ?thesis using assms AtActivate body_cost_same [of ?s' s] by auto
next
  case (AtUncount t)
  let ?s' = "makeCurrent th t (s\<lparr>myTaskCount := myTaskCount s - 1\<rparr>)"
  have "slack ?s' = slack s" "handler_of ?s' t = handler_of s t" by (simp_all add: slack_def handler_of_def)
  then show ?thesis using assms AtUncount body_cost_same [of ?s' s] by auto
next
  case (AtCreate c)
  then obtain t k where c: "c = QueueTask t" "heap s t = Some k"
    using assms queue_caller_cases by (fastforce simp: on_entered_def with_task_Inr)
  then have "slack s' = slack s \<and> handler_of s' t = handler_of s t \<and> (p' = AtTestCreated t \<or> p' = AtCreated c)"
    using assms(1) AtCreate by (auto simp: on_entered_def with_task_def split: kind.splits if_splits)
  then show ?thesis using AtCreate c(1) body_cost_same [of s' s] by (auto simp: entered_cost_def)
next
  case (AtCreated c)
  then obtain t k where c: "c = QueueTask t" "heap s t = Some k"
    using assms queue_caller_cases by (fastforce simp: on_entered_def with_task_Inr)
  then have "slack s' = slack s \<and> handler_of s' t = handler_of s t \<and> p' = AtTestCreated t"
    using assms(1) AtCreated by (auto simp: on_entered_def with_task_def slack_def handler_of_def)
  then show ?thesis using AtCreated c(1) body_cost_same [of s' s] by (auto simp: entered_cost_def)
next
  case (AtActive c starts)
  then obtain t k where c: "c = QueueTask t" "heap s t = Some k"
    using assms queue_caller_cases by (fastforce simp: on_entered_def with_task_Inr)
  then have "slack s' = slack s \<and> handler_of s' t = handler_of s t \<and>
      (p' = AtBody c (handler_of s t) \<or> p' = AtCoroutine c \<or> p' = AtCoActive c)"
    using assms(1) AtActive by (auto simp: on_entered_def with_task_def handler_of_def split: kind.splits if_splits)
  then show ?thesis using AtActive c(1) body_cost_same [of s' s] by (auto simp: entered_cost_def)
next
  case (AtCoActive c)
  then obtain t k where c: "c = QueueTask t" "heap s t = Some k"
    using assms queue_caller_cases by (fastforce simp: on_entered_def with_task_Inr)
  then have "slack s' = slack s \<and> p' = AtBody c (handler_of s t)"
    using assms(1) AtCoActive by (auto simp: on_entered_def with_task_def handler_of_def)
  then show ?thesis using AtCoActive c(1) body_cost_same [of s' s] by (auto simp: entered_cost_def)
next
  case (AtSuspend u c as)
  then show ?thesis using assms queue_caller_cases by fastforce
next
  case (AtFinish c)
  then show ?thesis using assms queue_caller_cases by (fastforce simp: on_entered_def with_task_Inr)
next
  case (AtExit c)
  then show ?thesis using assms queue_caller_cases by (fastforce simp: on_entered_def with_task_Inr)
next
  case (AtCoroutine c)
  then show ?thesis using assms queue_caller_cases by (fastforce simp: on_entered_def with_task_Inr split: if_splits)
next
  case (AtEnter c)
  then show ?thesis using assms queue_caller_cases by (fastforce simp: on_entered_def with_task_Inr split: if_splits)
qed (use assms in \<open>auto simp: step_simps entered_cost_def split: option.splits if_splits\<close>)

section \<open>The steps of the others\<close>

lemma tstep_slack: "tstep polled th p s = Inr (p', s') \<Longrightarrow> slack s' \<le> slack s"
  using tstep_threads [of polled th p s p' s'] tstep_heap [of polled th p s p' s']
  by (auto simp: slack_def heap_step_def split: if_splits)

lemma tstep_handler:
  assumes "tstep polled th p s = Inr (p', s')" "t \<notin> set (born p s)" "t \<notin> set (deleted p)" "\<And>c as. p \<noteq> AtSuspend t c as"
  shows "handler_of s' t = handler_of s t"
proof (cases p)
  case (AtInit ts)
  then show ?thesis using assms by (cases ts) (auto simp: step_simps split: option.splits if_splits)
next
  case (AtBody c as)
  then have "body_step th c as s = Inr (p', s')" using assms by simp
  then show ?thesis using assms(2) unfolding AtBody
    by (elim body_step_cases) (auto simp: handler_of_def split: option.split)
next
  case (AtAwaitHandlers u c as)
  then show ?thesis using assms(1) by (auto simp: rbind_eq_Inr handler_of_def dest!: await_handlers_result)
next
  case (AtDelete u)
  then show ?thesis using assms by (auto simp: rbind_eq_Inr delete_task_result handler_of_def)
next
  case (AtSuspend u c as)
  have "t \<noteq> u" using assms(4) [of c as] AtSuspend by auto
  then show ?thesis using assms(1) AtSuspend by (auto simp: handler_of_def)
qed (use assms(1-3) in \<open>auto simp: step_simps handler_of_def addThread_def
    split: option.splits list.splits if_splits kind.splits caller.splits\<close>)

text \<open>The steps thread \<open>i\<close> has made while it stayed in its turn, among those of all threads.\<close>

inductive turn_moves :: "nat \<Rightarrow> machine \<Rightarrow> nat \<Rightarrow> machine \<Rightarrow> bool" for i m where
  start: "turn_moves i m 0 m"
| step: "turn_moves i m n m' \<Longrightarrow> mstep m' e m'' \<Longrightarrow> point_of m'' i = Some q \<Longrightarrow> turn q \<Longrightarrow>
    turn_moves i m (n + of_bool (point_of m'' i \<noteq> point_of m' i)) m''"

lemma turn_moves_inv: "turn_moves i m n m' \<Longrightarrow> threads_inv m \<Longrightarrow> threads_inv m'"
  by (induction rule: turn_moves.induct) (auto intro: threads_inv_step)

lemma turn_step:
  assumes "mstep m e m'" "threads_inv m" "point_of m i = Some p" "turn p" "point_of m' i = Some q" "turn q"
  shows "steps_left (m_sched m') q + of_bool (q \<noteq> p) \<le> steps_left (m_sched m) p"
  using assms(1)
proof (cases rule: mstep.cases)
  case (go j r polled r' s')
  have j: "j < length (m_points m)" "m_points m ! j = r" using go(3) by (auto simp: at_point_def)
  have s': "m_sched m' = s'" using go(2) by (simp add: moved_def)
  have i: "i < length (m_points m)" "m_points m ! i = p" using assms(3) by (auto simp: point_of_def split: if_splits)
  show ?thesis
  proof (cases "j = i")
    case True
    then have "q = r'" "r = p" using assms(5) moved_points [OF j(1), of r' s' j] go(2) i j by auto
    then show ?thesis using tstep_turn [OF go(4)] assms(4,6) s' by auto
  next
    case False
    then have q: "q = p" using assms(3,5) moved_points [OF j(1), of r' s' i] go(2) i(1) by auto
    have "handler_of s' t = handler_of (m_sched m) t" if t: "t \<in> set (hand p)" for t
    proof (rule tstep_handler [OF go(4)])
      have other: "t \<notin> set (hand r)" using go_facts(8) [OF assms(2) go(3,4), of i t] False i t by auto
      show "t \<notin> set (born r (m_sched m))"
        using born_cases [of r "m_sched m"] go_facts(2,7) [OF assms(2) go(3,4)] hand_in_places [OF i(1)] i(2) t by fastforce
      show "t \<notin> set (deleted r)" using other deleted_in_hand by blast
      show "r \<noteq> AtSuspend t c as" for c as
        using other nth_point_ok [OF assms(2) j(1)] j(2) by auto
    qed
    then show ?thesis using steps_left_mono [OF tstep_slack [OF go(4)] _ assms(4)] q s' by simp
  qed
next
  case (die j r polled x)
  then have "q = p" using assms(3,5) by (simp add: point_of_def split: if_splits)
  then show ?thesis using die(2) by simp
next
  case (arm j k h timer b u s')
  have q: "q = p" using assms(3,5) arm(2) by (simp add: point_of_def split: if_splits)
  have sl: "slack s' \<le> slack (m_sched m)" and hd: "u' \<noteq> nextTask (m_sched m) \<Longrightarrow> handler_of s' u' = handler_of (m_sched m) u'" for u'
    using arm(4) by (cases h; auto simp: scheduleTimed_def new_task_def Let_def Holder_def hold_def
        addCancellationHandler_def with_task_def slack_def handler_of_def)+
  have "t \<noteq> nextTask (m_sched m)" if "t \<in> set (hand p)" for t
    using that hand_in_places [of i m t] assms(2,3)
    by (auto simp: threads_inv_def single_place_def point_of_def split: if_splits)
  then show ?thesis using steps_left_mono [OF sl _ assms(4)] hd q arm(2) by simp
next
  case (fire j u)
  have "m_points m ! j = AtLoop" using fire(3) by (auto simp: at_point_def)
  then have "q = p" using assms(3-6) fire(2) by (cases "j = i") (auto simp: point_of_def split: if_splits)
  then show ?thesis using fire(2) by simp
qed

lemma turn_moves_bound:
  assumes "turn_moves i m n m'" "threads_inv m" "point_of m i = Some p" "turn p"
  shows "\<exists>q. point_of m' i = Some q \<and> turn q \<and> n + steps_left (m_sched m') q \<le> steps_left (m_sched m) p"
  using assms
proof (induction rule: turn_moves.induct)
  case start
  then show ?case by simp
next
  case (step n m' e m'' q)
  then obtain r where r: "point_of m' i = Some r" "turn r" "n + steps_left (m_sched m') r \<le> steps_left (m_sched m) p" by blast
  have "steps_left (m_sched m'') q + of_bool (q \<noteq> r) \<le> steps_left (m_sched m') r"
    using turn_step [OF step(2) turn_moves_inv [OF step(1)] r(1,2) step(3,4)] step.prems by simp
  then show ?case using r step(3,4) by (intro exI [of _ q]) (simp split: if_splits)
qed



end
