(* ===== verification/ThreadsCount.thy ===== *)
theory ThreadsCount
  imports ThreadsInv
begin

text \<open>
  The counters of the threads of \<open>Threads.thy\<close> behave as in \<open>SchedulerConc.thy\<close>, which keeps nothing
  but the counters: every step of a thread is a step there or changes nothing there. So what is
  shown there of \<open>remaining\<close> holds of the scheduler with its tasks.
\<close>

section \<open>The abstraction\<close>

primrec inside :: "caller \<Rightarrow> pc" where
  "inside (QueueTask t) = Running"
| "inside (InitTask t ts) = Outside"
| "inside IoHandler = Outside"
| "inside Entry = Outside"

fun c_point :: "point \<Rightarrow> pc" where
  "c_point (AtActivate t) = Popped"
| "c_point (AtUncount t) = Activated"
| "c_point (AtCurrent t) = Running"
| "c_point (AtTestInactive t) = Running"
| "c_point (AtCreate c) = inside c"
| "c_point (AtCreated c) = inside c"
| "c_point (AtTestCreated t) = Running"
| "c_point (AtTestPending t) = Running"
| "c_point (AtEnter c) = inside c"
| "c_point (AtActive c starts) = inside c"
| "c_point (AtCoroutine c) = inside c"
| "c_point (AtCoActive c) = inside c"
| "c_point (AtBody c as) = inside c"
| "c_point (AtCount u c as) = inside c"
| "c_point (AtPush u c as) = (if inside c = Running then RunningCounted else OutsideCounted)"
| "c_point (AtBalance c as) = inside c"
| "c_point (AtAddThread c as) = inside c"
| "c_point (AtAbortHandlers u c as) = inside c"
| "c_point (AtAwaitHandlers u c as) = inside c"
| "c_point (AtSuspend u c as) = inside c"
| "c_point (AtFinish c) = inside c"
| "c_point (AtTestPush t) = Running"
| "c_point (AtRepush t) = Running"
| "c_point AtRecount = Repushed"
| "c_point (AtExit c) = inside c"
| "c_point (AtDelete t) = Running"
| "c_point AtLeave = Leaving"
| "c_point p = Outside"

text \<open>Threads that do not exist yet stand outside.\<close>

definition counters :: "nat \<Rightarrow> machine \<Rightarrow> conc" where
  "counters n m =
     \<lparr>c_queue = length (myTaskQueue (m_sched m)), c_taskCount = myTaskCount (m_sched m),
      c_activeCount = myActiveTaskCount (m_sched m),
      c_threads = map c_point (m_points m) @ replicate (n - length (m_points m)) Outside\<rparr>"

lemma inside_cases: "inside c = Running \<or> inside c = Outside"
  by (cases c) simp_all

lemma c_point_after [simp]: "c_point (after_create c) = inside c" "c_point (after_enter ts c) = inside c"
  by (cases c; simp)+

text \<open>The table of moves: a point of the counters, the next one, and what happens to the three numbers.\<close>

definition table :: "pc \<Rightarrow> pc \<Rightarrow> nat \<Rightarrow> nat \<Rightarrow> usize \<Rightarrow> usize \<Rightarrow> usize \<Rightarrow> usize \<Rightarrow> bool" where
  "table x y q q' t t' a a' \<longleftrightarrow>
     (x, y) = (Outside, OutsideCounted) \<and> q' = q \<and> t' = t + 1 \<and> a' = a \<or>
     (x, y) = (OutsideCounted, Outside) \<and> q' = q + 1 \<and> t' = t \<and> a' = a \<or>
     (x, y) = (Outside, Popped) \<and> q > 0 \<and> q' = q - 1 \<and> t' = t \<and> a' = a \<or>
     (x, y) = (Popped, Activated) \<and> q' = q \<and> t' = t \<and> a' = a + 1 \<or>
     (x, y) = (Activated, Running) \<and> q' = q \<and> t' = t - 1 \<and> a' = a \<or>
     (x, y) = (Running, RunningCounted) \<and> q' = q \<and> t' = t + 1 \<and> a' = a \<or>
     (x, y) = (RunningCounted, Running) \<and> q' = q + 1 \<and> t' = t \<and> a' = a \<or>
     (x, y) = (Running, Repushed) \<and> q' = q + 1 \<and> t' = t \<and> a' = a \<or>
     (x, y) = (Repushed, Leaving) \<and> q' = q \<and> t' = t + 1 \<and> a' = a \<or>
     (x, y) = (Running, Leaving) \<and> q' = q \<and> t' = t \<and> a' = a \<or>
     (x, y) = (Leaving, Outside) \<and> q' = q \<and> t' = t \<and> a' = a - 1"

lemma table_step:
  assumes "at_pc c i x" "table x y (c_queue c) q' (c_taskCount c) t' (c_activeCount c) a'"
  shows "cstep c (goto i y (c\<lparr>c_queue := q', c_taskCount := t', c_activeCount := a'\<rparr>))"
proof (cases c)
  case (fields q t a ths)
  note intros = cstep.intros [of c i, unfolded fields, simplified]
  show ?thesis
    using assms(2,1) unfolding table_def fields
    by (elim disjE conjE) (use intros in simp_all)
qed

lemma table_rows [simp]:
  "table Outside OutsideCounted q q' t t' a a' \<longleftrightarrow> q' = q \<and> t' = t + 1 \<and> a' = a"
  "table OutsideCounted Outside q q' t t' a a' \<longleftrightarrow> q' = q + 1 \<and> t' = t \<and> a' = a"
  "table Outside Popped q q' t t' a a' \<longleftrightarrow> q > 0 \<and> q' = q - 1 \<and> t' = t \<and> a' = a"
  "table Popped Activated q q' t t' a a' \<longleftrightarrow> q' = q \<and> t' = t \<and> a' = a + 1"
  "table Activated Running q q' t t' a a' \<longleftrightarrow> q' = q \<and> t' = t - 1 \<and> a' = a"
  "table Running RunningCounted q q' t t' a a' \<longleftrightarrow> q' = q \<and> t' = t + 1 \<and> a' = a"
  "table RunningCounted Running q q' t t' a a' \<longleftrightarrow> q' = q + 1 \<and> t' = t \<and> a' = a"
  "table Running Repushed q q' t t' a a' \<longleftrightarrow> q' = q + 1 \<and> t' = t \<and> a' = a"
  "table Repushed Leaving q q' t t' a a' \<longleftrightarrow> q' = q \<and> t' = t + 1 \<and> a' = a"
  "table Running Leaving q q' t t' a a' \<longleftrightarrow> q' = q \<and> t' = t \<and> a' = a"
  "table Leaving Outside q q' t t' a a' \<longleftrightarrow> q' = q \<and> t' = t \<and> a' = a - 1"
  by (simp_all add: table_def)

section \<open>The simulation\<close>

lemma body_counts:
  assumes "body_step th c as s = Inr (p', s')"
  shows "myTaskCount s' = myTaskCount s \<and> myActiveTaskCount s' = myActiveTaskCount s \<and> myTaskQueue s' = myTaskQueue s \<and>
    c_point p' = inside c"
  using assms by (elim body_step_cases) auto

lemma tstep_counts:
  assumes "tstep polled th p s = Inr (p', s')"
  shows "c_point p' = c_point p \<and> length (myTaskQueue s') = length (myTaskQueue s) \<and> myTaskCount s' = myTaskCount s \<and>
      myActiveTaskCount s' = myActiveTaskCount s \<or>
    table (c_point p) (c_point p') (length (myTaskQueue s)) (length (myTaskQueue s')) (myTaskCount s) (myTaskCount s')
      (myActiveTaskCount s) (myActiveTaskCount s')"
proof (cases p)
  case (AtInit ts)
  then show ?thesis using assms by (cases ts) (auto simp: step_simps split: option.splits if_splits)
next
  case (AtBody c as)
  then show ?thesis using assms body_counts by simp
next
  case (AtCount u c as)
  then show ?thesis using assms inside_cases [of c] by auto
next
  case (AtPush u c as)
  then show ?thesis using assms inside_cases [of c] by auto
next
  case (AtAwaitHandlers u c as)
  then show ?thesis using assms by (auto simp: rbind_eq_Inr dest!: await_handlers_result)
next
  case (AtDelete t)
  then show ?thesis using assms by (auto simp: rbind_eq_Inr delete_task_result)
next
  case (AtExit c)
  then show ?thesis using assms by (cases c) (auto simp: step_simps split: option.splits)
qed (use assms in \<open>auto simp: step_simps addThread_def
    split: option.splits list.splits if_splits kind.splits caller.splits\<close>)

lemma counters_moved:
  assumes "at_point m i p" "tstep polled i p (m_sched m) = Inr (p', s')" "length (m_points (moved i p' s' m)) \<le> n"
  shows "counters n (moved i p' s' m) = goto i (c_point p') ((counters n m)\<lparr>c_queue := length (myTaskQueue s'),
    c_taskCount := myTaskCount s', c_activeCount := myActiveTaskCount s'\<rparr>)" "at_pc (counters n m) i (c_point p)"
proof -
  let ?k = "myThreadGroup s' - myThreadGroup (m_sched m)" and ?l = "length (m_points m)"
  have i: "i < ?l" "m_points m ! i = p" using assms(1) by (auto simp: at_point_def)
  have "?l + ?k \<le> n" using assms(3) by (simp add: moved_def)
  then have "n - ?l = ?k + (n - (?l + ?k))" by linarith
  then have "replicate (n - ?l) Outside = replicate ?k Outside @ replicate (n - (?l + ?k)) Outside"
    by (metis replicate_add)
  then show "counters n (moved i p' s' m) = goto i (c_point p') ((counters n m)\<lparr>c_queue := length (myTaskQueue s'),
      c_taskCount := myTaskCount s', c_activeCount := myActiveTaskCount s'\<rparr>)"
    using i by (simp add: counters_def moved_def goto_def map_update list_update_append)
  show "at_pc (counters n m) i (c_point p)"
    using i by (simp add: at_pc_def counters_def nth_append)
qed

lemma goto_same: "at_pc c i x \<Longrightarrow> goto i x c = c"
  by (auto simp: goto_def at_pc_def)

lemma counters_step:
  assumes "mstep m e m'" "length (m_points m') \<le> n"
  shows "counters n m' = counters n m \<or> cstep (counters n m) (counters n m')"
  using assms
proof (cases rule: mstep.cases)
  case (go i p polled p' s')
  have len: "length (m_points (moved i p' s' m)) \<le> n" using assms(2) go(2) by simp
  note cm = counters_moved [OF go(3,4) len]
  from tstep_counts [OF go(4)] show ?thesis
  proof
    assume same: "c_point p' = c_point p \<and> length (myTaskQueue s') = length (myTaskQueue (m_sched m)) \<and>
      myTaskCount s' = myTaskCount (m_sched m) \<and> myActiveTaskCount s' = myActiveTaskCount (m_sched m)"
    have "(counters n m)\<lparr>c_queue := length (myTaskQueue (m_sched m)), c_taskCount := myTaskCount (m_sched m),
        c_activeCount := myActiveTaskCount (m_sched m)\<rparr> = counters n m"
      by (simp add: counters_def)
    then have "counters n m' = counters n m"
      using cm(1) same goto_same [OF cm(2)] go(2) by simp
    then show ?thesis ..
  next
    assume "table (c_point p) (c_point p') (length (myTaskQueue (m_sched m))) (length (myTaskQueue s'))
      (myTaskCount (m_sched m)) (myTaskCount s') (myActiveTaskCount (m_sched m)) (myActiveTaskCount s')"
    then have "cstep (counters n m) (counters n m')"
      unfolding go(2) cm(1) by (intro table_step [OF cm(2)]) (simp add: counters_def)
    then show ?thesis ..
  qed
next
  case (die i p polled x)
  then show ?thesis by (simp add: counters_def)
next
  case (arm i k h timer b u s')
  have "myTaskCount s' = myTaskCount (m_sched m) \<and> myActiveTaskCount s' = myActiveTaskCount (m_sched m) \<and>
      myTaskQueue s' = myTaskQueue (m_sched m)"
    using arm(4) by (cases h)
      (auto simp: scheduleTimed_def new_task_def Let_def Holder_def hold_def addCancellationHandler_def with_task_def)
  then show ?thesis using arm(2) by (simp add: counters_def)
next
  case (fire i u)
  have "i < length (m_points m)" "m_points m ! i = AtLoop" using fire(3) by (auto simp: at_point_def)
  then have "map c_point ((m_points m)[i := AtCount u IoHandler []]) = map c_point (m_points m)"
    by (simp add: map_update) (metis c_point.simps list_update_id nth_map inside.simps(3))
  then show ?thesis using fire(2) by (simp add: counters_def)
qed

lemma mstep_grows: "mstep m e m' \<Longrightarrow> length (m_points m) \<le> length (m_points m')"
  by (induction rule: mstep.induct) (auto simp: moved_def)

lemma counters_run:
  "mrun (boot k inits as) es m \<Longrightarrow> length (m_points m) \<le> n \<Longrightarrow> creach n (counters n m)"
proof (induction rule: mrun.induct)
  case refl
  then have "n = Suc (n - 1)" by (simp add: boot_def)
  then have "counters n (boot k inits as) = conc_init n"
    using boot_sched(4,6,7) [of k inits as]
    by (simp add: counters_def conc_init_def boot_def flip: replicate_Suc)
  then show ?case using creach.init by simp
next
  case (step es m' e m'')
  then have "creach n (counters n m')" using mstep_grows by fastforce
  then show ?case using counters_step [OF step(2) step.prems] creach.step by metis
qed

section \<open>What remaining() says\<close>

text \<open>The tasks a thread has taken out of the queue and neither finished nor put back.\<close>

definition unfinished :: "machine \<Rightarrow> nat" where
  "unfinished m = (\<Sum>p\<leftarrow>m_points m. in_hand (c_point p))"

lemma unfinished_counters: "length (m_points m) \<le> n \<Longrightarrow> tasks_in_hand (counters n m) = unfinished m"
  by (simp add: tasks_in_hand_def counters_def unfinished_def comp_def sum_list_replicate)

lemma runs_unfinished:
  assumes "i < length (m_points m)" "runs (m_points m ! i) = Some t"
  shows "unfinished m > 0"
proof -
  have "in_hand (c_point p) \<noteq> 0" if "runs p = Some t" for p
    using that by (induction p rule: runs.induct) auto
  then have "in_hand (c_point (m_points m ! i)) \<noteq> 0" using assms(2) by blast
  moreover have "in_hand (c_point (m_points m ! i)) \<in> set (map (\<lambda>p. in_hand (c_point p)) (m_points m))"
    using assms(1) by simp
  ultimately show ?thesis unfolding unfinished_def by (metis gr_zeroI sum_list_eq_0_iff)
qed


lemma task_being_run: "\<exists>es m. mrun (boot 1 [] [SpawnTask [Host 7]]) es m \<and> m_points m = [AtFinish (QueueTask 0), AtInit []] \<and>
    myTaskQueue (m_sched m) = [] \<and> Scheduler.remaining (m_sched m) = 1"
proof -
  have "map_option (\<lambda>(es, m). (m_points m, myTaskQueue (m_sched m), Scheduler.remaining (m_sched m)))
      (execute (replicate 22 (0, None)) (boot 1 [] [SpawnTask [Host 7]])) =
      Some ([AtFinish (QueueTask 0), AtInit []], [], 1)"
    by code_simp
  then show ?thesis using execute_mrun by (fastforce split: prod.splits)
qed


end
