(* ===== verification/ThreadsSeq.thy ===== *)
theory ThreadsSeq
  imports ThreadsInv
begin

text \<open>
  The operations of \<open>Scheduler.thy\<close> are executions of the threads of \<open>Threads.thy\<close>: those in which one
  thread makes all its steps without another in between.
\<close>

section \<open>One thread alone\<close>

inductive solo :: "nat \<Rightarrow> point \<Rightarrow> sched \<Rightarrow> event list \<Rightarrow> point \<Rightarrow> sched \<Rightarrow> bool" for th where
  stop: "solo th p s [] p s"
| move: "tstep None th p s = Inr (p', s') \<Longrightarrow> solo th p' s' es p'' s'' \<Longrightarrow> solo th p s (events p p' s @ es) p'' s''"

lemma solo_trans: "solo th p s es p' s' \<Longrightarrow> solo th p' s' es' p'' s'' \<Longrightarrow> solo th p s (es @ es') p'' s''"
  by (induction rule: solo.induct) (auto intro: solo.move)

lemma solo_one: "tstep None th p s = Inr (p', s') \<Longrightarrow> solo th p s (events p p' s) p' s'"
  using solo.move [OF _ solo.stop] by fastforce

text \<open>Executions that take nothing out of the queue.\<close>

definition quiet :: "nat \<Rightarrow> point \<Rightarrow> sched \<Rightarrow> point \<Rightarrow> sched \<Rightarrow> bool" where
  "quiet th p s p' s' \<longleftrightarrow> (\<exists>es. solo th p s es p' s' \<and> (\<forall>t. Take t \<notin> set es))"

lemma quiet_refl [simp]: "quiet th p s p s"
  using solo.stop unfolding quiet_def by fastforce

lemma quiet_trans: "quiet th p s p' s' \<Longrightarrow> quiet th p' s' p'' s'' \<Longrightarrow> quiet th p s p'' s''"
proof -
  assume "quiet th p s p' s'" "quiet th p' s' p'' s''"
  then obtain es fs where e: "solo th p s es p' s'" "solo th p' s' fs p'' s''"
    "\<forall>t. Take t \<notin> set es" "\<forall>t. Take t \<notin> set fs" unfolding quiet_def by blast
  have "solo th p s (es @ fs) p'' s''" by (rule solo_trans [OF e(1,2)])
  moreover have "\<forall>t. Take t \<notin> set (es @ fs)" using e(3,4) by simp
  ultimately show "quiet th p s p'' s''" unfolding quiet_def by blast
qed

lemma events_no_take: "p \<noteq> AtPop \<Longrightarrow> Take t \<notin> set (events p p' s)"
proof -
  have "Take t \<notin> set (called c s)" for c by (cases c) (auto split: option.split kind.split)
  then show ?thesis if "p \<noteq> AtPop" using that
    by (cases "(p, p', s)" rule: events.cases) (auto split: point.split)
qed

lemma quiet_step: "tstep None th p s = Inr (p', s') \<Longrightarrow> p \<noteq> AtPop \<Longrightarrow> quiet th p' s' q r \<Longrightarrow> quiet th p s q r"
  using solo_one events_no_take quiet_trans unfolding quiet_def by metis

text \<open>In the machine the other threads wait meanwhile.\<close>

lemma solo_mrun:
  assumes "solo i p s es p' s'" "at_point m i p" "m_sched m = s"
  shows "\<exists>m'. mrun m es m' \<and> m_sched m' = s' \<and> at_point m' i p' \<and> m_timers m' = m_timers m \<and>
    (\<forall>j < length (m_points m). j \<noteq> i \<longrightarrow> m_points m' ! j = m_points m ! j)"
  using assms
proof (induction arbitrary: m rule: solo.induct)
  case (stop p s)
  then show ?case using mrun.refl by blast
next
  case (move p s p' s' es p'' s'')
  let ?m1 = "moved i p' s' m"
  have i: "i < length (m_points m)" using move.prems by (simp add: at_point_def)
  have "at_point ?m1 i p'" "m_sched ?m1 = s'"
    using move.prems i by (simp_all add: at_point_def moved_def nth_append)
  from move.IH [OF this] obtain m' where m': "mrun ?m1 es m'" "m_sched m' = s''" "at_point m' i p''" "m_timers m' = m_timers ?m1"
    "\<forall>j < length (m_points ?m1). j \<noteq> i \<longrightarrow> m_points m' ! j = m_points ?m1 ! j" by blast
  have "mstep m (events p p' s) ?m1" using mstep.go [of m i p None p' s'] move.prems move.hyps(1) by simp
  then have "mrun m (events p p' s @ es) m'" using mrun_trans [OF m'(1)] mrun_one by blast
  moreover have "\<forall>j < length (m_points m). j \<noteq> i \<longrightarrow> m_points m' ! j = m_points m ! j"
    using m'(5) by (auto simp: moved_def nth_append)
  moreover have "m_timers m' = m_timers m" using m'(4) by (simp add: moved_def)
  ultimately show ?case using m'(2,3) by blast
qed

section \<open>The closures\<close>

lemma balance_quiet: "quiet th (AtBalance c as) s (AtBody c as) (balanceThreads s)"
proof (induction s rule: balanceThreads.induct)
  case (1 s)
  show ?case
  proof (cases "myTaskCount s > 0 \<and> myThreadGroup s < unat (myMaxThreads s)")
    case True
    have "quiet th (AtAddThread c as) s (AtBody c as) (balanceThreads (addThread s))"
      by (rule quiet_step [OF _ _ "1.IH" [OF True]]) simp_all
    then show ?thesis using True by (intro quiet_step [of th "AtBalance c as" s]) (simp_all add: balanceThreads.simps [of s])
  next
    case False
    then have "balanceThreads s = s" by (subst balanceThreads.simps) auto
    then show ?thesis using False by (intro quiet_step [of th "AtBalance c as" s]) auto
  qed
qed

lemma schedule_quiet: "quiet th (AtCount u c as) s (AtBody c as) (snd (scheduleAbstractTask u s))"
proof -
  let ?s1 = "s\<lparr>myTaskCount := myTaskCount s + 1\<rparr>"
  have "quiet th (AtPush u c as) ?s1 (AtBody c as) (snd (scheduleAbstractTask u s))"
    using balance_quiet by (intro quiet_step [of th "AtPush u c as"]) (auto simp: scheduleAbstractTask_def Let_def)
  then show ?thesis by (intro quiet_step [of th "AtCount u c as" s]) auto
qed

lemma scheduled:
  "scheduleTask (Some b) s = Inr (u, s1) \<Longrightarrow> s1 = snd (scheduleAbstractTask (nextTask s) (snd (new_task TaskK True b s)))"
  "scheduleCoroutine (Some b) s = Inr (u, s1) \<Longrightarrow>
     s1 = snd (scheduleAbstractTask (nextTask s) (snd (new_task CoroutineK False b s)))"
proof -
  show "s1 = snd (scheduleAbstractTask (nextTask s) (snd (new_task TaskK True b s)))" if "scheduleTask (Some b) s = Inr (u, s1)"
    using that new_task_same(10) [of TaskK True b s]
    by (cases "new_task TaskK True b s") (simp add: scheduleTask_def)
  show "s1 = snd (scheduleAbstractTask (nextTask s) (snd (new_task CoroutineK False b s)))"
    if "scheduleCoroutine (Some b) s = Inr (u, s1)"
    using that new_task_same(10) [of CoroutineK False b s]
    by (cases "new_task CoroutineK False b s") (simp add: scheduleCoroutine_def)
qed

lemma spawn_quiet:
  "scheduleTask (Some b) s = Inr (u, s1) \<Longrightarrow> quiet th (AtBody c (SpawnTask b # as)) s (AtBody c as) s1"
  "scheduleCoroutine (Some b) s = Inr (u, s1) \<Longrightarrow> quiet th (AtBody c (SpawnCoroutine b # as)) s (AtBody c as) s1"
proof -
  have step: "quiet th (AtBody c (a # as)) s (AtBody c as) (snd (scheduleAbstractTask (nextTask s) (snd (new_task k h b s))))"
    if "body_step th c (a # as) s = Inr (AtCount (nextTask s) c as, snd (new_task k h b s))" for a k h
    by (rule quiet_step [OF _ _ schedule_quiet]) (use that in simp_all)
  show "quiet th (AtBody c (SpawnTask b # as)) s (AtBody c as) s1" if "scheduleTask (Some b) s = Inr (u, s1)"
    using step [of "SpawnTask b" TaskK True] scheduled(1) [OF that] by (simp add: split_def Let_def)
  show "quiet th (AtBody c (SpawnCoroutine b # as)) s (AtBody c as) s1" if "scheduleCoroutine (Some b) s = Inr (u, s1)"
    using step [of "SpawnCoroutine b" CoroutineK False] scheduled(2) [OF that] by (simp add: split_def Let_def)
qed

text \<open>What a closure keeps while it runs.\<close>

definition keeps :: "nat \<Rightarrow> nat \<Rightarrow> sched \<Rightarrow> sched \<Rightarrow> bool" where
  "keeps th t s s' \<longleftrightarrow> myCurrentTask s' th = myCurrentTask s th \<and> myThreadInitQueue s' = myThreadInitQueue s \<and>
     (heap s t \<noteq> None \<longrightarrow> heap s' t \<noteq> None)"

lemma schedule_keeps:
  "scheduleTask (Some b) s = Inr (u, s1) \<Longrightarrow> keeps th t s s1"
  "scheduleCoroutine (Some b) s = Inr (u, s1) \<Longrightarrow> keeps th t s s1"
  by (auto simp: scheduleTask_def scheduleCoroutine_def scheduleAbstractTask_def Let_def new_task_def Holder_def hold_def keeps_def
      split: if_splits)

lemma keeps_refl [simp]: "keeps th t s s"
  by (simp add: keeps_def)

lemma keeps_trans: "keeps th t s s1 \<Longrightarrow> keeps th t s1 s2 \<Longrightarrow> keeps th t s s2"
  by (simp add: keeps_def)

text \<open>How a run of a closure ends: it returned, or the coroutine gave control back with the rest of its actions.\<close>

fun body_end :: "nat \<Rightarrow> nat \<Rightarrow> caller \<Rightarrow> act list \<Rightarrow> sched \<Rightarrow> sched \<Rightarrow> act list option \<Rightarrow> bool" where
  "body_end th t c as s s' None = quiet th (AtBody c as) s (AtBody c []) s'"
| "body_end th t c as s s' (Some bs) =
     quiet th (AtBody c as) s (after_enter (myThreadInitQueue s') c) (set_handler t bs s')"

lemma body_end_step:
  "quiet th (AtBody c as) s (AtBody c bs) s1 \<Longrightarrow> body_end th t c bs s1 s' r \<Longrightarrow> body_end th t c as s s' r"
  by (cases r) (auto intro: quiet_trans)

lemma body_move:
  assumes "body_step th c as s = Inr (AtBody c bs, s1)" "body_end th t c bs s1 s' r"
  shows "body_end th t c as s s' r"
  by (rule body_end_step [OF quiet_step [OF _ _ quiet_refl] assms(2)]) (use assms(1) in simp_all)

lemma yield_end:
  assumes "yield th s = Inr s1" "myCurrentTask s th = Some t"
    "\<And>x. yield th s = Inr x \<Longrightarrow> body_step th c as s = Inr (AtSuspend t c bs, s)"
  shows "keeps th t s s1 \<and> body_end th t c as s s1 (Some bs)"
proof -
  have s1: "s1 = store t PENDING s"
    using assms(1,2)
    by (auto simp: yield_def canYield_def task_yield_def with_task_def split: option.splits if_splits kind.splits)
  have "quiet th (AtSuspend t c bs) s (after_enter (myThreadInitQueue s) c) (set_handler t bs s1)"
    by (rule quiet_step [OF _ _ quiet_refl]) (simp_all add: s1)
  then have "quiet th (AtBody c as) s (after_enter (myThreadInitQueue s) c) (set_handler t bs s1)"
    by (rule quiet_step [rotated 2]) (use assms(1,3) in simp_all)
  then show ?thesis by (simp add: s1 keeps_def)
qed

lemma run_acts_quiet:
  assumes "run_acts th as s = Inr (s', r)" "myCurrentTask s th = Some t"
  shows "keeps th t s s' \<and> body_end th t c as s s' r"
  using assms
proof (induction th as s arbitrary: s' r rule: run_acts.induct)
  case (1 th s)
  then show ?case by auto
next
  case (2 th n as s)
  let ?s1 = "s\<lparr>trace := trace s @ [n]\<rparr>"
  have IH: "keeps th t ?s1 s' \<and> body_end th t c as ?s1 s' r" using 2 by simp
  then have "body_end th t c (Host n # as) s s' r" by (intro body_move [of th c _ s as ?s1]) simp_all
  then show ?case using IH by (simp add: keeps_def)
next
  case (3 th b as s)
  then obtain u s1 where u: "scheduleTask (Some b) s = Inr (u, s1)" "run_acts th as s1 = Inr (s', r)"
    by (auto split: sum.splits)
  have k: "keeps th t s s1" by (rule schedule_keeps(1) [OF u(1)])
  then have "keeps th t s1 s' \<and> body_end th t c as s1 s' r" using 3(1) [OF u(1) HOL.refl u(2)] 3(3) by (simp add: keeps_def)
  then show ?case using body_end_step [OF spawn_quiet(1) [OF u(1)]] keeps_trans [OF k] by blast
next
  case (4 th b as s)
  then obtain u s1 where u: "scheduleCoroutine (Some b) s = Inr (u, s1)" "run_acts th as s1 = Inr (s', r)"
    by (auto split: sum.splits)
  have k: "keeps th t s s1" by (rule schedule_keeps(2) [OF u(1)])
  then have "keeps th t s1 s' \<and> body_end th t c as s1 s' r" using 4(1) [OF u(1) HOL.refl u(2)] 4(3) by (simp add: keeps_def)
  then show ?case using body_end_step [OF spawn_quiet(2) [OF u(1)]] keeps_trans [OF k] by blast
next
  case (5 th u as s)
  then obtain s1 where s1: "task_abort u s = Inr s1" "run_acts th as s1 = Inr (s', r)" by (auto split: sum.splits)
  then obtain k where k: "heap s u = Some k" "s1 = run_handlers (myCancellationHandlers k) (store u ABORTED s)"
    by (auto simp: task_abort_def with_task_Inr)
  have keep: "keeps th t s s1" using k by (simp add: keeps_def)
  then have IH: "keeps th t s1 s' \<and> body_end th t c as s1 s' r" using 5(1) [OF s1] 5(3) by (simp add: keeps_def)
  have "quiet th (AtAbortHandlers u c as) (store u ABORTED s) (AtBody c as) s1"
    by (rule quiet_step [OF _ _ quiet_refl]) (use k in \<open>simp_all add: with_task_def\<close>)
  then have "quiet th (AtBody c (AbortTask u # as)) s (AtBody c as) s1"
    by (rule quiet_step [rotated 2]) (use k(1) in \<open>simp_all add: with_task_def\<close>)
  then show ?case using body_end_step IH keeps_trans [OF keep] by blast
next
  case (6 th as s)
  then obtain s1 where "yield th s = Inr s1" "s' = s1" "r = Some as" by (auto split: sum.splits)
  then show ?case using yield_end [of th s s1 t c "Yield # as" as] 6(2) by simp
next
  case (7 th m as s)
  then show ?case by simp
next
  case (8 th as s)
  then have IH: "keeps th t (Scheduler.pause s) s' \<and> body_end th t c as (Scheduler.pause s) s' r"
    by (simp add: Scheduler.pause_def)
  then have "body_end th t c (Pause # as) s s' r" by (intro body_move [of th c _ s as "Scheduler.pause s"]) simp_all
  then show ?case using IH by (simp add: keeps_def Scheduler.pause_def)
next
  case (9 th as s)
  then have IH: "keeps th t (Scheduler.resume s) s' \<and> body_end th t c as (Scheduler.resume s) s' r"
    by (simp add: Scheduler.resume_def)
  then have "body_end th t c (Resume # as) s s' r" by (intro body_move [of th c _ s as "Scheduler.resume s"]) simp_all
  then show ?case using IH by (simp add: keeps_def Scheduler.resume_def)
next
  case (10 th u as s)
  show ?case
  proof (cases "task_await u s")
    case (Inl e)
    then show ?thesis using 10(2) by simp
  next
    case (Inr x)
    then obtain k where k: "heap s u = Some k" by (auto simp: task_await_def with_task_Inr)
    show ?thesis
    proof (cases "myStatus k = FINISHED \<or> myStatus k = ABORTED")
      case True
      then have aw: "task_await u s = Inr (None, s)" using k by (simp add: task_await_def with_task_def)
      then have "keeps th t s s' \<and> body_end th t c as s s' r" using 10 by simp
      moreover have "body_step th c (Await u # as) s = Inr (AtBody c as, s)" using True k by (simp add: with_task_def)
      ultimately show ?thesis using body_move by blast
    next
      case False
      then have aw: "task_await u s = rbind (await_handlers u s) (\<lambda>(f, s1). Inr (Some f, s1))"
        using k by (simp add: task_await_def with_task_def await_handlers_def Let_def rbind_def split: sum.splits)
      then obtain f s1 where h: "await_handlers u s = Inr (f, s1)"
        using Inr by (cases "await_handlers u s") auto
      have "keeps th t s s1" using await_handlers_result [OF h] by (auto simp: keeps_def)
      then have cur: "myCurrentTask s1 th = Some t" and keep: "keeps th t s s1" using 10(3) by (auto simp: keeps_def)
      have nf: "\<not> flags s1 f" using await_handlers_result [OF h] by auto
      obtain s2 where s2: "yield th s1 = Inr s2" "s' = s2" "r = Some (WaitFlag f # as)"
        using 10(2) aw h by (auto split: sum.splits)
      have e: "keeps th t s1 s2 \<and> body_end th t c (WaitFlag f # as) s1 s2 (Some (WaitFlag f # as))"
        using yield_end [of th s1 s2 t c "WaitFlag f # as" "WaitFlag f # as"] s2(1) cur nf by simp
      have "quiet th (AtAwaitHandlers u c as) s (AtBody c (WaitFlag f # as)) s1"
        by (rule quiet_step [OF _ _ quiet_refl]) (use h in simp_all)
      then have "quiet th (AtBody c (Await u # as)) s (AtBody c (WaitFlag f # as)) s1"
        by (rule quiet_step [rotated 2]) (use k False in \<open>simp_all add: with_task_def\<close>)
      then show ?thesis using body_end_step e keeps_trans [OF keep] s2(2,3) by blast
    qed
  qed
next
  case (11 th f as s)
  show ?case
  proof (cases "flags s f")
    case True
    then have "keeps th t s s' \<and> body_end th t c as s s' r" using 11 by simp
    moreover have "body_step th c (WaitFlag f # as) s = Inr (AtBody c as, s)" using True by simp
    ultimately show ?thesis using body_move by blast
  next
    case False
    then obtain s1 where "yield th s = Inr s1" "s' = s1" "r = Some (WaitFlag f # as)"
      using 11(2) by (auto split: sum.splits)
    then show ?thesis using yield_end [of th s s1 t c "WaitFlag f # as" "WaitFlag f # as"] 11(3) False by simp
  qed
qed

section \<open>create and enter\<close>

lemma create_quiet:
  assumes "task_create th t s = Inr s1" "entered c = Some t"
  shows "quiet th (AtCreate c) s (after_create c) s1"
proof -
  obtain k where k: "heap s t = Some k" using assms(1) by (auto simp: task_create_def with_task_Inr)
  show ?thesis
  proof (cases "myKind k")
    case TaskK
    then have "s1 = store t CREATED s" using assms(1) k by (simp add: task_create_def with_task_def)
    then show ?thesis
      using k TaskK assms(2) by (intro quiet_step [OF _ _ quiet_refl]) (simp_all add: on_entered_def with_task_def)
  next
    case CoroutineK
    show ?thesis
    proof (cases "myStatus k = ABORTED")
      case True
      then have "s1 = s" using assms(1) k CoroutineK by (simp add: task_create_def with_task_def)
      then show ?thesis
        using k CoroutineK True assms(2) by (intro quiet_step [OF _ _ quiet_refl]) (simp_all add: on_entered_def with_task_def)
    next
      case False
      have s1: "s1 = makeCurrent th t (s\<lparr>heap := (heap s)(t \<mapsto> k\<lparr>myStatus := CREATED, myCoroutine := True\<rparr>)\<rparr>)"
        using assms(1) k CoroutineK False by (auto simp: task_create_def with_task_def makeCurrent_def store_def)
      have "quiet th (AtCreated c) s (after_create c) s1"
        using k assms(2) s1 by (intro quiet_step [OF _ _ quiet_refl]) (simp_all add: on_entered_def with_task_def)
      then show ?thesis
        by (rule quiet_step [rotated 2]) (use k CoroutineK False assms(2) in \<open>simp_all add: on_entered_def with_task_def\<close>)
    qed
  qed
qed

lemma current_again:
  assumes "heap s t = Some k" "s1 = makeCurrent th t (store t ACTIVE s)"
  shows "store t ACTIVE (makeCurrent th t s1) = s1"
  using assms by (simp add: store_def makeCurrent_def fun_upd_idem)

text \<open>From the test of \<open>enter\<close> to the closure.\<close>

lemma enter_quiet:
  assumes k: "heap s t = Some k" and c: "entered c = Some t" and st: "myStatus k \<noteq> ABORTED"
  shows "quiet th (AtEnter c) s (AtBody c (myHandler k)) (makeCurrent th t (store t ACTIVE s))"
proof -
  let ?s1 = "makeCurrent th t (store t ACTIVE s)"
  have co: "quiet th (AtCoActive c) ?s1 (AtBody c (myHandler k)) ?s1"
    using k c current_again [OF k HOL.refl] by (intro quiet_step [OF _ _ quiet_refl]) (simp_all add: on_entered_def with_task_def)
  have coroutine: "quiet th (AtCoroutine c) ?s1 (AtBody c (myHandler k)) ?s1"
    by (rule quiet_step [OF _ _ co]) (use k c in \<open>simp_all add: on_entered_def with_task_def\<close>)
  have active: "quiet th (AtActive c b) s (AtBody c (myHandler k)) ?s1" for b
  proof (cases "myKind k")
    case TaskK
    then show ?thesis using k c by (intro quiet_step [OF _ _ quiet_refl]) (simp_all add: on_entered_def with_task_def)
  next
    case CoroutineK
    show ?thesis
    proof (cases b)
      case True
      show ?thesis
        by (rule quiet_step [OF _ _ coroutine]) (use True k c CoroutineK in \<open>simp_all add: on_entered_def with_task_def\<close>)
    next
      case False
      show ?thesis
        by (rule quiet_step [OF _ _ co]) (use False k c CoroutineK in \<open>simp_all add: on_entered_def with_task_def\<close>)
    qed
  qed
  show ?thesis
    by (rule quiet_step [OF _ _ active]) (use k c st in \<open>simp_all add: on_entered_def with_task_def\<close>)
qed

lemma task_enter_quiet:
  assumes "task_enter th t s = Inr s'" "entered c = Some t" "heap s t = Some k" "myStatus k \<noteq> ABORTED"
  shows "quiet th (AtEnter c) s (after_enter (myThreadInitQueue s') c) s' \<and> myThreadInitQueue s' = myThreadInitQueue s \<and>
    myCurrentTask s' th = Some t \<and> heap s' t \<noteq> None"
proof -
  let ?s1 = "makeCurrent th t (store t ACTIVE s)"
  obtain s2 r where r: "run_acts th (myHandler k) ?s1 = Inr (s2, r)"
    "s' = (case r of None \<Rightarrow> store t FINISHED s2 | Some as \<Rightarrow> set_handler t as s2)"
    using assms(1,3,4) by (auto simp: task_enter_def with_task_def rbind_eq_Inr split: option.splits)
  have e: "keeps th t ?s1 s2" "body_end th t c (myHandler k) ?s1 s2 r"
    using run_acts_quiet [OF r(1), of t c] by simp_all
  have live: "heap s2 t \<noteq> None" "myCurrentTask s2 th = Some t" "myThreadInitQueue s2 = myThreadInitQueue s"
    using e(1) assms(3) by (auto simp: keeps_def)
  note ent = enter_quiet [OF assms(3,2,4), of th]
  have "quiet th (AtEnter c) s (after_enter (myThreadInitQueue s') c) s'"
  proof (cases r)
    case None
    obtain k2 where k2: "heap s2 t = Some k2" using live(1) by auto
    have "quiet th (AtFinish c) s2 (after_enter (myThreadInitQueue s2) c) s'"
      using r(2) None assms(2) k2 by (intro quiet_step [OF _ _ quiet_refl]) (simp_all add: on_entered_def with_task_def)
    then have "quiet th (AtBody c []) s2 (after_enter (myThreadInitQueue s2) c) s'"
      by (rule quiet_step [rotated 2]) (use assms(2) in simp_all)
    then show ?thesis using ent e(2) None r(2) by (auto intro: quiet_trans)
  next
    case (Some as)
    then show ?thesis using ent e(2) r(2) by (auto intro: quiet_trans)
  qed
  moreover have "myThreadInitQueue s' = myThreadInitQueue s \<and> myCurrentTask s' th = Some t \<and> heap s' t \<noteq> None"
    using r(2) live by (cases r) auto
  ultimately show ?thesis by blast
qed

section \<open>The draining loop\<close>

lemma current_status_Inr:
  assumes "current_status th s = Inr st" "myCurrentTask s th = Some t"
  shows "\<exists>k. heap s t = Some k \<and> myStatus k = st"
  using assms by (auto simp: current_status_def with_task_Inr)

lemma finish_quiet:
  assumes "current_status th s = Inr st" "myCurrentTask s th = Some t"
    "(if st = PENDING then
        let s3 = release_current th (s\<lparr>myTaskQueue := myTaskQueue s @ [t]\<rparr>)
        in Inr (s3\<lparr>myTaskCount := myTaskCount s3 + 1\<rparr>)
      else rbind (task_exit t (release_current th s)) (delete_task t)) = Inr s'"
  shows "quiet th (AtTestPush t) s AtLeave s'"
proof -
  obtain k where k: "heap s t = Some k" "myStatus k = st" using current_status_Inr [OF assms(1,2)] by blast
  show ?thesis
  proof (cases "st = PENDING")
    case True
    let ?s3 = "release_current th (s\<lparr>myTaskQueue := myTaskQueue s @ [t]\<rparr>)"
    have "quiet th AtRecount ?s3 AtLeave s'"
      using assms(3) True by (intro quiet_step [OF _ _ quiet_refl]) (simp_all add: Let_def)
    then have "quiet th (AtRepush t) s AtLeave s'" by (rule quiet_step [rotated 2]) simp_all
    then show ?thesis by (rule quiet_step [rotated 2]) (use k True in \<open>simp_all add: with_task_def\<close>)
  next
    case False
    let ?s3 = "release_current th s"
    let ?s4 = "run_handlers (myCompletionHandlers k) ?s3"
    have d: "delete_task t ?s4 = Inr s'"
      using assms(3) False k(1) by (simp add: task_exit_def with_task_def)
    have "quiet th (AtDelete t) ?s4 AtLeave s'"
      using d by (intro quiet_step [OF _ _ quiet_refl]) simp_all
    then have "quiet th (AtExit (QueueTask t)) ?s3 AtLeave s'"
      by (rule quiet_step [rotated 2]) (use k(1) in \<open>simp_all add: on_entered_def with_task_def\<close>)
    then show ?thesis by (rule quiet_step [rotated 2]) (use k False in \<open>simp_all add: with_task_def\<close>)
  qed
qed

lemma create_current:
  "task_create th t s = Inr s1 \<Longrightarrow> myCurrentTask s th = Some t \<Longrightarrow> myCurrentTask s1 th = Some t"
proof -
  assume c: "task_create th t s = Inr s1" and cur: "myCurrentTask s th = Some t"
  then obtain k where "heap s t = Some k" by (auto simp: task_create_def with_task_Inr)
  then show "myCurrentTask s1 th = Some t"
    using c cur by (cases "myKind k") (auto simp: task_create_def with_task_Inr split: if_splits)
qed

lemma process_quiet:
  assumes "process_task th t s = Inr s'" "myCurrentTask s th = Some t"
  shows "quiet th (AtCurrent t) s AtLeave s'"
proof -
  obtain st where st: "current_status th s = Inr st" using assms(1) by (auto simp: process_task_def rbind_eq_Inr)
  obtain k where k: "heap s t = Some k" "myStatus k = st" using current_status_Inr [OF st assms(2)] by blast
  show ?thesis
  proof (cases "st = ABORTED")
    case True
    then show ?thesis
      using assms(1) st k by (intro quiet_step [OF _ _ quiet_refl]) (simp_all add: process_task_def with_task_def)
  next
    case False
    then obtain s1 st1 s2 st2 where
      s1: "(if st = INACTIVE then task_create th t s else Inr s) = Inr s1" and
      st1: "current_status th s1 = Inr st1" and
      s2: "(if st1 = CREATED \<or> st1 = PENDING then task_enter th t s1 else Inr s1) = Inr s2" and
      st2: "current_status th s2 = Inr st2" and
      fin: "(if st2 = PENDING then
          let s3 = release_current th (s2\<lparr>myTaskQueue := myTaskQueue s2 @ [t]\<rparr>)
          in Inr (s3\<lparr>myTaskCount := myTaskCount s3 + 1\<rparr>)
        else rbind (task_exit t (release_current th s2)) (delete_task t)) = Inr s'"
      using assms(1) st by (auto simp: process_task_def rbind_eq_Inr)
    have cur1: "myCurrentTask s1 th = Some t"
      using s1 assms(2) create_current by (auto split: if_splits)
    have created: "quiet th (AtTestInactive t) s (AtTestCreated t) s1"
    proof (cases "st = INACTIVE")
      case True
      then have "quiet th (AtCreate (QueueTask t)) s (AtTestCreated t) s1"
        using create_quiet [of th t s s1 "QueueTask t"] s1 by simp
      then show ?thesis by (rule quiet_step [rotated 2]) (use k True in \<open>simp_all add: with_task_def\<close>)
    next
      case False
      then show ?thesis using s1 k by (intro quiet_step [OF _ _ quiet_refl]) (simp_all add: with_task_def)
    qed
    obtain k1 where k1: "heap s1 t = Some k1" "myStatus k1 = st1" using current_status_Inr [OF st1 cur1] by blast
    have entered: "quiet th (AtTestCreated t) s1 (AtTestPush t) s2 \<and> myCurrentTask s2 th = Some t"
    proof (cases "st1 = CREATED \<or> st1 = PENDING")
      case True
      then have "task_enter th t s1 = Inr s2" "myStatus k1 \<noteq> ABORTED" using s2 k1 by auto
      from task_enter_quiet [OF this(1) _ k1(1) this(2), of "QueueTask t"]
      have e: "quiet th (AtEnter (QueueTask t)) s1 (AtTestPush t) s2" "myCurrentTask s2 th = Some t" by simp_all
      have "quiet th (AtTestPending t) s1 (AtTestPush t) s2" if "st1 = PENDING"
        by (rule quiet_step [OF _ _ e(1)]) (use k1 that in \<open>simp_all add: with_task_def\<close>)
      then have "quiet th (AtTestCreated t) s1 (AtTestPush t) s2"
        using True by (cases "st1 = CREATED")
          (rule quiet_step [OF _ _ e(1)], use k1 in \<open>simp_all add: with_task_def\<close>,
           rule quiet_step [of th "AtTestCreated t" s1 "AtTestPending t" s1], use k1 in \<open>simp_all add: with_task_def\<close>)
      then show ?thesis using e(2) by blast
    next
      case False
      have "quiet th (AtTestPending t) s1 (AtTestPush t) s1"
        using False k1 by (intro quiet_step [OF _ _ quiet_refl]) (simp_all add: with_task_def)
      then have "quiet th (AtTestCreated t) s1 (AtTestPush t) s1"
        by (rule quiet_step [rotated 2]) (use False k1 in \<open>simp_all add: with_task_def\<close>)
      then show ?thesis using s2 False cur1 by simp
    qed
    have "quiet th (AtTestInactive t) s AtLeave s'"
      using created entered finish_quiet [OF st2 _ fin] quiet_trans by blast
    then show ?thesis by (rule quiet_step [rotated 2]) (use k False in \<open>simp_all add: with_task_def\<close>)
  qed
qed

lemma drain_step_quiet:
  assumes "drain_step th t q s = Inr s'"
  shows "quiet th (AtActivate t) (s\<lparr>myTaskQueue := q\<rparr>) AtTestPause s'"
proof -
  let ?s1 = "s\<lparr>myTaskQueue := q\<rparr>"
  let ?s2 = "?s1\<lparr>myActiveTaskCount := myActiveTaskCount ?s1 + 1\<rparr>"
  let ?s3 = "makeCurrent th t (?s2\<lparr>myTaskCount := myTaskCount ?s2 - 1\<rparr>)"
  obtain s4 where s4: "process_task th t ?s3 = Inr s4" "s' = s4\<lparr>myActiveTaskCount := myActiveTaskCount s4 - 1\<rparr>"
    using assms by (auto simp: drain_step_def Let_def rbind_eq_Inr)
  have "quiet th AtLeave s4 AtTestPause s'"
    using s4(2) by (intro quiet_step [OF _ _ quiet_refl]) simp_all
  then have "quiet th (AtCurrent t) ?s3 AtTestPause s'"
    using process_quiet [OF s4(1)] quiet_trans by simp
  then have "quiet th (AtUncount t) ?s2 AtTestPause s'" by (rule quiet_step [rotated 2]) simp_all
  then show ?thesis by (rule quiet_step [rotated 2]) simp_all
qed

definition takes_count :: "event list \<Rightarrow> nat" where
  "takes_count es = length (filter (\<lambda>e. case e of Take t \<Rightarrow> True | _ \<Rightarrow> False) es)"

lemma takes_count_quiet: "(\<forall>t. Take t \<notin> set es) \<Longrightarrow> takes_count es = 0"
  by (induction es) (auto simp: takes_count_def split: event.split)

lemma takes_count_append: "takes_count (es @ fs) = takes_count es + takes_count fs"
  by (simp add: takes_count_def)

lemma drain_loop_solo:
  assumes "drain_loop th n s = Some (Inr (m, s'))"
  shows "\<exists>es. solo th AtPop s es AtDrained s' \<and> m = n + takes_count es"
proof -
  have "\<forall>m s'. r = Inr (m, s') \<longrightarrow> (\<exists>es. solo th AtPop s es AtDrained s' \<and> m = n + takes_count es)"
    if "drain_loop th n s = Some r" for r
  proof (rule drain_loop.raw_induct
      [where P = "\<lambda>th n s r. \<forall>m s'. r = Inr (m, s') \<longrightarrow> (\<exists>es. solo th AtPop s es AtDrained s' \<and> m = n + takes_count es)", OF _ that])
    fix f th n s r
    assume IH: "\<And>th n s r. f th n s = Some r \<Longrightarrow>
        \<forall>m s'. r = Inr (m, s') \<longrightarrow> (\<exists>es. solo th AtPop s es AtDrained s' \<and> m = n + takes_count es)"
      and eq: "(case myTaskQueue s of [] \<Rightarrow> Some (Inr (n, s)) | t # q \<Rightarrow>
          (case drain_step th t q s of Inl e \<Rightarrow> Some (Inl e)
           | Inr s1 \<Rightarrow> if myPauseTasks s1 then Some (Inr (Suc n, s1)) else f th (Suc n) s1)) = Some r"
    show "\<forall>m s'. r = Inr (m, s') \<longrightarrow> (\<exists>es. solo th AtPop s es AtDrained s' \<and> m = n + takes_count es)"
    proof (intro allI impI)
      fix m s' assume r: "r = Inr (m, s')"
      show "\<exists>es. solo th AtPop s es AtDrained s' \<and> m = n + takes_count es"
      proof (cases "myTaskQueue s")
        case Nil
        then have "s' = s" "m = n" using eq r by auto
        moreover have "solo th AtPop s [] AtDrained s" using solo_one [of th AtPop s AtDrained s] Nil by simp
        ultimately show ?thesis by (intro exI [of _ "[]"]) (simp add: takes_count_def)
      next
        case (Cons t q)
        with eq r obtain s1 where s1: "drain_step th t q s = Inr s1"
          and k: "(if myPauseTasks s1 then Some (Inr (Suc n, s1)) else f th (Suc n) s1) = Some r"
          by (auto split: sum.splits)
        obtain es where es: "solo th (AtActivate t) (s\<lparr>myTaskQueue := q\<rparr>) es AtTestPause s1" "takes_count es = 0"
          using drain_step_quiet [OF s1] takes_count_quiet unfolding quiet_def by blast
        have pop: "solo th AtPop s [Take t] (AtActivate t) (s\<lparr>myTaskQueue := q\<rparr>)"
          using solo_one [of th AtPop s] Cons by fastforce
        note turn = solo_trans [OF pop es(1)]
        have one: "takes_count ([Take t] @ es) = 1" using es(2) by (simp add: takes_count_def)
        show ?thesis
        proof (cases "myPauseTasks s1")
          case True
          have "solo th AtTestPause s1 [] AtDrained s1" using solo_one [of th AtTestPause s1 AtDrained s1] True by simp
          from solo_trans [OF turn this] show ?thesis using k r True one by force
        next
          case False
          then obtain fs where fs: "solo th AtPop s1 fs AtDrained s'" "m = Suc n + takes_count fs"
            using k IH r by (metis (no_types, lifting))
          have "solo th AtTestPause s1 [] AtPop s1" using solo_one [of th AtTestPause s1 AtPop s1] False by simp
          from solo_trans [OF solo_trans [OF turn this] fs(1)] show ?thesis
            using one fs(2) takes_count_append [of "[Take t] @ es" fs] by (metis add_Suc_right add_Suc plus_1_eq_Suc append_Nil2)
        qed
      qed
    qed
  qed
  then show ?thesis using assms by blast
qed


text \<open>A thread that is about to drain a queue with one task.\<close>

abbreviation one_queued :: machine where
  "one_queued \<equiv> \<lparr>m_sched = (case scheduleTask (Some [Host 7]) (new_scheduler 1) of Inl e \<Rightarrow> new_scheduler 1 | Inr (t, s) \<Rightarrow> s),
     m_points = [AtDrain, AtInit []], m_timers = [], m_fault = None\<rparr>"


end
